(* ===== verification/Kleos_Prelude.thy ===== *)
theory Kleos_Prelude
  imports Main "HOL-Library.Word" "HOL-Library.Char_ord" "HOL-Library.List_Lexorder"
begin

text \<open>
  Shared ground of the development: the error type of \<^verbatim>\<open>kleos-lib/src/lib.rs\<close>, the integer casts
  and decimal printing the services use, SQLite tables as lists of rows in rowid order, and the
  generic state-machine contract every stateful component is proved against.

  A SQLite table with an \<^verbatim>\<open>INTEGER PRIMARY KEY AUTOINCREMENT\<close> column is the list of its rows in
  rowid order together with the largest id ever handed out (the \<^verbatim>\<open>sqlite_sequence\<close> entry), so a
  table scan, \<^verbatim>\<open>ORDER BY id ASC\<close> and \<^verbatim>\<open>ORDER BY id DESC\<close> are the list and its reversal. Statements
  succeed unless a constraint of the schema fails: I/O failures of the database are not modelled.
  Timestamps written by \<^verbatim>\<open>datetime('now')\<close> are seconds since the epoch.
\<close>

named_theorems table_simps \<open>rewriting of table operations\<close>
named_theorems step_inv \<open>invariant preservation of single operations\<close>

section \<open>Errors\<close>

datatype eng_error =
    Database string
  | DatabaseMessage string
  | Serialization string
  | NotFound string
  | InvalidInput string
  | Auth string
  | Forbidden string
  | Conflict string
  | Internal string
  | NotImplemented string
  | Encryption string
  | Resource string
  | QuotaExceeded string

type_synonym 'a result = "eng_error + 'a"

abbreviation Ok :: "'a \<Rightarrow> 'e + 'a" where
  "Ok \<equiv> Inr"

abbreviation Err :: "'e \<Rightarrow> 'e + 'a" where
  "Err \<equiv> Inl"

text \<open>The \<^verbatim>\<open>Display\<close> text of an error, as its \<^verbatim>\<open>#[error(..)]\<close> attributes give it.\<close>

fun error_text :: "eng_error \<Rightarrow> string" where
  "error_text (Database m) = ''database error: '' @ m"
| "error_text (DatabaseMessage m) = ''database error: '' @ m"
| "error_text (Serialization m) = ''serialization error: '' @ m"
| "error_text (NotFound m) = ''not found: '' @ m"
| "error_text (InvalidInput m) = ''invalid input: '' @ m"
| "error_text (Auth m) = ''auth error: '' @ m"
| "error_text (Forbidden m) = ''forbidden: '' @ m"
| "error_text (Conflict m) = ''conflict: '' @ m"
| "error_text (Internal m) = ''internal error: '' @ m"
| "error_text (NotImplemented m) = ''not implemented: '' @ m"
| "error_text (Encryption m) = ''encryption error: '' @ m"
| "error_text (Resource m) = ''resource limit: '' @ m"
| "error_text (QuotaExceeded m) = ''quota exceeded: '' @ m"

section \<open>Integers and strings\<close>

text \<open>Decimal printing, as \<^verbatim>\<open>format!("{}", n)\<close> prints an integer.\<close>

definition digit_char :: "nat \<Rightarrow> char" where
  "digit_char d = char_of (48 + d)"

fun show_nat :: "nat \<Rightarrow> string" where
  "show_nat n = (if n < 10 then [digit_char n] else show_nat (n div 10) @ [digit_char (n mod 10)])"

declare show_nat.simps [simp del]

definition show_int :: "int \<Rightarrow> string" where
  "show_int i = (if i < 0 then CHR ''-'' # show_nat (nat (- i)) else show_nat (nat i))"

text \<open>A text between single quotes, and a list joined with a separator.\<close>

definition quoted :: "string \<Rightarrow> string" where
  "quoted s = CHR 0x27 # s @ [CHR 0x27]"

fun join :: "string \<Rightarrow> string list \<Rightarrow> string" where
  "join sep [] = []"
| "join sep [x] = x"
| "join sep (x # y # xs) = x @ sep @ join sep (y # xs)"

text \<open>
  The cast \<^verbatim>\<open>limit as i64\<close> of a 64-bit \<^verbatim>\<open>usize\<close> reinterprets the bits, so a limit of $2^{63}$ or more
  becomes negative; SQLite reads a negative \<^verbatim>\<open>LIMIT\<close> as no limit and a negative \<^verbatim>\<open>OFFSET\<close> as zero.
\<close>

definition usize_as_i64 :: "64 word \<Rightarrow> int" where
  "usize_as_i64 n = sint n"

definition sql_limit :: "int \<Rightarrow> 'a list \<Rightarrow> 'a list" where
  "sql_limit l xs = (if l < 0 then xs else take (nat l) xs)"

definition sql_offset :: "int \<Rightarrow> 'a list \<Rightarrow> 'a list" where
  "sql_offset k xs = drop (nat k) xs"

lemma sql_limit_prefix: "\<exists>ys. xs = sql_limit l xs @ ys"
  by (auto simp: sql_limit_def intro: exI [of _ "drop (nat l) xs"])

lemma set_sql_limit: "set (sql_limit l xs) \<subseteq> set xs"
  by (auto simp: sql_limit_def dest: in_set_takeD)

lemma length_sql_limit: "0 \<le> l \<Longrightarrow> int (length (sql_limit l xs)) \<le> l"
  by (simp add: sql_limit_def)

lemma sorted_wrt_sql_limit: "sorted_wrt P xs \<Longrightarrow> sorted_wrt P (sql_limit l xs)"
  by (simp add: sql_limit_def sorted_wrt_take)

section \<open>Lists and options\<close>

lemma find_Some_in_set: "List.find P xs = Some x \<Longrightarrow> x \<in> set xs \<and> P x"
  by (induction xs) (auto split: if_splits)

lemma find_None_iff_all: "List.find P xs = None \<longleftrightarrow> (\<forall>x\<in>set xs. \<not> P x)"
  by (auto simp: find_None_iff)

lemma find_append:
  "List.find P (xs @ ys) = (case List.find P xs of None \<Rightarrow> List.find P ys | Some x \<Rightarrow> Some x)"
  by (induction xs) auto

lemma map_if_id: "(\<And>x. x \<in> set xs \<Longrightarrow> \<not> P x) \<Longrightarrow> map (\<lambda>x. if P x then f x else x) xs = xs"
  by (induction xs) auto

lemma filter_map_if:
  assumes "\<And>x. x \<in> set xs \<Longrightarrow> Q (if P x then f x else x) \<longleftrightarrow> Q x"
  shows "filter Q (map (\<lambda>x. if P x then f x else x) xs)
    = map (\<lambda>x. if P x then f x else x) (filter Q xs)"
  using assms by (induction xs) auto

lemma distinct_map_find:
  assumes "distinct (map f xs)" "x \<in> set xs"
  shows "List.find (\<lambda>y. f y = f x) xs = Some x"
  using assms by (induction xs) auto

lemma distinct_map_eq:
  assumes "distinct (map f xs)" "x \<in> set xs" "y \<in> set xs" "f x = f y"
  shows "x = y"
  using assms by (induction xs) (auto simp: rev_image_eqI)

lemma sum_list_mono_strict:
  fixes f g :: "'a \<Rightarrow> nat"
  assumes "\<And>x. x \<in> set xs \<Longrightarrow> f x \<le> g x" "y \<in> set xs" "f y < g y"
  shows "sum_list (map f xs) < sum_list (map g xs)"
  using assms
proof (induction xs)
  case Nil
  then show ?case by simp
next
  case (Cons x xs)
  have le: "sum_list (map f xs) \<le> sum_list (map g xs)"
    using Cons.prems(1) by (intro sum_list_mono) simp
  show ?case
  proof (cases "f x < g x")
    case True
    with le show ?thesis by simp
  next
    case False
    with Cons.prems have "y \<in> set xs" by auto
    with Cons have "sum_list (map f xs) < sum_list (map g xs)" by simp
    with Cons.prems(1) [of x] show ?thesis by simp
  qed
qed

section \<open>Tables\<close>

record 'r table =
  trows :: "'r list"
  tseq :: int

definition empty_table :: "'r table" where
  "empty_table = \<lparr>trows = [], tseq = 0\<rparr>"

definition insert_row :: "(int \<Rightarrow> 'r) \<Rightarrow> 'r table \<Rightarrow> int \<times> 'r table" where
  "insert_row mk t = (tseq t + 1, \<lparr>trows = trows t @ [mk (tseq t + 1)], tseq = tseq t + 1\<rparr>)"

text \<open>Without \<^verbatim>\<open>AUTOINCREMENT\<close> a new row takes one more than the largest id in the table.\<close>

definition next_rowid :: "('r \<Rightarrow> int) \<Rightarrow> 'r table \<Rightarrow> int" where
  "next_rowid rid t = fold max (map rid (trows t)) 0 + 1"

definition insert_rowid :: "('r \<Rightarrow> int) \<Rightarrow> (int \<Rightarrow> 'r) \<Rightarrow> 'r table \<Rightarrow> int \<times> 'r table" where
  "insert_rowid rid mk t = (next_rowid rid t, t\<lparr>trows := trows t @ [mk (next_rowid rid t)]\<rparr>)"

definition update_where :: "('r \<Rightarrow> bool) \<Rightarrow> ('r \<Rightarrow> 'r) \<Rightarrow> 'r table \<Rightarrow> 'r table" where
  "update_where P f t = t\<lparr>trows := map (\<lambda>r. if P r then f r else r) (trows t)\<rparr>"

definition delete_where :: "('r \<Rightarrow> bool) \<Rightarrow> 'r table \<Rightarrow> 'r table" where
  "delete_where P t = t\<lparr>trows := filter (\<lambda>r. \<not> P r) (trows t)\<rparr>"

definition count_where :: "('r \<Rightarrow> bool) \<Rightarrow> 'r table \<Rightarrow> nat" where
  "count_where P t = length (filter P (trows t))"

definition select_where :: "('r \<Rightarrow> bool) \<Rightarrow> 'r table \<Rightarrow> 'r list" where
  "select_where P t = filter P (trows t)"

definition find_where :: "('r \<Rightarrow> bool) \<Rightarrow> 'r table \<Rightarrow> 'r option" where
  "find_where P t = List.find P (trows t)"

text \<open>Ids are handed out in increasing order and never reused.\<close>

definition wf_table :: "('r \<Rightarrow> int) \<Rightarrow> 'r table \<Rightarrow> bool" where
  "wf_table rid t \<longleftrightarrow> sorted_wrt (<) (map rid (trows t))
     \<and> (\<forall>r\<in>set (trows t). 0 < rid r \<and> rid r \<le> tseq t) \<and> 0 \<le> tseq t"

lemma trows_update_where [table_simps]:
  "trows (update_where P f t) = map (\<lambda>r. if P r then f r else r) (trows t)"
  by (simp add: update_where_def)

lemma tseq_update_where [table_simps]: "tseq (update_where P f t) = tseq t"
  by (simp add: update_where_def)

lemma trows_delete_where [table_simps]: "trows (delete_where P t) = filter (\<lambda>r. \<not> P r) (trows t)"
  by (simp add: delete_where_def)

lemma tseq_delete_where [table_simps]: "tseq (delete_where P t) = tseq t"
  by (simp add: delete_where_def)

lemma insert_row_id [table_simps]: "fst (insert_row mk t) = tseq t + 1"
  by (simp add: insert_row_def)

lemma insert_row_rows [table_simps]:
  "trows (snd (insert_row mk t)) = trows t @ [mk (tseq t + 1)]"
  by (simp add: insert_row_def)

lemma insert_row_seq [table_simps]: "tseq (snd (insert_row mk t)) = tseq t + 1"
  by (simp add: insert_row_def)

lemma wf_empty_table [simp]: "wf_table rid empty_table"
  by (simp add: wf_table_def empty_table_def)

lemma wf_insert_row:
  assumes "wf_table rid t" "rid (mk (tseq t + 1)) = tseq t + 1"
  shows "wf_table rid (snd (insert_row mk t))"
  using assms by (fastforce simp: wf_table_def table_simps sorted_wrt_append)

lemma update_where_row: "r \<in> set (trows t) \<Longrightarrow> P r \<Longrightarrow> f r \<in> set (trows (update_where P f t))"
  by (auto simp: trows_update_where intro!: image_eqI [of _ _ r])

lemma update_where_none: "\<forall>r\<in>set (trows t). \<not> P r \<Longrightarrow> update_where P f t = t"
  by (simp add: update_where_def map_idI)

lemma image_update_where:
  "(\<And>r. k (f r) = k r) \<Longrightarrow> k ` set (trows (update_where P f t)) = k ` set (trows t)"
  unfolding trows_update_where set_map image_image by (rule image_cong) auto

lemma wf_update_where:
  assumes "wf_table rid t" "\<And>r. rid (f r) = rid r"
  shows "wf_table rid (update_where P f t)"
proof -
  have "map rid (map (\<lambda>r. if P r then f r else r) (trows t)) = map rid (trows t)"
    using assms(2) by simp
  with assms show ?thesis by (auto simp: wf_table_def table_simps simp del: map_map)
qed

lemma wf_table_map_in:
  assumes wf: "wf_table rid t" and rows: "trows t' = map g (trows t)" and seq: "tseq t' = tseq t"
    and g: "\<And>r. r \<in> set (trows t) \<Longrightarrow> rid (g r) = rid r"
  shows "wf_table rid t'"
proof -
  have "map rid (trows t') = map rid (trows t)" using rows g by simp
  moreover have "\<forall>r\<in>set (trows t'). 0 < rid r \<and> rid r \<le> tseq t'" using wf rows seq g by (auto simp: wf_table_def)
  ultimately show ?thesis using wf seq by (simp add: wf_table_def)
qed

lemma wf_delete_where:
  assumes "wf_table rid t" shows "wf_table rid (delete_where P t)"
proof -
  have "sorted_wrt (<) (map rid (filter (\<lambda>r. \<not> P r) (trows t)))"
    using assms by (simp add: wf_table_def sorted_wrt_map sorted_wrt_filter)
  with assms show ?thesis by (simp add: wf_table_def table_simps)
qed

lemma wf_table_distinct: "wf_table rid t \<Longrightarrow> distinct (map rid (trows t))"
  using strict_sorted_iff by (auto simp: wf_table_def)

lemma wf_table_unique:
  "wf_table rid t \<Longrightarrow> r \<in> set (trows t) \<Longrightarrow> r' \<in> set (trows t) \<Longrightarrow> rid r = rid r' \<Longrightarrow> r = r'"
  by (blast intro: distinct_map_eq wf_table_distinct)

lemma wf_table_find:
  "wf_table rid t \<Longrightarrow> r \<in> set (trows t) \<Longrightarrow> find_where (\<lambda>x. rid x = rid r) t = Some r"
  by (simp add: find_where_def distinct_map_find wf_table_distinct)

lemma wf_table_find2:
  assumes "wf_table rid t" "r \<in> set (trows t)" "Q r"
  shows "find_where (\<lambda>x. rid x = rid r \<and> Q x) t = Some r"
proof -
  have "distinct (map rid xs) \<Longrightarrow> r \<in> set xs \<Longrightarrow> Q r \<Longrightarrow> List.find (\<lambda>x. rid x = rid r \<and> Q x) xs = Some r" for xs
    by (induction xs) auto
  with assms show ?thesis by (simp add: find_where_def wf_table_distinct)
qed

lemma find_where_Some: "find_where P t = Some r \<Longrightarrow> r \<in> set (trows t) \<and> P r"
  by (simp add: find_where_def find_Some_in_set)

lemma find_where_None: "find_where P t = None \<longleftrightarrow> (\<forall>r\<in>set (trows t). \<not> P r)"
  by (simp add: find_where_def find_None_iff_all)

text \<open>The part of a database every service sees: the clock behind \<^verbatim>\<open>datetime('now')\<close>. Services extend
  this record with their tables, so several services can share one database.\<close>

record database =
  now :: int

text \<open>\<^verbatim>\<open>datetime('now', '-H hours')\<close>; a negative \<open>H\<close> prints as \<^verbatim>\<open>--5 hours\<close>, which SQLite does not
  accept as a modifier: the result is \<^verbatim>\<open>NULL\<close> and no comparison with it holds.\<close>

definition datetime_minus_hours :: "int \<Rightarrow> int \<Rightarrow> int option" where
  "datetime_minus_hours t h = (if h < 0 then None else Some (t - 3600 * h))"

text \<open>\<^verbatim>\<open>datetime('now', '-D days')\<close> and \<^verbatim>\<open>datetime('now', '+S seconds')\<close> likewise.\<close>

definition datetime_minus_days :: "int \<Rightarrow> int \<Rightarrow> int option" where
  "datetime_minus_days t d = (if d < 0 then None else Some (t - 86400 * d))"

definition datetime_plus_seconds :: "int \<Rightarrow> int \<Rightarrow> int option" where
  "datetime_plus_seconds t s = (if s < 0 then None else Some (t + s))"

definition before :: "int option \<Rightarrow> int option \<Rightarrow> bool" where
  "before a b = (case (a, b) of (Some x, Some y) \<Rightarrow> x < y | _ \<Rightarrow> False)"

section \<open>Runs of operations\<close>

fun run_ops :: "('op \<Rightarrow> 's \<Rightarrow> 's) \<Rightarrow> 'op list \<Rightarrow> 's \<Rightarrow> 's" where
  "run_ops f [] s = s"
| "run_ops f (op # ops) s = run_ops f ops (f op s)"

text \<open>What each operation of a run gives, collected in order.\<close>

fun collect_ops :: "('op \<Rightarrow> 's \<Rightarrow> 's) \<Rightarrow> ('op \<Rightarrow> 's \<Rightarrow> 'e list) \<Rightarrow> 'op list \<Rightarrow> 's \<Rightarrow> 'e list" where
  "collect_ops f g [] s = []"
| "collect_ops f g (op # ops) s = g op s @ collect_ops f g ops (f op s)"

lemma run_ops_append: "run_ops f (xs @ ys) s = run_ops f ys (run_ops f xs s)"
  by (induction xs arbitrary: s) auto

lemma run_ops_keep:
  "(\<And>op s. P s \<Longrightarrow> P (f op s)) \<Longrightarrow> P s \<Longrightarrow> P (run_ops f ops s)"
  by (induction ops arbitrary: s) auto

section \<open>State machines\<close>

text \<open>
  The contract of a component whose operations are the steps of a machine: a property every step
  keeps holds after any sequence of steps, and a set of states no step leaves is never left.
\<close>

locale state_machine =
  fixes step :: "'s \<Rightarrow> 's \<Rightarrow> bool"
    and inv :: "'s \<Rightarrow> bool"
  assumes step_keeps: "inv s \<Longrightarrow> step s t \<Longrightarrow> inv t"
begin

lemma steps_keep: "step\<^sup>*\<^sup>* s t \<Longrightarrow> inv s \<Longrightarrow> inv t"
  by (induction rule: rtranclp_induct) (auto intro: step_keeps)

lemma steps_keep_relation:
  assumes "step\<^sup>*\<^sup>* s t" "inv s" "\<And>a. R a a"
    and "\<And>a b c. R a b \<Longrightarrow> R b c \<Longrightarrow> R a c"
    and "\<And>a b. inv a \<Longrightarrow> step a b \<Longrightarrow> R a b"
  shows "R s t"
  using assms(1,2)
proof (induction rule: rtranclp_induct)
  case base
  then show ?case using assms(3) by blast
next
  case (step b c)
  then have "R s b" "inv b" using steps_keep by blast+
  with step.hyps(2) show ?case using assms(4,5) by blast
qed

end

end
