(* ===== verification/Json_Values.thy ===== *)
theory Json_Values
  imports Kleos_Prelude
begin

text \<open>
  JSON values and the pure text helpers the services share: \<^verbatim>\<open>serde_json\<close> values with their ordered
  maps, the dot-path reader and writer (\<^verbatim>\<open>loom.rs\<close>, \<^verbatim>\<open>llm/template.rs\<close>), the single-pass template
  interpolator (\<^verbatim>\<open>llm/template.rs\<close>), the brace scanner \<^verbatim>\<open>extract_json_object\<close> and the LLM variable
  builder (\<^verbatim>\<open>loom.rs\<close>). A number is kept as the text \<^verbatim>\<open>serde_json\<close> prints for it, since no code
  here computes with one. Printing and parsing of whole values belong to \<^verbatim>\<open>serde_json\<close> and are
  parameters. Strings are UTF-8 byte strings; \<^verbatim>\<open>trim\<close> strips ASCII white space.
\<close>

section \<open>Values and ordered maps\<close>

datatype json =
    JNull
  | JBool bool
  | JNum string
  | JStr string
  | JArr "json list"
  | JObj "(string \<times> json) list"

type_synonym json_map = "(string \<times> json) list"

text \<open>\<^verbatim>\<open>serde_json::Map\<close> is a \<^verbatim>\<open>BTreeMap\<close>: entries in key order, \<^verbatim>\<open>insert\<close> replaces.\<close>

fun map_insert :: "string \<Rightarrow> 'v \<Rightarrow> (string \<times> 'v) list \<Rightarrow> (string \<times> 'v) list" where
  "map_insert k v [] = [(k, v)]"
| "map_insert k v ((k', v') # m) =
     (if k < k' then (k, v) # (k', v') # m
      else if k = k' then (k, v) # m
      else (k', v') # map_insert k v m)"

definition map_get :: "string \<Rightarrow> (string \<times> 'v) list \<Rightarrow> 'v option" where
  "map_get k m = map_of m k"

text \<open>\<^verbatim>\<open>for (k, v) in src { dst.insert(k, v) }\<close>: every entry of the source overwrites.\<close>

definition map_extend :: "(string \<times> 'v) list \<Rightarrow> (string \<times> 'v) list \<Rightarrow> (string \<times> 'v) list" where
  "map_extend dst src = fold (\<lambda>(k, v) m. map_insert k v m) src dst"

definition ordered_map :: "(string \<times> 'v) list \<Rightarrow> bool" where
  "ordered_map m \<longleftrightarrow> sorted_wrt (<) (map fst m)"

lemma set_map_insert: "fst ` set (map_insert k v m) = insert k (fst ` set m)"
  by (induction k v m rule: map_insert.induct) auto

lemma ordered_map_insert: "ordered_map m \<Longrightarrow> ordered_map (map_insert k v m)"
proof (induction k v m rule: map_insert.induct)
  case (2 k v k' v' m)
  have eq: "fst ` set (map_insert k v m) = insert k (fst ` set m)" by (rule set_map_insert)
  show ?case
  proof (cases "k < k' \<or> k = k'")
    case True
    with "2.prems" show ?thesis by (fastforce simp: ordered_map_def)
  next
    case False
    then have "k' < k" by auto
    moreover from False "2" have "ordered_map (map_insert k v m)"
      by (simp add: ordered_map_def)
    moreover have "\<forall>x\<in>fst ` set m. k' < x" using "2.prems" by (auto simp: ordered_map_def)
    ultimately have "\<forall>x\<in>fst ` set (map_insert k v m). k' < x" using eq by auto
    with False \<open>ordered_map (map_insert k v m)\<close> show ?thesis
      by (auto simp: ordered_map_def)
  qed
qed (simp add: ordered_map_def)

lemma map_get_map_insert: "map_get k' (map_insert k v m) = (if k' = k then Some v else map_get k' m)"
  if "ordered_map m"
  using that
proof (induction k v m rule: map_insert.induct)
  case (2 k v k1 v1 m)
  from "2.prems" have "ordered_map m" by (simp add: ordered_map_def)
  moreover have "map_of m k = None" if "k < k1"
    using "2.prems" that by (fastforce simp: ordered_map_def map_of_eq_None_iff)
  ultimately show ?case using "2.IH" by (auto simp: map_get_def)
qed (simp add: map_get_def)

text \<open>Reading back what was just inserted needs no order, and neither does a key that was not touched
  on either side.\<close>

lemma map_get_insert_same [simp]: "map_get k (map_insert k v m) = Some v"
  by (induction k v m rule: map_insert.induct) (auto simp: map_get_def)

lemma map_get_insert_other [simp]: "k' \<noteq> k \<Longrightarrow> map_get k' (map_insert k v m) = map_get k' m"
  by (induction k v m rule: map_insert.induct) (auto simp: map_get_def)

lemma map_get_extend:
  "ordered_map src \<Longrightarrow> map_get k (map_extend dst src)
     = (case map_get k src of None \<Rightarrow> map_get k dst | Some v \<Rightarrow> Some v)"
proof (induction src arbitrary: dst)
  case Nil
  then show ?case by (simp add: map_extend_def map_get_def)
next
  case (Cons kv src)
  obtain k1 v1 where kv: "kv = (k1, v1)" by fastforce
  from Cons.prems have "ordered_map src" by (simp add: ordered_map_def)
  then have IH: "map_get k (map_extend (map_insert k1 v1 dst) src)
      = (case map_get k src of None \<Rightarrow> map_get k (map_insert k1 v1 dst) | Some v \<Rightarrow> Some v)"
    by (rule Cons.IH)
  have k1: "map_of src k1 = None"
    using Cons.prems kv by (force simp: ordered_map_def map_of_eq_None_iff)
  have "map_extend dst (kv # src) = map_extend (map_insert k1 v1 dst) src"
    by (simp add: map_extend_def kv)
  with IH k1 show ?case
    by (cases "k = k1")
      (simp_all add: kv map_get_def [of _ src] map_get_def [of _ "_ # _"] split: option.split)
qed

lemma ordered_map_extend: "ordered_map dst \<Longrightarrow> ordered_map (map_extend dst src)"
  unfolding map_extend_def
  by (induction src arbitrary: dst) (auto intro: ordered_map_insert)

section \<open>Accessors of \<open>serde_json::Value\<close>\<close>

definition json_get :: "json \<Rightarrow> string \<Rightarrow> json option" where
  "json_get j k = (case j of JObj m \<Rightarrow> map_get k m | _ \<Rightarrow> None)"

definition as_str :: "json \<Rightarrow> string option" where
  "as_str j = (case j of JStr s \<Rightarrow> Some s | _ \<Rightarrow> None)"

definition json_str_field :: "json \<Rightarrow> string \<Rightarrow> string option" where
  "json_str_field j k = Option.bind (json_get j k) as_str"

section \<open>Dot paths\<close>

text \<open>\<^verbatim>\<open>str::split('.')\<close> and \<^verbatim>\<open>str::splitn(2, '.')\<close>.\<close>

fun split_once :: "char \<Rightarrow> string \<Rightarrow> string \<times> string option" where
  "split_once c [] = ([], None)"
| "split_once c (x # xs) =
     (if x = c then ([], Some xs) else (case split_once c xs of (a, r) \<Rightarrow> (x # a, r)))"

fun split_char :: "char \<Rightarrow> string \<Rightarrow> string list" where
  "split_char c [] = [[]]"
| "split_char c (x # xs) =
     (if x = c then [] # split_char c xs
      else (case split_char c xs of [] \<Rightarrow> [[x]] | seg # segs \<Rightarrow> (x # seg) # segs))"

lemma split_once_shorter: "split_once c s = (a, Some r) \<Longrightarrow> length r < length s"
  by (induction s arbitrary: a) (auto split: if_splits prod.splits)

lemma split_char_not_Nil [simp]: "split_char c s \<noteq> []"
  by (induction s) (auto split: list.splits)

lemma split_char_split_once:
  "split_char c s = (case split_once c s of (a, None) \<Rightarrow> [a] | (a, Some r) \<Rightarrow> a # split_char c r)"
  by (induction s) (auto split: prod.splits option.splits list.splits)

fun resolve_segments :: "json \<Rightarrow> string list \<Rightarrow> json" where
  "resolve_segments cur [] = cur"
| "resolve_segments cur (key # keys) =
     (case cur of
        JObj m \<Rightarrow> (case map_get key m of Some v \<Rightarrow> resolve_segments v keys | None \<Rightarrow> JNull)
      | _ \<Rightarrow> JNull)"

definition resolve_dot_path :: "json \<Rightarrow> string \<Rightarrow> json" where
  "resolve_dot_path obj path = resolve_segments obj (split_char (CHR ''.'') path)"

function set_dot_path :: "json_map \<Rightarrow> string \<Rightarrow> json \<Rightarrow> json_map" where
  "set_dot_path obj path v =
     (case split_once (CHR ''.'') path of
        (key, None) \<Rightarrow> map_insert key v obj
      | (key, Some rest) \<Rightarrow>
          (case (case map_get key obj of None \<Rightarrow> JObj [] | Some e \<Rightarrow> e) of
             JObj inner \<Rightarrow> map_insert key (JObj (set_dot_path inner rest v)) obj
           | _ \<Rightarrow> map_insert key (JObj (set_dot_path [] rest v)) obj))"
  by pat_completeness auto
termination
  by (relation "measure (\<lambda>(obj, path, v). length path)") (auto dest!: split_once_shorter [OF sym])

declare set_dot_path.simps [simp del]

text \<open>The same writer over a list of segments, for the proofs.\<close>

fun set_segments :: "json_map \<Rightarrow> string list \<Rightarrow> json \<Rightarrow> json_map" where
  "set_segments obj [] v = obj"
| "set_segments obj [key] v = map_insert key v obj"
| "set_segments obj (key # keys) v =
     map_insert key
       (JObj (set_segments (case map_get key obj of Some (JObj inner) \<Rightarrow> inner | _ \<Rightarrow> []) keys v)) obj"

lemma set_segments_Cons:
  "keys \<noteq> [] \<Longrightarrow> set_segments obj (key # keys) v = map_insert key
       (JObj (set_segments (case map_get key obj of Some (JObj inner) \<Rightarrow> inner | _ \<Rightarrow> []) keys v)) obj"
  by (cases keys) auto

lemma set_dot_path_segments: "set_dot_path obj path v = set_segments obj (split_char (CHR ''.'') path) v"
proof (induction obj path v rule: set_dot_path.induct)
  case (1 obj path v)
  obtain key r where kr: "split_once (CHR ''.'') path = (key, r)" by fastforce
  show ?case
  proof (cases r)
    case None
    then show ?thesis
      by (simp add: set_dot_path.simps [of obj path] split_char_split_once [of _ path] kr)
  next
    case (Some rest)
    let ?inner = "case map_get key obj of Some (JObj inner) \<Rightarrow> inner | _ \<Rightarrow> []"
    have "set_dot_path obj path v = map_insert key (JObj (set_dot_path ?inner rest v)) obj"
      by (simp add: set_dot_path.simps [of obj path] kr Some split: option.splits json.splits)
    moreover have "set_dot_path ?inner rest v = set_segments ?inner (split_char (CHR ''.'') rest) v"
      using 1 [OF kr [symmetric] Some] by (auto split: option.splits json.splits)
    ultimately show ?thesis
      by (simp add: split_char_split_once [of _ path] kr Some set_segments_Cons)
  qed
qed

lemma resolve_set_segments: "keys \<noteq> [] \<Longrightarrow> resolve_segments (JObj (set_segments obj keys v)) keys = v"
  by (induction obj keys v rule: set_segments.induct) auto

lemma resolve_segments_Null: "resolve_segments JNull keys \<in> {JNull}"
  by (cases keys) auto

lemma resolve_empty: "keys \<noteq> [] \<Longrightarrow> resolve_segments (JObj []) keys = JNull"
  by (cases keys) (auto simp: map_get_def)

text \<open>Two paths fork when neither is a prefix of the other.\<close>

fun paths_fork :: "string list \<Rightarrow> string list \<Rightarrow> bool" where
  "paths_fork (p # ps) (q # qs) = (p \<noteq> q \<or> paths_fork ps qs)"
| "paths_fork _ _ = False"

lemma resolve_set_other:
  "paths_fork ps qs \<Longrightarrow> resolve_segments (JObj (set_segments obj ps v)) qs = resolve_segments (JObj obj) qs"
proof (induction ps qs arbitrary: obj rule: paths_fork.induct)
  case (1 p ps q qs)
  show ?case
  proof (cases "p = q")
    case False
    then show ?thesis by (cases ps) auto
  next
    case True
    with "1.prems" have fork: "paths_fork ps qs" by simp
    then have ne: "ps \<noteq> []" "qs \<noteq> []" by (cases ps; cases qs; simp)+
    let ?inner = "case map_get p obj of Some (JObj inner) \<Rightarrow> inner | _ \<Rightarrow> []"
    have "resolve_segments (JObj (set_segments ?inner ps v)) qs = resolve_segments (JObj ?inner) qs"
      using "1.IH" True fork by simp
    moreover have "resolve_segments (JObj ?inner) qs = resolve_segments (JObj obj) (q # qs)"
      using ne True by (cases qs) (auto simp: map_get_def split: option.splits json.splits)
    ultimately show ?thesis using True ne(1) by (simp add: set_segments_Cons)
  qed
qed auto


section \<open>Template interpolation\<close>

fun find_sub :: "string \<Rightarrow> string \<Rightarrow> nat option" where
  "find_sub p [] = (if p = [] then Some 0 else None)"
| "find_sub p (x # xs) =
     (if take (length p) (x # xs) = p then Some 0 else map_option Suc (find_sub p xs))"

definition is_ws :: "char \<Rightarrow> bool" where
  "is_ws c \<longleftrightarrow> of_char c = (32::nat) \<or> (9 \<le> (of_char c::nat) \<and> (of_char c::nat) \<le> 13)"

definition trim :: "string \<Rightarrow> string" where
  "trim s = rev (dropWhile is_ws (rev (dropWhile is_ws s)))"

lemma find_sub_bound: "find_sub p s = Some i \<Longrightarrow> i + length p \<le> length s"
  by (induction s arbitrary: i) (auto split: if_splits dest: arg_cong [where f = length])

lemma find_sub_found: "find_sub p s = Some i \<Longrightarrow> take (length p) (drop i s) = p"
  by (induction s arbitrary: i) (auto split: if_splits)

lemma find_sub_first: "find_sub p s = Some i \<Longrightarrow> j < i \<Longrightarrow> take (length p) (drop j s) \<noteq> p"
proof (induction s arbitrary: i j)
  case (Cons x xs)
  then show ?case by (cases j) (auto split: if_splits)
qed (auto split: if_splits)

lemma find_sub_None: "find_sub p s = None \<Longrightarrow> j \<le> length s \<Longrightarrow> take (length p) (drop j s) \<noteq> p"
proof (induction s arbitrary: j)
  case (Cons x xs)
  then show ?case by (cases j) (auto split: if_splits)
qed (auto split: if_splits)

definition replacement :: "(json \<Rightarrow> string) \<Rightarrow> json \<Rightarrow> string" where
  "replacement display v = (case v of JStr s \<Rightarrow> s | JNull \<Rightarrow> [] | other \<Rightarrow> display other)"

function interpolate_loop :: "(json \<Rightarrow> string) \<Rightarrow> json \<Rightarrow> string \<Rightarrow> string \<Rightarrow> string" where
  "interpolate_loop display vars rest acc =
     (case find_sub ''{{'' rest of
        None \<Rightarrow> acc @ rest
      | Some start \<Rightarrow>
          (case find_sub ''}}'' (drop start rest) of
             None \<Rightarrow> acc @ rest
           | Some end_offset \<Rightarrow>
               let e = start + end_offset;
                   path = trim (drop (start + 2) (take e rest))
               in interpolate_loop display vars (drop (e + 2) rest)
                    (acc @ take start rest @ replacement display (resolve_dot_path vars path))))"
  by pat_completeness auto
termination
  by (relation "measure (\<lambda>(d, v, rest, acc). length rest)")
     (auto dest!: find_sub_bound)

declare interpolate_loop.simps [simp del]

definition interpolate :: "(json \<Rightarrow> string) \<Rightarrow> string \<Rightarrow> json \<Rightarrow> string" where
  "interpolate display template vars = interpolate_loop display vars template []"

text \<open>
  The reference: a template is a sequence of literal pieces and slots, fixed by the template alone;
  rendering replaces each slot by its value and keeps each literal.
\<close>

datatype template_part = Lit string | Slot string

function template_parts :: "string \<Rightarrow> template_part list" where
  "template_parts rest =
     (case find_sub ''{{'' rest of
        None \<Rightarrow> [Lit rest]
      | Some start \<Rightarrow>
          (case find_sub ''}}'' (drop start rest) of
             None \<Rightarrow> [Lit rest]
           | Some k \<Rightarrow> Lit (take start rest) # Slot (drop (start + 2) (take (start + k) rest))
                        # template_parts (drop (start + k + 2) rest)))"
  by pat_completeness auto
termination
  by (relation "measure length") (auto dest!: find_sub_bound)

declare template_parts.simps [simp del]

fun part_source :: "template_part \<Rightarrow> string" where
  "part_source (Lit s) = s"
| "part_source (Slot s) = ''{{'' @ s @ ''}}''"

fun part_text :: "(json \<Rightarrow> string) \<Rightarrow> json \<Rightarrow> template_part \<Rightarrow> string" where
  "part_text display vars (Lit s) = s"
| "part_text display vars (Slot s) = replacement display (resolve_dot_path vars (trim s))"

lemma interpolate_loop_parts:
  "interpolate_loop display vars rest acc
     = acc @ concat (map (part_text display vars) (template_parts rest))"
proof (induction display vars rest acc rule: interpolate_loop.induct)
  case (1 display vars rest acc)
  show ?case
  proof (cases "\<exists>s k. find_sub ''{{'' rest = Some s \<and> find_sub ''}}'' (drop s rest) = Some k")
    case True
    then obtain s k where sk: "find_sub ''{{'' rest = Some s" "find_sub ''}}'' (drop s rest) = Some k"
      by blast
    show ?thesis
      using 1 [OF sk refl refl] sk
      by (simp add: interpolate_loop.simps [of _ _ rest] template_parts.simps [of rest] Let_def
          del: One_nat_def add_2_eq_Suc')
  next
    case False
    then show ?thesis
      by (auto simp: interpolate_loop.simps [of _ _ rest] template_parts.simps [of rest]
          split: option.splits)
  qed
qed

lemma find_sub_split:
  assumes "find_sub p s = Some i"
  shows "s = take i s @ p @ drop (i + length p) s"
  by (metis add.commute append_take_drop_id assms drop_drop find_sub_found)

lemma slot_source:
  assumes s: "find_sub ''{{'' t = Some s" and k: "find_sub ''}}'' (drop s t) = Some k"
  shows "take s t @ ''{{'' @ drop (s + 2) (take (s + k) t) @ ''}}'' @ drop (s + k + 2) t = t"
proof -
  define r where "r = drop (s + 2) t"
  have t: "t = take s t @ ''{{'' @ r" using find_sub_split [OF s] by (simp add: r_def)
  have "drop s t = ''{{'' @ r"
    using t find_sub_bound [OF s] by (metis append_eq_conv_conj length_take min.absorb2 add_leD1)
  with k obtain m where m: "k = m + 2" "find_sub ''}}'' r = Some m" by auto
  have r: "take m r @ ''}}'' @ drop (m + 2) r = r" using find_sub_split [OF m(2)] by simp
  have "drop (s + 2) (take (s + k) t) = take m r" by (simp add: r_def m drop_take)
  moreover have "drop (s + k + 2) t = drop (m + 2) r" by (simp add: r_def m ac_simps)
  ultimately have "take s t @ ''{{'' @ drop (s + 2) (take (s + k) t) @ ''}}'' @ drop (s + k + 2) t
      = take s t @ ''{{'' @ take m r @ ''}}'' @ drop (m + 2) r" by simp
  also have "\<dots> = t" using r t by simp
  finally show ?thesis .
qed

lemma template_parts_source: "concat (map part_source (template_parts t)) = t"
proof (induction t rule: template_parts.induct)
  case (1 t)
  show ?case
  proof (cases "\<exists>s k. find_sub ''{{'' t = Some s \<and> find_sub ''}}'' (drop s t) = Some k")
    case True
    then obtain s k where sk: "find_sub ''{{'' t = Some s" "find_sub ''}}'' (drop s t) = Some k" by blast
    then have "concat (map part_source (template_parts t))
        = take s t @ (''{{'' @ drop (s + 2) (take (s + k) t) @ ''}}'') @ drop (s + k + 2) t"
      using 1 [OF sk] by (subst template_parts.simps) simp
    with slot_source [OF sk] show ?thesis by simp
  next
    case False
    then show ?thesis by (subst template_parts.simps) (auto split: option.splits)
  qed
qed

text \<open>A slot never contains the closing braces, so the first \<^verbatim>\<open>}}\<close> after a slot opens it closes it.\<close>

lemma template_slot_closed:
  "Slot p \<in> set (template_parts t) \<Longrightarrow> j \<le> length p \<Longrightarrow> take 2 (drop j p) \<noteq> ''}}''"
proof (induction t rule: template_parts.induct)
  case (1 t)
  show ?case
  proof (cases "\<exists>s k. find_sub ''{{'' t = Some s \<and> find_sub ''}}'' (drop s t) = Some k")
    case True
    then obtain s k where sk: "find_sub ''{{'' t = Some s" "find_sub ''}}'' (drop s t) = Some k" by blast
    then have "p = drop (s + 2) (take (s + k) t) \<or> Slot p \<in> set (template_parts (drop (s + k + 2) t))"
      using "1.prems" by (subst (asm) template_parts.simps) auto
    then show ?thesis
    proof
      assume p: "p = drop (s + 2) (take (s + k) t)"
      show ?thesis
      proof
        assume at: "take 2 (drop j p) = ''}}''"
        then have len: "j + 2 \<le> length p" by (cases "drop j p"; cases "tl (drop j p)")
          (auto simp: numeral_2_eq_2 dest: arg_cong [where f = length])
        have "take 2 (drop j p) = take 2 (drop (j + 2) (drop s t))"
          using len by (auto simp: p drop_take take_take min_def ac_simps split: if_splits)
        moreover have "j + 2 < k" using len by (auto simp: p)
        ultimately show False using at find_sub_first [OF sk(2), of "j + 2"]
          by (simp add: numeral_2_eq_2)
      qed
    qed (use 1 sk in auto)
  next
    case False
    then show ?thesis using "1.prems"
      by (subst (asm) template_parts.simps) (auto split: option.splits)
  qed
qed

section \<open>The first balanced object of a text\<close>

fun scan_object :: "string \<Rightarrow> int \<Rightarrow> bool \<Rightarrow> bool \<Rightarrow> string \<Rightarrow> string option" where
  "scan_object acc depth in_str escape [] = None"
| "scan_object acc depth in_str escape (b # bs) =
     (if in_str then
        (if escape then scan_object (acc @ [b]) depth True False bs
         else if b = CHR 0x5C then scan_object (acc @ [b]) depth True True bs
         else if b = CHR 0x22 then scan_object (acc @ [b]) depth False False bs
         else scan_object (acc @ [b]) depth True False bs)
      else if b = CHR 0x22 then scan_object (acc @ [b]) depth True escape bs
      else if b = CHR ''{'' then scan_object (acc @ [b]) (depth + 1) False escape bs
      else if b = CHR ''}'' then
        (if depth - 1 = 0 then Some (acc @ [b])
         else scan_object (acc @ [b]) (depth - 1) False escape bs)
      else scan_object (acc @ [b]) depth False escape bs)"

definition extract_json_object :: "string \<Rightarrow> string option" where
  "extract_json_object text =
     (case find_sub ''{'' text of
        None \<Rightarrow> None
      | Some start \<Rightarrow> scan_object [] 0 False False (drop start text))"

text \<open>The bracket depth of a text, read outside string literals.\<close>

fun scan_step :: "int \<times> bool \<times> bool \<Rightarrow> char \<Rightarrow> int \<times> bool \<times> bool" where
  "scan_step (d, in_str, esc) b =
     (if in_str then
        (if esc then (d, True, False)
         else if b = CHR 0x5C then (d, True, True)
         else if b = CHR 0x22 then (d, False, False)
         else (d, True, False))
      else if b = CHR 0x22 then (d, True, esc)
      else if b = CHR ''{'' then (d + 1, False, esc)
      else if b = CHR ''}'' then (d - 1, False, esc)
      else (d, False, esc))"

definition brace_depth :: "string \<Rightarrow> int" where
  "brace_depth s = fst (foldl scan_step (0, False, False) s)"

text \<open>\<open>balanced_object r\<close>: a text that opens with a brace and comes back to depth 0 at its end only.\<close>

definition balanced_object :: "string \<Rightarrow> bool" where
  "balanced_object r \<longleftrightarrow> r \<noteq> [] \<and> hd r = CHR ''{'' \<and> brace_depth r = 0
     \<and> (\<forall>n\<in>{1..<length r}. 0 < brace_depth (take n r))"

lemma scan_object_Cons:
  "scan_object acc d i e (b # bs) =
     (if \<not> i \<and> b = CHR ''}'' \<and> d - 1 = 0 then Some (acc @ [b])
      else (case scan_step (d, i, e) b of (d', i', e') \<Rightarrow> scan_object (acc @ [b]) d' i' e' bs))"
  by auto

declare scan_object.simps(2) [simp del]

lemma scan_object_Some:
  assumes "scan_object acc d i e s = Some r" "0 < d"
    and "foldl scan_step (0, False, False) acc = (d, i, e)"
  shows "\<exists>mid post. s = mid @ post \<and> r = acc @ mid \<and> mid \<noteq> [] \<and> brace_depth r = 0
     \<and> (\<forall>n<length mid. 0 < brace_depth (acc @ take n mid))"
  using assms
proof (induction s arbitrary: acc d i e)
  case (Cons b bs)
  have now: "0 < brace_depth acc" using Cons.prems by (simp add: brace_depth_def)
  show ?case
  proof (cases "\<not> i \<and> b = CHR ''}'' \<and> d - 1 = 0")
    case True
    then have "r = acc @ [b]" "brace_depth r = 0"
      using Cons.prems by (auto simp: brace_depth_def scan_object_Cons)
    with now show ?thesis by (intro exI [of _ "[b]"] exI [of _ bs]) auto
  next
    case False
    obtain d' i' e' where st: "scan_step (d, i, e) b = (d', i', e')" by (metis prod_cases3)
    have d': "0 < d'" using st False Cons.prems(2) by (auto split: if_splits)
    have fold: "foldl scan_step (0, False, False) (acc @ [b]) = (d', i', e')"
      using Cons.prems(3) st by simp
    have "scan_object (acc @ [b]) d' i' e' bs = Some r"
      using Cons.prems(1) st False unfolding scan_object_Cons by (simp only: if_False split)
    from Cons.IH [OF this d' fold] obtain mid post where
      m: "bs = mid @ post" "r = (acc @ [b]) @ mid" "brace_depth r = 0"
      "\<And>n. n < length mid \<Longrightarrow> 0 < brace_depth ((acc @ [b]) @ take n mid)" by blast
    have "0 < brace_depth (acc @ take n (b # mid))" if "n < length (b # mid)" for n
      using that now m(4) by (cases n) auto
    with m show ?thesis by (intro exI [of _ "b # mid"] exI [of _ post]) auto
  qed
qed simp

lemma scan_object_complete:
  assumes "foldl scan_step (0, False, False) acc = (d, i, e)" "0 < d" "mid \<noteq> []"
    and "brace_depth (acc @ mid) = 0" "\<forall>n<length mid. 0 < brace_depth (acc @ take n mid)"
  shows "scan_object acc d i e (mid @ post) = Some (acc @ mid)"
  using assms
proof (induction mid arbitrary: acc d i e)
  case (Cons b mid)
  obtain d' i' e' where st: "scan_step (d, i, e) b = (d', i', e')" by (metis prod_cases3)
  have fold: "foldl scan_step (0, False, False) (acc @ [b]) = (d', i', e')"
    using Cons.prems(1) st by simp
  show ?case
  proof (cases "mid = []")
    case True
    with Cons.prems fold have "d' = 0" by (simp add: brace_depth_def)
    with True st Cons.prems(2) show ?thesis by (auto simp: scan_object_Cons split: if_splits)
  next
    case False
    with Cons.prems(5) have "0 < brace_depth (acc @ take 1 (b # mid))" by (metis One_nat_def Suc_less_eq
      length_Cons length_greater_0_conv)
    then have d': "0 < d'" using fold by (simp add: brace_depth_def)
    have "\<forall>n<length mid. 0 < brace_depth ((acc @ [b]) @ take n mid)"
      using Cons.prems(5) by (metis Suc_less_eq append.assoc append_Cons append_Nil length_Cons take_Suc_Cons)
    then have "scan_object (acc @ [b]) d' i' e' (mid @ post) = Some ((acc @ [b]) @ mid)"
      using Cons.IH [OF fold d' False] Cons.prems(4) by simp
    moreover have "\<not> (\<not> i \<and> b = CHR ''}'' \<and> d - 1 = 0)" using st d' by auto
    ultimately show ?thesis using st by (auto simp: scan_object_Cons simp del: scan_step.simps)
  qed
qed simp

section \<open>Variables of an LLM step\<close>

definition build_llm_vars :: "json \<Rightarrow> json option \<Rightarrow> json_map" where
  "build_llm_vars input input_map =
     (let vars = (case input of JObj m \<Rightarrow> map_extend [] m | _ \<Rightarrow> [])
      in case input_map of
           Some (JObj aliases) \<Rightarrow>
             fold (\<lambda>(alias, source) vs.
                (case as_str source of
                   Some src \<Rightarrow> (case map_get src vs of Some val \<Rightarrow> map_insert alias val vs | None \<Rightarrow> vs)
                 | None \<Rightarrow> vs)) aliases vars
         | _ \<Rightarrow> vars)"


section \<open>Properties\<close>

text \<open>
  Writing a value at a dot path and reading the same path back gives the value, whatever
  the object held before (missing intermediate objects are created, non-objects on the way are
  replaced), and reading any path that forks from the written one gives what it gave before.
\<close>

lemma dot_path_write_read:
  "resolve_dot_path (JObj (set_dot_path obj path v)) path = v
   \<and> (paths_fork (split_char (CHR ''.'') path) (split_char (CHR ''.'') other) \<longrightarrow>
      resolve_dot_path (JObj (set_dot_path obj path v)) other = resolve_dot_path (JObj obj) other)"
  by (simp add: resolve_dot_path_def set_dot_path_segments resolve_set_segments resolve_set_other)

lemma dot_path_write_read_witness:
  "resolve_dot_path (JObj (set_dot_path [(''a'', JNum ''1''), (''b'', JStr ''x'')] ''a.c'' JNull)) ''b''
     = JStr ''x''"
proof -
  have "paths_fork (split_char (CHR ''.'') ''a.c'') (split_char (CHR ''.'') ''b'')" by simp
  moreover have "resolve_dot_path (JObj [(''a'', JNum ''1''), (''b'', JStr ''x'')]) ''b'' = JStr ''x''"
    by (simp add: resolve_dot_path_def map_get_def)
  ultimately show ?thesis
    using dot_path_write_read [of "[(''a'', JNum ''1''), (''b'', JStr ''x'')]" "''a.c''" JNull "''b''"]
    by simp
qed

text \<open>
  Property C39. Interpolation is a single pass: the template alone fixes a lossless split into literal
  pieces and slots (joining the pieces gives the template back, and no slot contains the closing
  braces), and the result is exactly the literals with each slot replaced by the value of its trimmed
  path. Substituted text is never scanned again, so a value cannot open another slot.
\<close>

theorem interpolate_single_pass:
  "interpolate display template vars = concat (map (part_text display vars) (template_parts template))
   \<and> concat (map part_source (template_parts template)) = template
   \<and> (\<forall>p. Slot p \<in> set (template_parts template) \<longrightarrow> find_sub ''}}'' p = None)"
proof -
  have "find_sub ''}}'' p = None" if "Slot p \<in> set (template_parts template)" for p
  proof (rule ccontr)
    assume "find_sub ''}}'' p \<noteq> None"
    then obtain j where j: "find_sub ''}}'' p = Some j" by auto
    then have "take 2 (drop j p) = ''}}''" "j \<le> length p"
      using find_sub_found [OF j] find_sub_bound [OF j] by (auto simp: numeral_2_eq_2)
    with template_slot_closed [OF that] show False by blast
  qed
  then show ?thesis
    by (simp add: interpolate_def interpolate_loop_parts template_parts_source)
qed

theorem interpolate_single_pass_witness:
  "template_parts ''a {{x}}'' = [Lit ''a '', Slot ''x'', Lit []]
   \<and> find_sub ''}}'' ''x'' = None"
proof -
  have parts: "template_parts ''a {{x}}'' = [Lit ''a '', Slot ''x'', Lit []]"
    by (simp add: template_parts.simps)
  then have "Slot ''x'' \<in> set (template_parts ''a {{x}}'')" by simp
  with interpolate_single_pass [of "\<lambda>_. []" "''a {{x}}''" JNull] parts show ?thesis by blast
qed

text \<open>
  \<^verbatim>\<open>extract_json_object\<close> returns exactly the first balanced object: it answers \<open>r\<close> if and
  only if the text splits as \<open>pre @ r @ post\<close> with no opening brace in \<open>pre\<close> and \<open>r\<close> a text that opens
  with a brace and whose depth, counted outside string literals, comes back to zero at its end and
  nowhere before.
\<close>

lemma extract_json_object_iff:
  "extract_json_object text = Some r \<longleftrightarrow>
     (\<exists>pre post. text = pre @ r @ post \<and> CHR ''{'' \<notin> set pre \<and> balanced_object r)"
proof
  assume ex: "extract_json_object text = Some r"
  then obtain s where s: "find_sub ''{'' text = Some s" "scan_object [] 0 False False (drop s text) = Some r"
    by (auto simp: extract_json_object_def split: option.splits)
  obtain rest where d: "drop s text = CHR ''{'' # rest"
    using find_sub_split [OF s(1)] find_sub_bound [OF s(1)]
    by (metis append_Cons append_Nil append_eq_conv_conj add_leD1 length_take min.absorb2)
  have "CHR ''{'' \<notin> set (take s text)"
  proof
    assume "CHR ''{'' \<in> set (take s text)"
    then obtain j where "j < s" "j < length text" "text ! j = CHR ''{''"
      by (auto simp: in_set_conv_nth)
    with find_sub_first [OF s(1), of j] show False by (simp add: take_Suc hd_drop_conv_nth)
  qed
  moreover have sc: "scan_object ''{'' 1 False False rest = Some r" using s(2) d by (simp add: scan_object_Cons)
  from scan_object_Some [OF sc] obtain mid post where
    m: "rest = mid @ post" "r = ''{'' @ mid" "brace_depth r = 0"
       "\<forall>n<length mid. 0 < brace_depth (''{'' @ take n mid)" by auto
  have "0 < brace_depth (take n r)" if "n \<in> {1..<length r}" for n
    using that m(2,4) by (cases n) auto
  with m have "balanced_object r" by (simp add: balanced_object_def)
  ultimately show "\<exists>pre post. text = pre @ r @ post \<and> CHR ''{'' \<notin> set pre \<and> balanced_object r"
    using d m by (metis append_Cons append_Nil append_take_drop_id append.assoc)
next
  assume "\<exists>pre post. text = pre @ r @ post \<and> CHR ''{'' \<notin> set pre \<and> balanced_object r"
  then obtain pre post where t: "text = pre @ r @ post" "CHR ''{'' \<notin> set pre" and b: "balanced_object r"
    by blast
  then obtain mid where r: "r = CHR ''{'' # mid" by (cases r) (auto simp: balanced_object_def)
  have "find_sub ''{'' (pre @ CHR ''{'' # ys) = Some (length pre)" for ys
    using t(2) by (induction pre) auto
  then have "find_sub ''{'' text = Some (length pre)" by (simp add: t r)
  moreover have "scan_object [] 0 False False (r @ post) = Some r"
  proof -
    have "mid \<noteq> []" using b r by (auto simp: balanced_object_def brace_depth_def)
    moreover have "\<forall>n<length mid. 0 < brace_depth (''{'' @ take n mid)"
    proof (intro allI impI)
      fix n assume "n < length mid"
      then have "Suc n \<in> {1..<length r}" by (simp add: r)
      with b have "0 < brace_depth (take (Suc n) r)" unfolding balanced_object_def by blast
      then show "0 < brace_depth (''{'' @ take n mid)" by (simp add: r)
    qed
    moreover have "brace_depth (''{'' @ mid) = 0" using b r by (simp add: balanced_object_def)
    ultimately have "scan_object ''{'' 1 False False (mid @ post) = Some (''{'' @ mid)"
      by (intro scan_object_complete) auto
    then show ?thesis by (simp add: r scan_object_Cons)
  qed
  ultimately show "extract_json_object text = Some r" by (simp add: extract_json_object_def t(1))
qed

end
