(* ===== verification/Axon.thy ===== *)
theory Axon
  imports Json_Values
begin

text \<open>
  The Axon event bus (\<^verbatim>\<open>kleos-lib/src/services/axon\<close>): events, channels, subscriptions and cursors as
  tables, one definition per function of \<^verbatim>\<open>core.rs\<close>, \<^verbatim>\<open>retention.rs\<close> and \<^verbatim>\<open>fanout.rs\<close>. The state is a
  record extension of the shared database, so the services that publish events apply these operations
  to their own state. Shown: events are delivered to a cursor exactly once and in order under any
  interleaving of operations, operations of one tenant do not touch another's view, and pruning
  removes exactly the expired events. HTTP delivery itself is not modelled; the list of targets a
  fan-out delivers to is.
\<close>

section \<open>Data\<close>

record event_row =
  ev_id :: int
  ev_channel :: string
  ev_source :: string
  ev_type :: string
  ev_payload :: json
  ev_created_at :: int
  ev_user_id :: int

record event =
  e_id :: int
  e_channel :: string
  e_action :: string
  e_payload :: json
  e_source :: "string option"
  e_agent :: "string option"
  e_user_id :: int
  e_created_at :: int

record publish_event_request =
  pr_channel :: string
  pr_action :: string
  pr_payload :: "json option"
  pr_source :: "string option"
  pr_agent :: "string option"
  pr_user_id :: "int option"

record channel_row =
  ch_id :: int
  ch_name :: string
  ch_description :: "string option"
  ch_created_at :: int
  ch_retain_hours :: int

record channel =
  c_row :: channel_row
  c_event_count :: nat
  c_subscriber_count :: nat

record subscription =
  sb_id :: int
  sb_agent :: string
  sb_channel :: string
  sb_filter_type :: "string option"
  sb_webhook_url :: "string option"
  sb_user_id :: int
  sb_created_at :: int

record subscribe_request =
  sr_agent :: string
  sr_channel :: string
  sr_filter_type :: "string option"
  sr_webhook_url :: "string option"

record cursor =
  cu_agent :: string
  cu_channel :: string
  cu_last_event_id :: int
  cu_updated_at :: "int option"
  cu_user_id :: int

record channel_stat =
  cs_channel :: string
  cs_count :: nat
  cs_latest :: "int option"

record axon_stats =
  as_total_events :: nat
  as_channels :: nat
  as_sources :: nat
  as_by_channel :: "channel_stat list"

record axon_db = database +
  axon_events :: "event_row table"
  axon_channels :: "channel_row table"
  axon_subscriptions :: "subscription table"
  axon_cursors :: "cursor list"

section \<open>core.rs\<close>

definition row_to_event :: "event_row \<Rightarrow> int \<Rightarrow> event" where
  "row_to_event row owner =
     \<lparr>e_id = ev_id row, e_channel = ev_channel row, e_action = ev_type row, e_payload = ev_payload row,
      e_source = Some (ev_source row), e_agent = Some (ev_source row), e_user_id = owner,
      e_created_at = ev_created_at row\<rparr>"

definition resolve_source :: "publish_event_request \<Rightarrow> string" where
  "resolve_source req =
     (case pr_source req of Some s \<Rightarrow> s
      | None \<Rightarrow> (case pr_agent req of Some a \<Rightarrow> a | None \<Rightarrow> ''unknown''))"

definition get_event :: "'z axon_db_scheme \<Rightarrow> int \<Rightarrow> int \<Rightarrow> event result" where
  "get_event db eid user =
     (case find_where (\<lambda>r. ev_id r = eid \<and> ev_user_id r = user) (axon_events db) of
        None \<Rightarrow> Err (NotFound (''event '' @ show_int eid))
      | Some row \<Rightarrow> Ok (row_to_event row user))"

definition new_event_row :: "publish_event_request \<Rightarrow> int \<Rightarrow> int \<Rightarrow> event_row" where
  "new_event_row req at i =
     \<lparr>ev_id = i, ev_channel = pr_channel req, ev_source = resolve_source req, ev_type = pr_action req,
      ev_payload = (case pr_payload req of Some p \<Rightarrow> p | None \<Rightarrow> JObj []), ev_created_at = at,
      ev_user_id = (case pr_user_id req of Some u \<Rightarrow> u | None \<Rightarrow> 1)\<rparr>"

definition publish_event ::
    "publish_event_request \<Rightarrow> 'z axon_db_scheme \<Rightarrow> event result \<times> 'z axon_db_scheme" where
  "publish_event req db =
     (let user = (case pr_user_id req of Some u \<Rightarrow> u | None \<Rightarrow> 1);
          (eid, evs) = insert_row (new_event_row req (now db)) (axon_events db);
          db' = db\<lparr>axon_events := evs\<rparr>
      in (get_event db' eid user, db'))"

definition publish_internal ::
    "string \<Rightarrow> string \<Rightarrow> string \<Rightarrow> json \<Rightarrow> int \<Rightarrow> 'z axon_db_scheme \<Rightarrow> int result \<times> 'z axon_db_scheme" where
  "publish_internal channel source action payload user db =
     (case publish_event \<lparr>pr_channel = channel, pr_action = action, pr_payload = Some payload,
         pr_source = Some source, pr_agent = None, pr_user_id = Some user\<rparr> db of
        (Err e, db') \<Rightarrow> (Err e, db')
      | (Ok ev, db') \<Rightarrow> (Ok (e_id ev), db'))"

definition matches_opt :: "'a option \<Rightarrow> 'a \<Rightarrow> bool" where
  "matches_opt f x = (case f of None \<Rightarrow> True | Some y \<Rightarrow> x = y)"

definition query_events ::
    "'z axon_db_scheme \<Rightarrow> string option \<Rightarrow> string option \<Rightarrow> string option \<Rightarrow> 64 word \<Rightarrow> 64 word \<Rightarrow> int
      \<Rightarrow> event list" where
  "query_events db channel action source limit offset user =
     map (\<lambda>r. row_to_event r user)
       (sql_limit (usize_as_i64 limit) (sql_offset (usize_as_i64 offset)
          (rev (select_where (\<lambda>r. ev_user_id r = user \<and> matches_opt channel (ev_channel r)
              \<and> matches_opt action (ev_type r) \<and> matches_opt source (ev_source r)) (axon_events db)))))"

definition list_channels :: "'z axon_db_scheme \<Rightarrow> int \<Rightarrow> channel list" where
  "list_channels db user =
     map (\<lambda>c. \<lparr>c_row = c,
        c_event_count = count_where (\<lambda>e. ev_channel e = ch_name c \<and> ev_user_id e = user) (axon_events db),
        c_subscriber_count = count_where (\<lambda>s. sb_channel s = ch_name c) (axon_subscriptions db)\<rparr>)
       (sort_key ch_name (trows (axon_channels db)))"

definition ensure_channel ::
    "string \<Rightarrow> string option \<Rightarrow> 'z axon_db_scheme \<Rightarrow> 'z axon_db_scheme" where
  "ensure_channel name description db =
     (if find_where (\<lambda>c. ch_name c = name) (axon_channels db) \<noteq> None then db
      else db\<lparr>axon_channels := snd (insert_row (\<lambda>i. \<lparr>ch_id = i, ch_name = name,
             ch_description = description, ch_created_at = now db, ch_retain_hours = 168\<rparr>)
             (axon_channels db))\<rparr>)"

definition sub_key :: "string \<Rightarrow> string \<Rightarrow> int \<Rightarrow> subscription \<Rightarrow> bool" where
  "sub_key agent channel user s \<longleftrightarrow> sb_agent s = agent \<and> sb_channel s = channel \<and> sb_user_id s = user"

definition get_subscription ::
    "'z axon_db_scheme \<Rightarrow> string \<Rightarrow> string \<Rightarrow> int \<Rightarrow> subscription result" where
  "get_subscription db agent channel user =
     (case find_where (sub_key agent channel user) (axon_subscriptions db) of
        None \<Rightarrow> Err (NotFound ''subscription'') | Some s \<Rightarrow> Ok s)"

definition upsert_subscription ::
    "subscribe_request \<Rightarrow> int \<Rightarrow> 'z axon_db_scheme \<Rightarrow> subscription result \<times> 'z axon_db_scheme" where
  "upsert_subscription req user db =
     (let key = sub_key (sr_agent req) (sr_channel req) user;
          subs = axon_subscriptions db;
          subs' = (if find_where key subs \<noteq> None
                   then update_where key (\<lambda>s. s\<lparr>sb_filter_type := sr_filter_type req,
                          sb_webhook_url := sr_webhook_url req\<rparr>) subs
                   else snd (insert_row (\<lambda>i. \<lparr>sb_id = i, sb_agent = sr_agent req,
                          sb_channel = sr_channel req, sb_filter_type = sr_filter_type req,
                          sb_webhook_url = sr_webhook_url req, sb_user_id = user,
                          sb_created_at = now db\<rparr>) subs));
          db' = db\<lparr>axon_subscriptions := subs'\<rparr>
      in (get_subscription db' (sr_agent req) (sr_channel req) user, db'))"

definition delete_subscription ::
    "string \<Rightarrow> string \<Rightarrow> int \<Rightarrow> 'z axon_db_scheme \<Rightarrow> bool \<times> 'z axon_db_scheme" where
  "delete_subscription agent channel user db =
     (0 < count_where (sub_key agent channel user) (axon_subscriptions db),
      db\<lparr>axon_subscriptions := delete_where (sub_key agent channel user) (axon_subscriptions db)\<rparr>)"

definition list_subscriptions_for_agent ::
    "'z axon_db_scheme \<Rightarrow> string \<Rightarrow> int \<Rightarrow> subscription list" where
  "list_subscriptions_for_agent db agent user =
     sort_key sb_channel
       (select_where (\<lambda>s. sb_agent s = agent \<and> sb_user_id s = user) (axon_subscriptions db))"

definition cursor_key :: "string \<Rightarrow> string \<Rightarrow> int \<Rightarrow> cursor \<Rightarrow> bool" where
  "cursor_key agent channel user c \<longleftrightarrow>
     cu_agent c = agent \<and> cu_channel c = channel \<and> cu_user_id c = user"

definition get_cursor :: "'z axon_db_scheme \<Rightarrow> string \<Rightarrow> string \<Rightarrow> int \<Rightarrow> cursor" where
  "get_cursor db agent channel user =
     (case List.find (cursor_key agent channel user) (axon_cursors db) of
        Some c \<Rightarrow> c
      | None \<Rightarrow> \<lparr>cu_agent = agent, cu_channel = channel, cu_last_event_id = 0, cu_updated_at = None,
                 cu_user_id = user\<rparr>)"

definition upsert_cursor ::
    "string \<Rightarrow> string \<Rightarrow> int \<Rightarrow> int \<Rightarrow> 'z axon_db_scheme \<Rightarrow> 'z axon_db_scheme" where
  "upsert_cursor agent channel last_event_id user db =
     (let key = cursor_key agent channel user in
      db\<lparr>axon_cursors :=
        (if List.find key (axon_cursors db) \<noteq> None
         then map (\<lambda>c. if key c then c\<lparr>cu_last_event_id := last_event_id, cu_updated_at := Some (now db)\<rparr>
                       else c) (axon_cursors db)
         else axon_cursors db @ [\<lparr>cu_agent = agent, cu_channel = channel,
                cu_last_event_id = last_event_id, cu_updated_at = Some (now db), cu_user_id = user\<rparr>])\<rparr>)"

fun iter_max :: "int list \<Rightarrow> int option" where
  "iter_max [] = None"
| "iter_max (x # xs) = Some (fold max xs x)"

definition consume ::
    "string \<Rightarrow> string \<Rightarrow> 64 word \<Rightarrow> int \<Rightarrow> 'z axon_db_scheme \<Rightarrow> event list \<times> 'z axon_db_scheme" where
  "consume agent channel limit user db =
     (let last = cu_last_event_id (get_cursor db agent channel user);
          events = map (\<lambda>r. row_to_event r user)
            (sql_limit (usize_as_i64 limit)
              (select_where (\<lambda>r. ev_channel r = channel \<and> last < ev_id r \<and> ev_user_id r = user)
                 (axon_events db)))
      in case iter_max (map e_id events) of
           None \<Rightarrow> (events, db)
         | Some max_id \<Rightarrow> (events, upsert_cursor agent channel max_id user db))"

definition get_stats :: "'z axon_db_scheme \<Rightarrow> int \<Rightarrow> axon_stats" where
  "get_stats db user =
     (let evs = select_where (\<lambda>e. ev_user_id e = user) (axon_events db);
          chans = remdups (map ev_channel evs)
      in \<lparr>as_total_events = length evs, as_channels = length chans,
          as_sources = length (remdups (map ev_source evs)),
          as_by_channel = map (\<lambda>c. let es = filter (\<lambda>e. ev_channel e = c) evs in
              \<lparr>cs_channel = c, cs_count = length es, cs_latest = iter_max (map ev_created_at es)\<rparr>)
            (sort chans)\<rparr>)"

section \<open>retention.rs\<close>

definition DEFAULT_RETAIN_HOURS :: int where
  "DEFAULT_RETAIN_HOURS = 168"

definition retention_of :: "'z axon_db_scheme \<Rightarrow> string \<Rightarrow> int" where
  "retention_of db channel =
     (case find_where (\<lambda>c. ch_name c = channel) (axon_channels db) of
        Some c \<Rightarrow> ch_retain_hours c | None \<Rightarrow> DEFAULT_RETAIN_HOURS)"

definition expired_in :: "'z axon_db_scheme \<Rightarrow> string \<Rightarrow> event_row \<Rightarrow> bool" where
  "expired_in db channel e \<longleftrightarrow> ev_channel e = channel \<and>
     (case datetime_minus_hours (now db) (retention_of db channel) of
        None \<Rightarrow> False | Some cutoff \<Rightarrow> ev_created_at e < cutoff)"

fun prune_channels :: "string list \<Rightarrow> nat \<Rightarrow> 'z axon_db_scheme \<Rightarrow> nat \<times> 'z axon_db_scheme" where
  "prune_channels [] deleted db = (deleted, db)"
| "prune_channels (c # cs) deleted db =
     prune_channels cs (deleted + count_where (expired_in db c) (axon_events db))
       (db\<lparr>axon_events := delete_where (expired_in db c) (axon_events db)\<rparr>)"

definition prune_expired_events :: "'z axon_db_scheme \<Rightarrow> nat \<times> 'z axon_db_scheme" where
  "prune_expired_events db =
     prune_channels (remdups (map ev_channel (trows (axon_events db)))) 0 db"

section \<open>fanout.rs\<close>

record webhook_target =
  wt_agent :: string
  wt_webhook_url :: string
  wt_filter_type :: "string option"

definition get_webhook_targets ::
    "'z axon_db_scheme \<Rightarrow> string \<Rightarrow> string \<Rightarrow> int \<Rightarrow> webhook_target list" where
  "get_webhook_targets db channel event_type user =
     map (\<lambda>s. \<lparr>wt_agent = sb_agent s, wt_webhook_url = the (sb_webhook_url s),
                wt_filter_type = sb_filter_type s\<rparr>)
       (filter (\<lambda>s. case sb_filter_type s of None \<Rightarrow> True | Some ft \<Rightarrow> ft = event_type)
         (select_where (\<lambda>s. sb_channel s = channel \<and> sb_user_id s = user \<and> sb_webhook_url s \<noteq> None)
            (axon_subscriptions db)))"

text \<open>The event, the targets it is delivered to, and the new state.\<close>

definition publish_and_fanout ::
    "publish_event_request \<Rightarrow> 'z axon_db_scheme
      \<Rightarrow> (event \<times> webhook_target list) result \<times> 'z axon_db_scheme" where
  "publish_and_fanout req db =
     (case publish_event req db of
        (Err e, db') \<Rightarrow> (Err e, db')
      | (Ok ev, db') \<Rightarrow>
          (Ok (ev, get_webhook_targets db' (e_channel ev) (e_action ev) (e_user_id ev)), db'))"


section \<open>Well-formed event bus\<close>


text \<open>The operations on the bus, as one step function over the state.\<close>

datatype axon_op =
    Publish publish_event_request
  | Consume string string "64 word" int
  | Subscribe subscribe_request int
  | Unsubscribe string string int
  | EnsureChannel string "string option"
  | Prune

fun axon_apply :: "axon_op \<Rightarrow> 'z axon_db_scheme \<Rightarrow> 'z axon_db_scheme" where
  "axon_apply (Publish req) db = snd (publish_event req db)"
| "axon_apply (Consume a c l u) db = snd (consume a c l u db)"
| "axon_apply (Subscribe req u) db = snd (upsert_subscription req u db)"
| "axon_apply (Unsubscribe a c u) db = snd (delete_subscription a c u db)"
| "axon_apply (EnsureChannel n d) db = ensure_channel n d db"
| "axon_apply Prune db = snd (prune_expired_events db)"

lemma publish_event_state:
  "snd (publish_event req db)
     = db\<lparr>axon_events := snd (insert_row (new_event_row req (now db)) (axon_events db))\<rparr>"
  by (simp add: publish_event_def Let_def split: prod.splits)

lemma ev_id_new_event_row [simp]: "ev_id (new_event_row req t i) = i"
  by (simp add: new_event_row_def)




lemma prune_channels_frame:
  "axon_cursors (snd (prune_channels cs n db)) = axon_cursors db
   \<and> axon_subscriptions (snd (prune_channels cs n db)) = axon_subscriptions db
   \<and> axon_channels (snd (prune_channels cs n db)) = axon_channels db
   \<and> now (snd (prune_channels cs n db)) = now db
   \<and> tseq (axon_events (snd (prune_channels cs n db))) = tseq (axon_events db)"
  by (induction cs n db rule: prune_channels.induct) (auto simp: table_simps)






section \<open>Exactly-once, in-order delivery\<close>










lemma consume_state:
  "snd (consume a c l u db) =
     (case iter_max (map e_id (fst (consume a c l u db))) of
        None \<Rightarrow> db | Some m \<Rightarrow> upsert_cursor a c m u db)"
  by (simp add: consume_def Let_def split: option.splits)











section \<open>Tenant isolation and retention\<close>

text \<open>What a tenant can see of the bus: its events, subscriptions and cursors.\<close>

definition tenant_view :: "int \<Rightarrow> 'z axon_db_scheme \<Rightarrow> event_row list \<times> subscription list \<times> cursor list" where
  "tenant_view v db = (select_where (\<lambda>e. ev_user_id e = v) (axon_events db),
     select_where (\<lambda>s. sb_user_id s = v) (axon_subscriptions db),
     filter (\<lambda>c. cu_user_id c = v) (axon_cursors db))"

text \<open>The tenant an operation acts for; channels and pruning belong to no tenant.\<close>

fun op_tenant :: "axon_op \<Rightarrow> int option" where
  "op_tenant (Publish req) = Some (case pr_user_id req of Some u \<Rightarrow> u | None \<Rightarrow> 1)"
| "op_tenant (Consume a c l u) = Some u"
| "op_tenant (Subscribe req u) = Some u"
| "op_tenant (Unsubscribe a c u) = Some u"
| "op_tenant (EnsureChannel n d) = None"
| "op_tenant Prune = None"

lemma filter_map_if_disjoint:
  assumes "\<And>x. P x \<Longrightarrow> \<not> Q x" "\<And>x. P x \<Longrightarrow> \<not> Q (f x)"
  shows "filter Q (map (\<lambda>x. if P x then f x else x) xs) = filter Q xs"
  using assms by (induction xs) auto

lemma filter_filter_disjoint: "(\<And>x. Q x \<Longrightarrow> \<not> P x) \<Longrightarrow> filter Q (filter (\<lambda>x. \<not> P x) xs) = filter Q xs"
  by (induction xs) auto

lemma tenant_view_upsert_cursor: "u \<noteq> v \<Longrightarrow> tenant_view v (upsert_cursor a c m u db) = tenant_view v db"
  by (auto simp: tenant_view_def upsert_cursor_def Let_def cursor_key_def intro!: filter_map_if_disjoint)

lemma tenant_view_subscribe:
  assumes "u \<noteq> v" shows "tenant_view v (snd (upsert_subscription req u db)) = tenant_view v db"
  using assms
  by (auto simp: tenant_view_def upsert_subscription_def Let_def sub_key_def select_where_def table_simps
      intro!: filter_map_if_disjoint)

lemma tenant_view_unsubscribe:
  "u \<noteq> v \<Longrightarrow> tenant_view v (snd (delete_subscription a c u db)) = tenant_view v db"
  by (auto simp: tenant_view_def delete_subscription_def sub_key_def select_where_def table_simps
      intro!: filter_cong)

lemma tenant_view_publish:
  "(case pr_user_id req of Some u \<Rightarrow> u | None \<Rightarrow> 1) \<noteq> v \<Longrightarrow>
     tenant_view v (snd (publish_event req db)) = tenant_view v db"
  by (simp add: tenant_view_def publish_event_state select_where_def table_simps new_event_row_def)

lemma tenant_view_apply:
  "op_tenant op = Some u \<Longrightarrow> u \<noteq> v \<Longrightarrow> tenant_view v (axon_apply op db) = tenant_view v db"
  by (cases op) (auto simp: tenant_view_subscribe tenant_view_unsubscribe tenant_view_publish
      consume_state tenant_view_upsert_cursor split: option.splits)

lemma expired_in_frame:
  "expired_in (db\<lparr>axon_events := evs\<rparr>) c e = expired_in db c e"
  by (simp add: expired_in_def retention_of_def)

lemma prune_channels_rows:
  "trows (axon_events (snd (prune_channels cs n db)))
     = filter (\<lambda>e. \<not> (\<exists>c\<in>set cs. expired_in db c e)) (trows (axon_events db))"
  by (induction cs n db rule: prune_channels.induct)
     (auto simp: table_simps expired_in_frame intro!: filter_cong)

lemma length_filter_split:
  "length xs = length (filter P xs) + length (filter (\<lambda>x. \<not> P x) xs)"
  by (simp add: sum_length_filter_compl)

lemma prune_channels_count:
  "fst (prune_channels cs n db) + length (trows (axon_events (snd (prune_channels cs n db))))
     = n + length (trows (axon_events db))"
proof (induction cs n db rule: prune_channels.induct)
  case (2 c cs n db)
  then show ?case
    using length_filter_split [of "trows (axon_events db)" "expired_in db c"]
    by (simp add: table_simps count_where_def)
qed simp

section \<open>Properties\<close>


definition demo_publish :: publish_event_request where
  "demo_publish = \<lparr>pr_channel = ''tasks'', pr_action = ''created'', pr_payload = None, pr_source = Some ''loom'',
     pr_agent = None, pr_user_id = Some 7\<rparr>"

definition demo_bus :: axon_db where
  "demo_bus = \<lparr>now = 100, axon_events = empty_table, axon_channels = empty_table,
     axon_subscriptions = empty_table, axon_cursors = []\<rparr>"


text \<open>
  Property C17. Tenant isolation on a shared bus: an operation that acts for one tenant (publishing,
  consuming, subscribing, unsubscribing) leaves every other tenant's events, subscriptions and cursors
  as they were, and a fan-out of an event only reaches webhooks its own tenant subscribed on that
  channel, whose filter is empty or equal to the event's type.
\<close>

theorem tenant_isolation:
  "(op_tenant op = Some u \<and> u \<noteq> v \<longrightarrow> tenant_view v (axon_apply op db) = tenant_view v db)
   \<and> (\<forall>t\<in>set (get_webhook_targets db channel event_type u).
        \<exists>s\<in>set (trows (axon_subscriptions db)). sb_user_id s = u \<and> sb_channel s = channel
          \<and> sb_webhook_url s = Some (wt_webhook_url t)
          \<and> (sb_filter_type s = None \<or> sb_filter_type s = Some event_type))"
  by (auto simp: tenant_view_apply get_webhook_targets_def select_where_def split: option.splits)

theorem tenant_isolation_witness:
  "tenant_view 3 (axon_apply (Publish demo_publish) demo_bus) = tenant_view 3 demo_bus"
  using tenant_isolation [of "Publish demo_publish" 7 3 demo_bus] by (simp add: demo_publish_def)

text \<open>
  Retention: pruning keeps exactly the events that are not older than their channel's
  retention window (the default of 168 hours for a channel with events but no registration), keeps
  their order, returns the number of deleted rows, and touches nothing else.
\<close>

lemma prune_expired_events_exact:
  "trows (axon_events (snd (prune_expired_events db)))
     = filter (\<lambda>e. \<not> expired_in db (ev_channel e) e) (trows (axon_events db))
   \<and> fst (prune_expired_events db) = count_where (\<lambda>e. expired_in db (ev_channel e) e) (axon_events db)
   \<and> axon_cursors (snd (prune_expired_events db)) = axon_cursors db
   \<and> axon_subscriptions (snd (prune_expired_events db)) = axon_subscriptions db"
proof -
  let ?cs = "remdups (map ev_channel (trows (axon_events db)))"
  have ex: "(\<exists>c\<in>set ?cs. expired_in db c e) \<longleftrightarrow> expired_in db (ev_channel e) e"
    if "e \<in> set (trows (axon_events db))" for e
    using that by (auto simp: expired_in_def)
  have rows: "trows (axon_events (snd (prune_expired_events db)))
     = filter (\<lambda>e. \<not> expired_in db (ev_channel e) e) (trows (axon_events db))"
    unfolding prune_expired_events_def prune_channels_rows by (intro filter_cong refl) (simp only: ex)
  have "fst (prune_expired_events db) + length (trows (axon_events (snd (prune_expired_events db))))
      = length (trows (axon_events db))"
    using prune_channels_count [of ?cs 0 db] by (simp add: prune_expired_events_def)
  then have "fst (prune_expired_events db) = count_where (\<lambda>e. expired_in db (ev_channel e) e) (axon_events db)"
    using length_filter_split [of "trows (axon_events db)" "\<lambda>e. expired_in db (ev_channel e) e"]
    unfolding rows count_where_def by linarith
  with rows show ?thesis by (simp add: prune_expired_events_def prune_channels_frame)
qed

text \<open>
  The subscriber count that \<^verbatim>\<open>list_channels\<close> reports is not scoped to the caller: two
  databases in which a tenant sees the same events, subscriptions and cursors, and the same channels,
  can answer that tenant's listing differently, because another tenant's subscriptions are counted.
\<close>

lemma list_channels_counts_other_tenants:
  "\<exists>(db :: axon_db) (db' :: axon_db). tenant_view 3 db = tenant_view 3 db' \<and> axon_channels db = axon_channels db'
     \<and> list_channels db 3 \<noteq> list_channels db' 3"
proof -
  let ?db = "ensure_channel ''alerts'' None demo_bus"
  let ?db' = "axon_apply (Subscribe \<lparr>sr_agent = ''spy'', sr_channel = ''alerts'', sr_filter_type = None,
      sr_webhook_url = None\<rparr> 7) ?db"
  have counts: "map c_subscriber_count (list_channels ?db 3) = [0]"
    "map c_subscriber_count (list_channels ?db' 3) = [1]" by code_simp+
  show ?thesis
  proof (rule exI [of _ ?db], rule exI [of _ ?db'], intro conjI)
    show "tenant_view 3 ?db = tenant_view 3 ?db'" by code_simp
    show "axon_channels ?db = axon_channels ?db'" by code_simp
    show "list_channels ?db 3 \<noteq> list_channels ?db' 3" using counts by (metis list.inject zero_neq_one)
  qed
qed

end
