(* ===== verification/Loom_Graph.thy ===== *)
theory Loom_Graph
  imports Json_Values "HOL-Library.AList" "HOL-Library.Multiset"
begin

text \<open>
  Workflow definitions of Loom and the validation of their step graph
  (\<^verbatim>\<open>validate_step_graph\<close> in \<^verbatim>\<open>kleos-lib/src/services/loom.rs\<close>): duplicate names, unknown
  dependencies, and Kahn's algorithm for cycles. Hash maps are association lists; the one place where
  the iteration order of a hash map matters, the initial queue, takes the order as a parameter. The
  subtraction on a \<^verbatim>\<open>usize\<close> in-degree is checked: an underflow would stop the call, and the
  correctness theorem shows it does not happen.
\<close>

record step_def =
  sd_name :: string
  sd_type :: string
  sd_config :: "json option"
  sd_depends_on :: "string list option"
  sd_max_retries :: "int option"
  sd_timeout_ms :: "int option"

definition VALID_STEP_TYPES :: "string list" where
  "VALID_STEP_TYPES = [''action'', ''decision'', ''parallel'', ''wait'', ''webhook'', ''llm'', ''transform'']"

definition MAX_STEP_RETRIES :: int where
  "MAX_STEP_RETRIES = 10"

definition deps_of :: "step_def \<Rightarrow> string list" where
  "deps_of s = (case sd_depends_on s of None \<Rightarrow> [] | Some ds \<Rightarrow> ds)"

section \<open>Validation\<close>

fun find_duplicate :: "string list \<Rightarrow> step_def list \<Rightarrow> string option" where
  "find_duplicate names [] = None"
| "find_duplicate names (s # ss) =
     (if sd_name s \<in> set names then Some (sd_name s) else find_duplicate (sd_name s # names) ss)"

definition find_unknown_dep :: "string list \<Rightarrow> step_def list \<Rightarrow> (string \<times> string) option" where
  "find_unknown_dep names steps =
     List.find (\<lambda>(_, dep). dep \<notin> set names)
       (concat (map (\<lambda>s. map (\<lambda>dep. (sd_name s, dep)) (deps_of s)) steps))"

type_synonym degrees = "(string \<times> nat) list"
type_synonym dependents = "(string \<times> string list) list"

definition add_edge :: "string \<Rightarrow> string \<Rightarrow> degrees \<times> dependents \<Rightarrow> degrees \<times> dependents" where
  "add_edge name dep st =
     (case st of (deg, out) \<Rightarrow>
        (AList.update name (case map_of deg name of None \<Rightarrow> 1 | Some d \<Rightarrow> d + 1) deg,
         AList.update dep (case map_of out dep of None \<Rightarrow> [name] | Some cs \<Rightarrow> cs @ [name]) out))"

definition build_graph :: "step_def list \<Rightarrow> degrees \<times> dependents" where
  "build_graph steps =
     fold (\<lambda>s st. fold (add_edge (sd_name s)) (deps_of s) st) steps (map (\<lambda>s. (sd_name s, 0)) steps, [])"

fun relax :: "string list \<Rightarrow> degrees \<Rightarrow> string list \<Rightarrow> (degrees \<times> string list) option" where
  "relax [] deg queue = Some (deg, queue)"
| "relax (child # cs) deg queue =
     (case map_of deg child of
        None \<Rightarrow> relax cs deg queue
      | Some 0 \<Rightarrow> None
      | Some (Suc d) \<Rightarrow>
          relax cs (AList.update child d deg) (if d = 0 then queue @ [child] else queue))"

definition unresolved :: "degrees \<Rightarrow> nat" where
  "unresolved deg = length (filter (\<lambda>(_, d). 0 < d) deg)"

lemma unresolved_update:
  "map_of deg c = Some (Suc d) \<Longrightarrow>
     unresolved (AList.update c d deg) + (if d = 0 then 1 else 0) = unresolved deg"
  by (induction deg) (auto simp: unresolved_def split: if_splits)

lemma relax_measure:
  "relax cs deg q = Some (deg', q') \<Longrightarrow> length q' + unresolved deg' = length q + unresolved deg"
proof (induction cs deg q rule: relax.induct)
  case (2 child cs deg q)
  then show ?case
    using unresolved_update [of deg child] by (fastforce split: option.splits nat.splits if_splits)
qed simp

function kahn_loop :: "dependents \<Rightarrow> string list \<Rightarrow> degrees \<Rightarrow> nat \<Rightarrow> nat option" where
  "kahn_loop out [] deg resolved = Some resolved"
| "kahn_loop out (node # queue) deg resolved =
     (case relax (case map_of out node of None \<Rightarrow> [] | Some cs \<Rightarrow> cs) deg queue of
        None \<Rightarrow> None
      | Some (deg', queue') \<Rightarrow> kahn_loop out queue' deg' (resolved + 1))"
  by pat_completeness auto
termination
  by (relation "measure (\<lambda>(out, q, deg, r). length q + unresolved deg)") (auto dest: relax_measure)

definition validate_step_graph :: "(string list \<Rightarrow> string list) \<Rightarrow> step_def list \<Rightarrow> unit result" where
  "validate_step_graph hash_order steps =
     (case find_duplicate [] steps of
        Some n \<Rightarrow> Err (InvalidInput (''duplicate step name '' @ quoted n))
      | None \<Rightarrow>
          (case find_unknown_dep (map sd_name steps) steps of
             Some (s, dep) \<Rightarrow> Err (InvalidInput (''step '' @ quoted s @ '' depends on unknown step '' @ quoted dep))
           | None \<Rightarrow>
               (case build_graph steps of (deg, out) \<Rightarrow>
                  (case kahn_loop out (hash_order (map fst (filter (\<lambda>(_, d). d = 0) deg))) deg 0 of
                     None \<Rightarrow> Err (Internal ''attempt to subtract with overflow'')
                   | Some resolved \<Rightarrow>
                       if resolved \<noteq> length steps
                       then Err (InvalidInput ''workflow step graph contains a dependency cycle'')
                       else Ok ()))))"

section \<open>The graph the loops build\<close>

definition edge_list :: "step_def list \<Rightarrow> (string \<times> string) list" where
  "edge_list steps = concat (map (\<lambda>s. map (\<lambda>dep. (dep, sd_name s)) (deps_of s)) steps)"

text \<open>The dependency relation: \<open>(dep, step)\<close> when the step waits for \<open>dep\<close>.\<close>

definition dep_edges :: "step_def list \<Rightarrow> (string \<times> string) set" where
  "dep_edges steps = {(dep, sd_name s) | dep s. s \<in> set steps \<and> dep \<in> set (deps_of s)}"

lemma set_edge_list: "set (edge_list steps) = dep_edges steps"
  by (auto simp: edge_list_def dep_edges_def)

lemma build_graph_edges:
  "build_graph steps = fold (\<lambda>(dep, name). add_edge name dep) (edge_list steps)
     (map (\<lambda>s. (sd_name s, 0)) steps, [])"
proof -
  have "fold (\<lambda>s st. fold (add_edge (sd_name s)) (deps_of s) st) ss st
      = fold (\<lambda>(dep, name). add_edge name dep) (edge_list ss) st" for ss st
    by (induction ss arbitrary: st) (simp_all add: edge_list_def fold_map comp_def)
  then show ?thesis by (simp add: build_graph_def)
qed

lemma map_of_zero: "map_of (map (\<lambda>s. (sd_name s, 0)) steps) n
    = (if n \<in> sd_name ` set steps then Some (0::nat) else None)"
  by (induction steps) auto

definition in_count :: "(string \<times> string) list \<Rightarrow> string \<Rightarrow> nat" where
  "in_count es n = length (filter (\<lambda>e. snd e = n) es)"

definition children :: "(string \<times> string) list \<Rightarrow> string \<Rightarrow> string list" where
  "children es d = map snd (filter (\<lambda>e. fst e = d) es)"

lemma fold_add_edge:
  assumes "fold (\<lambda>(dep, name). add_edge name dep) es (deg, out) = (deg', out')"
    and "\<forall>(d, n) \<in> set es. map_of deg n \<noteq> None"
  shows "map_of deg' n = map_option (\<lambda>k. k + in_count es n) (map_of deg n)
    \<and> (case map_of out' d of None \<Rightarrow> [] | Some cs \<Rightarrow> cs)
        = (case map_of out d of None \<Rightarrow> [] | Some cs \<Rightarrow> cs) @ children es d
    \<and> map fst deg' = map fst deg"
  using assms
proof (induction es arbitrary: deg out)
  case Nil
  then show ?case by (simp add: in_count_def children_def option.map_ident)
next
  case (Cons e es)
  obtain dep name where e: "e = (dep, name)" by fastforce
  obtain deg1 out1 where st: "add_edge name dep (deg, out) = (deg1, out1)" by fastforce
  have some: "map_of deg name \<noteq> None" using Cons.prems(2) e by auto
  then obtain k where k: "map_of deg name = Some k" by auto
  have deg1: "deg1 = AList.update name (k + 1) deg" using st k by (simp add: add_edge_def)
  have m1: "map_of deg1 = (map_of deg)(name \<mapsto> k + 1)" by (simp add: deg1 update_conv')
  have f1: "map fst deg1 = map fst deg"
    using k by (simp add: deg1 update_keys map_of_SomeD image_iff) (metis fst_conv map_of_SomeD)
  have o1: "map_of out1 = (map_of out)(dep \<mapsto> (case map_of out dep of None \<Rightarrow> [name] | Some cs \<Rightarrow> cs @ [name]))"
    using st by (auto simp: add_edge_def update_conv' split: option.splits)
  have "fold (\<lambda>(dep, name). add_edge name dep) es (deg1, out1) = (deg', out')"
    using Cons.prems(1) e st by simp
  moreover have "\<forall>(d, n) \<in> set es. map_of deg1 n \<noteq> None" using Cons.prems(2) m1 by auto
  ultimately have IH: "map_of deg' n = map_option (\<lambda>k. k + in_count es n) (map_of deg1 n)
    \<and> (case map_of out' d of None \<Rightarrow> [] | Some cs \<Rightarrow> cs)
        = (case map_of out1 d of None \<Rightarrow> [] | Some cs \<Rightarrow> cs) @ children es d
    \<and> map fst deg' = map fst deg1" by (rule Cons.IH)
  then show ?case using k
    by (auto simp: m1 o1 f1 e in_count_def children_def split: option.splits)
qed


section \<open>One relaxation round\<close>

lemma relax_spec:
  assumes "\<forall>c\<in>set cs. \<exists>d. map_of deg c = Some d \<and> count_list cs c \<le> d"
  shows "\<exists>deg' zs. relax cs deg q = Some (deg', q @ zs) \<and> distinct zs
    \<and> set zs = {c \<in> set cs. map_of deg c = Some (count_list cs c)}
    \<and> (\<forall>c. map_of deg' c = map_option (\<lambda>d. d - count_list cs c) (map_of deg c))"
  using assms
proof (induction cs arbitrary: deg q)
  case Nil
  then show ?case by (simp add: option.map_ident)
next
  case (Cons c cs)
  from Cons.prems obtain k where "map_of deg c = Some k" "count_list (c # cs) c \<le> k" by auto
  then obtain d where d: "map_of deg c = Some (Suc d)" "count_list cs c \<le> d" by (cases k) auto
  let ?deg = "AList.update c d deg"
  have m: "map_of ?deg = (map_of deg)(c \<mapsto> d)" by (simp add: update_conv')
  have "\<forall>x\<in>set cs. \<exists>d. map_of ?deg x = Some d \<and> count_list cs x \<le> d"
  proof
    fix x assume "x \<in> set cs"
    then obtain k where "map_of deg x = Some k" "count_list (c # cs) x \<le> k" using Cons.prems by auto
    then show "\<exists>d. map_of ?deg x = Some d \<and> count_list cs x \<le> d" using d by (cases "x = c") (simp_all add: m)
  qed
  from Cons.IH [OF this, of "if d = 0 then q @ [c] else q"]
  obtain deg' zs where r: "relax cs ?deg (if d = 0 then q @ [c] else q)
        = Some (deg', (if d = 0 then q @ [c] else q) @ zs)"
    and zs: "distinct zs" "set zs = {x \<in> set cs. map_of ?deg x = Some (count_list cs x)}"
    and deg': "\<forall>x. map_of deg' x = map_option (\<lambda>d. d - count_list cs x) (map_of ?deg x)"
    by (elim exE conjE)
  let ?zs = "(if d = 0 then [c] else []) @ zs"
  have "relax (c # cs) deg q = Some (deg', q @ ?zs)" using r d(1) by (cases "d = 0") simp_all
  moreover have "c \<notin> set zs" if "d = 0" using d(2) that unfolding zs(2) by (simp add: count_list_0_iff)
  then have "distinct ?zs" using zs(1) by simp
  moreover have "set ?zs = {x \<in> set (c # cs). map_of deg x = Some (count_list (c # cs) x)}"
  proof (rule set_eqI)
    fix x
    show "x \<in> set ?zs \<longleftrightarrow> x \<in> {x \<in> set (c # cs). map_of deg x = Some (count_list (c # cs) x)}"
    proof (cases "x = c")
      case True
      show ?thesis
      proof (cases "d = 0")
        case True
        with d have "count_list cs c = 0" by simp
        with True \<open>x = c\<close> d show ?thesis by simp
      next
        case False
        have "x \<in> set ?zs \<longleftrightarrow> x \<in> set cs \<and> d = count_list cs c" using False True zs(2) by (simp add: m)
        moreover have "c \<in> set cs" if "d = count_list cs c" using False that by (metis count_notin)
        ultimately show ?thesis using True d(1) by auto
      qed
    next
      case False
      with zs(2) show ?thesis by (auto simp: m)
    qed
  qed
  moreover have "\<forall>x. map_of deg' x = map_option (\<lambda>d. d - count_list (c # cs) x) (map_of deg x)"
  proof
    fix x
    have "map_of deg' x = map_option (\<lambda>d. d - count_list cs x) (map_of ?deg x)" using deg' by blast
    then show "map_of deg' x = map_option (\<lambda>d. d - count_list (c # cs) x) (map_of deg x)"
      using d(1) by (cases "x = c") (simp_all add: m)
  qed
  ultimately show ?case by (intro exI [of _ deg'] exI [of _ ?zs] conjI)
qed

section \<open>Kahn's algorithm\<close>

text \<open>
  The loop invariant, with \<open>popped\<close> the nodes taken from the queue so far: a node's degree counts its
  edges from nodes not yet popped, the nodes of degree zero are exactly the popped and queued ones,
  and the popped nodes stand in topological order.
\<close>

definition live_in :: "(string \<times> string) list \<Rightarrow> string set \<Rightarrow> string \<Rightarrow> nat" where
  "live_in es done n = length (filter (\<lambda>e. snd e = n \<and> fst e \<notin> done) es)"

definition topo_list :: "(string \<times> string) list \<Rightarrow> string list \<Rightarrow> bool" where
  "topo_list es xs \<longleftrightarrow> (\<forall>i<length xs. \<forall>d. (d, xs ! i) \<in> set es \<longrightarrow> d \<in> set (take i xs))"

definition kahn_inv ::
    "(string \<times> string) list \<Rightarrow> string set \<Rightarrow> string list \<Rightarrow> string list \<Rightarrow> degrees \<Rightarrow> bool" where
  "kahn_inv es names popped q deg \<longleftrightarrow>
     distinct (popped @ q) \<and> set (popped @ q) \<subseteq> names \<and> topo_list es popped
     \<and> (\<forall>n. map_of deg n = (if n \<in> names then Some (live_in es (set popped) n) else None))
     \<and> (\<forall>n\<in>names. live_in es (set popped) n = 0 \<longleftrightarrow> n \<in> set (popped @ q))"

lemma live_in_zero: "live_in es S n = 0 \<longleftrightarrow> (\<forall>d. (d, n) \<in> set es \<longrightarrow> d \<in> S)"
  by (auto simp: live_in_def filter_empty_conv)

lemma live_in_insert:
  "v \<notin> S \<Longrightarrow> live_in es S n = live_in es (insert v S) n + count_list (children es v) n"
  by (induction es) (auto simp: live_in_def children_def)

lemma topo_list_snoc:
  "topo_list es (xs @ [v]) \<longleftrightarrow> topo_list es xs \<and> (\<forall>d. (d, v) \<in> set es \<longrightarrow> d \<in> set xs)"
  by (auto simp: topo_list_def less_Suc_eq nth_append)

lemma kahn_inv_step:
  assumes inv: "kahn_inv es names popped (v # q) deg" and names: "snd ` set es \<subseteq> names"
  shows "\<exists>deg' q'. relax (children es v) deg q = Some (deg', q') \<and> kahn_inv es names (popped @ [v]) q' deg'"
proof -
  let ?P = "set popped" and ?cs = "children es v"
  have v: "v \<notin> ?P" "v \<in> names" "v \<notin> set q" using inv by (auto simp: kahn_inv_def)
  have deg: "map_of deg n = (if n \<in> names then Some (live_in es ?P n) else None)" for n
    using inv by (simp add: kahn_inv_def)
  have sp: "live_in es ?P n = live_in es (insert v ?P) n + count_list ?cs n" for n
    using live_in_insert v(1) by blast
  have cs: "set ?cs \<subseteq> names" using names by (force simp: children_def)
  then have "\<forall>c\<in>set ?cs. \<exists>d. map_of deg c = Some d \<and> count_list ?cs c \<le> d"
    using sp by (auto simp: deg)
  from relax_spec [OF this, of q] obtain deg' zs where
    r: "relax ?cs deg q = Some (deg', q @ zs)" and zs: "distinct zs"
      "set zs = {c \<in> set ?cs. map_of deg c = Some (count_list ?cs c)}"
    and deg': "\<forall>c. map_of deg' c = map_option (\<lambda>d. d - count_list ?cs c) (map_of deg c)" by blast
  have zset: "set zs = {c \<in> set ?cs. live_in es (insert v ?P) c = 0}"
    using zs(2) cs by (auto simp: deg sp)
  have old: "live_in es ?P c \<noteq> 0" if "c \<in> set ?cs" for c
    using that sp [of c] by (simp add: count_list_0_iff)
  have dis: "set zs \<inter> set (popped @ v # q) = {}"
    using inv old cs unfolding kahn_inv_def zset by blast
  have "kahn_inv es names (popped @ [v]) (q @ zs) deg'"
    unfolding kahn_inv_def
  proof (intro conjI allI ballI)
    show "distinct ((popped @ [v]) @ q @ zs)" using inv zs(1) dis by (auto simp: kahn_inv_def)
    show "set ((popped @ [v]) @ q @ zs) \<subseteq> names" using inv cs zset by (auto simp: kahn_inv_def)
    have "live_in es ?P v = 0" using inv v(2) by (auto simp: kahn_inv_def)
    then show "topo_list es (popped @ [v])"
      using inv by (auto simp: topo_list_snoc live_in_zero kahn_inv_def)
    show "map_of deg' n = (if n \<in> names then Some (live_in es (set (popped @ [v])) n) else None)" for n
      using deg' by (simp add: deg sp)
    show "live_in es (set (popped @ [v])) n = 0 \<longleftrightarrow> n \<in> set ((popped @ [v]) @ q @ zs)"
      if "n \<in> names" for n
    proof -
      have a: "live_in es ?P n = 0 \<longleftrightarrow> n \<in> set (popped @ v # q)" using inv that by (simp add: kahn_inv_def)
      show ?thesis
      proof (cases "n \<in> set ?cs")
        case True
        with old have "n \<notin> set (popped @ v # q)" using a by blast
        with True show ?thesis by (auto simp: zset)
      next
        case False
        then have "live_in es ?P n = live_in es (insert v ?P) n" using sp by (simp add: count_list_0_iff)
        with a False show ?thesis by (auto simp: zset)
      qed
    qed
  qed
  with r show ?thesis by blast
qed

lemma kahn_loop_inv:
  assumes "kahn_inv es names popped q deg" "snd ` set es \<subseteq> names" "length popped = r"
    and "\<And>v. (case map_of out v of None \<Rightarrow> [] | Some cs \<Rightarrow> cs) = children es v"
  shows "\<exists>popped' deg'. kahn_loop out q deg r = Some (length popped') \<and> kahn_inv es names popped' [] deg'"
  using assms
proof (induction out q deg r arbitrary: popped rule: kahn_loop.induct)
  case (1 out deg r)
  then show ?case by auto
next
  case (2 out v q deg r)
  from kahn_inv_step [OF 2(2,3)] obtain deg' q' where
    r: "relax (children es v) deg q = Some (deg', q')" and inv: "kahn_inv es names (popped @ [v]) q' deg'" by blast
  have "\<exists>popped' deg''. kahn_loop out q' deg' (r + 1) = Some (length popped') \<and> kahn_inv es names popped' [] deg''"
    using 2(1) [of "(deg', q')" deg' q' "popped @ [v]"] r inv 2(3,4,5) by simp
  with r 2(5) show ?case by simp
qed

text \<open>A distinct list that covers all nodes in topological order shows there is no cycle.\<close>

lemma topo_list_acyclic:
  assumes "topo_list es xs" "distinct xs" "snd ` set es \<subseteq> set xs"
  shows "acyclic (set es)"
proof -
  let ?f = "\<lambda>x. - int (length (takeWhile (\<lambda>y. y \<noteq> x) xs))"
  have "?f n < ?f d" if e: "(d, n) \<in> set es" for d n
  proof -
    from assms(3) e have "n \<in> set xs" by force
    then obtain i where i: "i < length xs" "xs ! i = n" by (auto simp: in_set_conv_nth)
    have "takeWhile (\<lambda>y. y \<noteq> xs ! j) xs = take j xs" if "j < length xs" for j
      using assms(2) that by (intro takeWhile_eq_take_P_nth) (auto simp: nth_eq_iff_index_eq)
    note idx = this
    from assms(1) e i have "d \<in> set (take i xs)" by (auto simp: topo_list_def)
    then obtain j where j: "j < i" "j < length xs" "xs ! j = d" by (auto simp: in_set_conv_nth)
    then show ?thesis using idx [of i] idx [of j] i by simp
  qed
  then show ?thesis by (intro acyclicI_order [where f = ?f]) auto
qed

text \<open>If the loop stops before it has seen every node, the rest contains a cycle.\<close>

lemma kahn_stuck_cyclic:
  assumes inv: "kahn_inv es names popped [] deg" and fin: "finite names"
    and dom: "fst ` set es \<subseteq> names" and rest: "names - set popped \<noteq> {}"
  shows "\<not> acyclic (set es)"
proof
  assume ac: "acyclic (set es)"
  then have "wf (set es)" by (simp add: finite_acyclic_wf)
  then obtain n where n: "n \<in> names - set popped" "\<And>d. (d, n) \<in> set es \<Longrightarrow> d \<notin> names - set popped"
    using rest wfE_min [of "set es" _ "names - set popped"] by (metis ex_in_conv)
  then have "live_in es (set popped) n = 0" using dom by (force simp: live_in_zero)
  with inv n(1) show False by (auto simp: kahn_inv_def)
qed


lemma find_duplicate_None:
  "find_duplicate names ss = None \<longleftrightarrow> distinct (map sd_name ss) \<and> set names \<inter> sd_name ` set ss = {}"
  by (induction names ss rule: find_duplicate.induct) auto

lemma find_unknown_dep_None:
  "find_unknown_dep names steps = None \<longleftrightarrow> (\<forall>s\<in>set steps. set (deps_of s) \<subseteq> set names)"
  by (auto simp: find_unknown_dep_def find_None_iff_all)

lemma build_graph_init:
  assumes dist: "distinct (map sd_name steps)" and build: "build_graph steps = (deg, out)"
    and order: "mset (hash_order (map fst (filter (\<lambda>(_, d). d = 0) deg))) = mset (map fst (filter (\<lambda>(_, d). d = 0) deg))"
  shows "kahn_inv (edge_list steps) (sd_name ` set steps) []
           (hash_order (map fst (filter (\<lambda>(_, d). d = 0) deg))) deg
    \<and> (\<forall>v. (case map_of out v of None \<Rightarrow> [] | Some cs \<Rightarrow> cs) = children (edge_list steps) v)"
proof -
  let ?es = "edge_list steps" and ?z = "map fst (filter (\<lambda>(_, d). d = 0) deg)"
  have fold: "fold (\<lambda>(dep, name). add_edge name dep) ?es (map (\<lambda>s. (sd_name s, 0)) steps, []) = (deg, out)"
    using build by (simp add: build_graph_edges)
  have dom: "\<forall>(d, n) \<in> set ?es. map_of (map (\<lambda>s. (sd_name s, 0::nat)) steps) n \<noteq> None"
    by (auto simp: map_of_zero set_edge_list dep_edges_def)
  note res = fold_add_edge [OF fold dom]
  have deg: "map_of deg n = (if n \<in> sd_name ` set steps then Some (live_in ?es {} n) else None)" for n
    using res [of n undefined] by (simp add: map_of_zero in_count_def live_in_def)
  have keys: "map fst deg = map sd_name steps" using res by (simp add: comp_def)
  then have dd: "distinct (map fst deg)" using dist by simp
  have q: "set (hash_order ?z) = set ?z" using order by (metis set_mset_mset)
  have "distinct (hash_order ?z)" using dd order
    by (metis (no_types, lifting) distinct_map_filter mset_eq_imp_distinct_iff)
  moreover have "set ?z = {n \<in> sd_name ` set steps. live_in ?es {} n = 0}"
  proof -
    have "n \<in> set ?z \<longleftrightarrow> map_of deg n = Some 0" for n
      using dd by (auto simp: map_of_eq_Some_iff image_iff)
    moreover have "map_of deg n = Some 0 \<longleftrightarrow> n \<in> {n \<in> sd_name ` set steps. live_in ?es {} n = 0}" for n
      by (simp add: deg)
    ultimately show ?thesis by blast
  qed
  ultimately have "kahn_inv ?es (sd_name ` set steps) [] (hash_order ?z) deg"
    by (auto simp: kahn_inv_def topo_list_def deg q)
  moreover have "(case map_of out v of None \<Rightarrow> [] | Some cs \<Rightarrow> cs) = children ?es v" for v
    using res [of undefined v] by simp
  ultimately show ?thesis by blast
qed

text \<open>What a valid workflow graph is.\<close>

definition valid_graph :: "step_def list \<Rightarrow> bool" where
  "valid_graph steps \<longleftrightarrow> distinct (map sd_name steps)
     \<and> (\<forall>s\<in>set steps. set (deps_of s) \<subseteq> sd_name ` set steps) \<and> acyclic (dep_edges steps)"

lemma validate_known:
  assumes dist: "distinct (map sd_name steps)"
    and known: "\<forall>s\<in>set steps. set (deps_of s) \<subseteq> sd_name ` set steps"
    and order: "\<And>xs. mset (hash_order xs) = mset xs"
  shows "validate_step_graph hash_order steps = (if acyclic (dep_edges steps) then Ok ()
     else Err (InvalidInput ''workflow step graph contains a dependency cycle''))"
proof -
  obtain deg out where b: "build_graph steps = (deg, out)" by fastforce
  let ?es = "edge_list steps" and ?names = "sd_name ` set steps"
  let ?q = "hash_order (map fst (filter (\<lambda>(_, d). d = 0) deg))"
  have ran: "snd ` set ?es \<subseteq> ?names" by (auto simp: set_edge_list dep_edges_def)
  have dom: "fst ` set ?es \<subseteq> ?names" using known by (force simp: set_edge_list dep_edges_def)
  from build_graph_init [OF dist b, of hash_order] order have init: "kahn_inv ?es ?names [] ?q deg"
    and out: "\<And>v. (case map_of out v of None \<Rightarrow> [] | Some cs \<Rightarrow> cs) = children ?es v" by blast+
  from kahn_loop_inv [OF init ran _ out, of 0] obtain popped deg' where
    loop: "kahn_loop out ?q deg 0 = Some (length popped)" and inv: "kahn_inv ?es ?names popped [] deg'" by auto
  have pop: "distinct popped" "set popped \<subseteq> ?names" "topo_list ?es popped" using inv by (auto simp: kahn_inv_def)
  have card: "card ?names = length steps" using dist by (metis distinct_card length_map list.set_map)
  have "length popped = length steps \<longleftrightarrow> set popped = ?names"
    using pop(1,2) card by (metis card_subset_eq distinct_card finite_imageI finite_set)
  also have "\<dots> \<longleftrightarrow> acyclic (set ?es)"
  proof
    assume "set popped = ?names"
    with ran pop show "acyclic (set ?es)" by (auto intro: topo_list_acyclic)
  next
    assume "acyclic (set ?es)"
    with kahn_stuck_cyclic [OF inv _ dom] pop(2) show "set popped = ?names" by blast
  qed
  finally have "length popped = length steps \<longleftrightarrow> acyclic (dep_edges steps)" by (simp add: set_edge_list)
  moreover have "find_duplicate [] steps = None" "find_unknown_dep (map sd_name steps) steps = None"
    using dist known by (auto simp: find_duplicate_None find_unknown_dep_None)
  ultimately show ?thesis by (simp add: validate_step_graph_def b loop)
qed

lemma validate_Ok_valid:
  assumes order: "\<And>xs. mset (hash_order xs) = mset xs"
  shows "validate_step_graph hash_order steps = Ok () \<longleftrightarrow> valid_graph steps"
proof (cases "distinct (map sd_name steps) \<and> (\<forall>s\<in>set steps. set (deps_of s) \<subseteq> sd_name ` set steps)")
  case True
  then show ?thesis using validate_known [OF _ _ order] by (simp add: valid_graph_def)
next
  case False
  then have "find_duplicate [] steps \<noteq> None \<or> find_unknown_dep (map sd_name steps) steps \<noteq> None"
    by (auto simp: find_duplicate_None find_unknown_dep_None)
  then have "validate_step_graph hash_order steps \<noteq> Ok ()"
    by (auto simp: validate_step_graph_def split: option.splits)
  with False show ?thesis by (auto simp: valid_graph_def)
qed

section \<open>Properties\<close>

text \<open>
  Property C12. Kahn's algorithm decides the graph: whatever order the hash map is iterated in,
  validation accepts a workflow exactly when its step names are distinct, every dependency names a
  step of the workflow and the dependency relation is acyclic; otherwise it rejects it with an
  input error. In particular the in-degree subtraction never underflows.
\<close>

theorem validate_step_graph_correct:
  assumes order: "\<And>xs. mset (hash_order xs) = mset xs"
  shows "(validate_step_graph hash_order steps = Ok () \<longleftrightarrow> valid_graph steps)
    \<and> (\<not> valid_graph steps \<longrightarrow> (\<exists>msg. validate_step_graph hash_order steps = Err (InvalidInput msg)))"
proof -
  have "\<exists>msg. validate_step_graph hash_order steps = Err (InvalidInput msg)" if "\<not> valid_graph steps"
  proof (cases "distinct (map sd_name steps) \<and> (\<forall>s\<in>set steps. set (deps_of s) \<subseteq> sd_name ` set steps)")
    case True
    with that show ?thesis using validate_known [OF _ _ order] by (simp add: valid_graph_def)
  next
    case False
    then have "find_duplicate [] steps \<noteq> None \<or> find_unknown_dep (map sd_name steps) steps \<noteq> None"
      by (auto simp: find_duplicate_None find_unknown_dep_None)
    then show ?thesis by (auto simp: validate_step_graph_def split: option.splits)
  qed
  with validate_Ok_valid [OF order] show ?thesis by blast
qed

definition demo_step :: "string \<Rightarrow> string list \<Rightarrow> step_def" where
  "demo_step n ds = \<lparr>sd_name = n, sd_type = ''transform'', sd_config = None, sd_depends_on = Some ds,
     sd_max_retries = None, sd_timeout_ms = None\<rparr>"

theorem validate_step_graph_correct_witness:
  "valid_graph [demo_step ''a'' [], demo_step ''b'' [''a''], demo_step ''c'' [''a'', ''b'']]
   \<and> \<not> valid_graph [demo_step ''a'' [''b''], demo_step ''b'' [''a'']]"
proof -
  have order: "mset (rev xs) = mset xs" for xs :: "string list" by simp
  have "validate_step_graph rev [demo_step ''a'' [], demo_step ''b'' [''a''], demo_step ''c'' [''a'', ''b'']] = Ok ()"
    by code_simp
  moreover have "validate_step_graph rev [demo_step ''a'' [''b''], demo_step ''b'' [''a'']] \<noteq> Ok ()"
    by code_simp
  ultimately show ?thesis using validate_step_graph_correct [of rev, OF order] by blast
qed

end
