(* ===== verification/Loom.thy ===== *)
theory Loom
  imports Axon Loom_Graph
begin

text \<open>
  The Loom workflow engine (\<^verbatim>\<open>kleos-lib/src/services/loom.rs\<close>): workflow definitions, runs, steps and
  logs as tables of the database that also holds the Axon bus, and one definition per function.

  \<^verbatim>\<open>complete_step\<close> and \<^verbatim>\<open>fail_step\<close> call \<^verbatim>\<open>advance_run\<close>, which executes ready steps and so calls them
  again. The re-entrant call is the parameter \<open>adv\<close> of every function on that cycle, and
  \<open>advance_run\<close> ties the knot with a fuel argument: \<open>None\<close> means out of fuel, and the theory of the
  engine proves how much fuel is always enough. An error does not undo the statements executed before
  it, so every operation returns the new state beside its result.

  What the code takes from outside is the record \<open>loom_env\<close>: \<^verbatim>\<open>serde_json\<close> printing and parsing, the
  SSRF check of a step URL, HTTP responses (both may differ from call to call, so they take the number
  of the network call), and the iteration order of a hash map. Clock reads within one call see one
  instant; the back-off sleep before a retry changes nothing but time.
\<close>

section \<open>Data\<close>

datatype run_status = RPending | RRunning | RCompleted | RFailed | RCancelled

datatype step_status = SPending | SRunning | SCompleted | SFailed | SSkipped

fun run_status_text :: "run_status \<Rightarrow> string" where
  "run_status_text RPending = ''pending''"
| "run_status_text RRunning = ''running''"
| "run_status_text RCompleted = ''completed''"
| "run_status_text RFailed = ''failed''"
| "run_status_text RCancelled = ''cancelled''"

fun step_status_text :: "step_status \<Rightarrow> string" where
  "step_status_text SPending = ''pending''"
| "step_status_text SRunning = ''running''"
| "step_status_text SCompleted = ''completed''"
| "step_status_text SFailed = ''failed''"
| "step_status_text SSkipped = ''skipped''"

record workflow =
  wf_id :: int
  wf_name :: string
  wf_description :: "string option"
  wf_steps :: "step_def list"
  wf_created_at :: int
  wf_updated_at :: int

record create_workflow_request =
  cw_name :: string
  cw_description :: "string option"
  cw_steps :: "step_def list"

record update_workflow_request =
  uw_name :: "string option"
  uw_description :: "string option"
  uw_steps :: "step_def list option"

record run =
  rn_id :: int
  rn_workflow_id :: int
  rn_status :: run_status
  rn_input :: json
  rn_output :: json
  rn_error :: "string option"
  rn_started_at :: "int option"
  rn_completed_at :: "int option"
  rn_created_at :: int
  rn_updated_at :: int

record create_run_request =
  cr_workflow_id :: int
  cr_workflow_name :: "string option"
  cr_input :: "json option"

record step =
  st_id :: int
  st_run_id :: int
  st_name :: string
  st_type :: string
  st_config :: json
  st_status :: step_status
  st_input :: json
  st_output :: json
  st_error :: "string option"
  st_depends_on :: "string list"
  st_retry_count :: int
  st_max_retries :: int
  st_timeout_ms :: int
  st_started_at :: "int option"
  st_completed_at :: "int option"
  st_created_at :: int

record log_entry =
  lg_id :: int
  lg_run_id :: int
  lg_step_id :: "int option"
  lg_level :: string
  lg_message :: string
  lg_data :: json
  lg_created_at :: int

record loom_stats =
  ls_workflows :: nat
  ls_runs :: nat
  ls_active_runs :: nat
  ls_steps :: nat
  ls_runs_by_status :: "(string \<times> nat) list"

record loom_db = axon_db +
  loom_workflows :: "workflow table"
  loom_runs :: "run table"
  loom_steps :: "step table"
  loom_run_logs :: "log_entry table"
  net_calls :: nat

record http_request =
  rq_method :: string
  rq_url :: string
  rq_headers :: "(string \<times> string) list"
  rq_body :: "json option"
  rq_timeout_ms :: int
  rq_bearer :: "string option"

record loom_env =
  display :: "json \<Rightarrow> string"
  display_pretty :: "json \<Rightarrow> string"
  from_str :: "string \<Rightarrow> string + json"
  f64_text :: "string \<Rightarrow> string"
  url_check :: "nat \<Rightarrow> string \<Rightarrow> string + unit"
  http_send :: "nat \<Rightarrow> http_request \<Rightarrow> string + (nat \<times> string)"
  hash_order :: "string list \<Rightarrow> string list"

text \<open>A result with the state left behind; \<open>None\<close> is running out of fuel. \<open>try_bind\<close> is the \<^verbatim>\<open>?\<close> operator.\<close>

type_synonym 'a outcome = "('a result \<times> loom_db) option"
type_synonym advance = "int \<Rightarrow> loom_db \<Rightarrow> unit outcome"

definition try_bind :: "'a outcome \<Rightarrow> ('a \<Rightarrow> loom_db \<Rightarrow> 'b outcome) \<Rightarrow> 'b outcome" where
  "try_bind m f =
     (case m of None \<Rightarrow> None
      | Some (r, db) \<Rightarrow> (case r of Inl e \<Rightarrow> Some (Err e, db) | Inr x \<Rightarrow> f x db))"

section \<open>Logging\<close>

definition get_run :: "loom_db \<Rightarrow> int \<Rightarrow> run result" where
  "get_run db i =
     (case find_where (\<lambda>r. rn_id r = i) (loom_runs db) of
        None \<Rightarrow> Err (NotFound (''run '' @ show_int i)) | Some r \<Rightarrow> Ok r)"

definition get_step :: "loom_db \<Rightarrow> int \<Rightarrow> step result" where
  "get_step db i =
     (case find_where (\<lambda>s. st_id s = i) (loom_steps db) of
        None \<Rightarrow> Err (NotFound (''step '' @ show_int i)) | Some s \<Rightarrow> Ok s)"

definition add_log ::
    "int \<Rightarrow> int option \<Rightarrow> string \<Rightarrow> string \<Rightarrow> json option \<Rightarrow> loom_db \<Rightarrow> unit outcome" where
  "add_log run_id step_id level message data db =
     (if find_where (\<lambda>r. rn_id r = run_id) (loom_runs db) = None
         \<or> (case step_id of None \<Rightarrow> False | Some s \<Rightarrow> find_where (\<lambda>x. st_id x = s) (loom_steps db) = None)
      then Some (Err (Database ''FOREIGN KEY constraint failed''), db)
      else Some (Ok (), db\<lparr>loom_run_logs := snd (insert_row (\<lambda>i. \<lparr>lg_id = i, lg_run_id = run_id,
             lg_step_id = step_id, lg_level = level, lg_message = message,
             lg_data = (case data of Some d \<Rightarrow> d | None \<Rightarrow> JObj []), lg_created_at = now db\<rparr>)
             (loom_run_logs db))\<rparr>))"

definition get_logs ::
    "loom_db \<Rightarrow> int \<Rightarrow> int option \<Rightarrow> string option \<Rightarrow> 64 word \<Rightarrow> log_entry list result" where
  "get_logs db run_id step_id level limit =
     (case get_run db run_id of
        Inl e \<Rightarrow> Err e
      | Inr _ \<Rightarrow> Ok (sql_limit (usize_as_i64 limit)
          (select_where (\<lambda>l. lg_run_id l = run_id
             \<and> (case step_id of None \<Rightarrow> True | Some s \<Rightarrow> lg_step_id l = Some s)
             \<and> (case level of None \<Rightarrow> True | Some v \<Rightarrow> lg_level l = v)) (loom_run_logs db))))"

section \<open>Workflow definitions\<close>

definition check_step_types :: "step_def list \<Rightarrow> unit result" where
  "check_step_types steps =
     (case List.find (\<lambda>s. sd_type s \<notin> set VALID_STEP_TYPES) steps of
        None \<Rightarrow> Ok ()
      | Some s \<Rightarrow> Err (InvalidInput (''invalid step type '' @ quoted (sd_type s)
          @ '' -- valid types: '' @ join '', '' VALID_STEP_TYPES)))"

definition create_workflow ::
    "loom_env \<Rightarrow> create_workflow_request \<Rightarrow> loom_db \<Rightarrow> workflow result \<times> loom_db" where
  "create_workflow env req db =
     (case check_step_types (cw_steps req) of
        Inl e \<Rightarrow> (Err e, db)
      | Inr _ \<Rightarrow>
          (case validate_step_graph (hash_order env) (cw_steps req) of
             Inl e \<Rightarrow> (Err e, db)
           | Inr _ \<Rightarrow>
               if find_where (\<lambda>w. wf_name w = cw_name req) (loom_workflows db) \<noteq> None
               then (Err (Database ''UNIQUE constraint failed: loom_workflows.name''), db)
               else
                 let mk = (\<lambda>i. \<lparr>wf_id = i, wf_name = cw_name req, wf_description = cw_description req,
                             wf_steps = cw_steps req, wf_created_at = now db, wf_updated_at = now db\<rparr>);
                     (i, t) = insert_row mk (loom_workflows db);
                     db' = db\<lparr>loom_workflows := t\<rparr>
                 in (case find_where (\<lambda>w. wf_id w = i) t of
                       None \<Rightarrow> (Err (Internal ''failed to fetch created workflow''), db')
                     | Some w \<Rightarrow> (Ok w, db'))))"

definition get_workflow :: "loom_db \<Rightarrow> int \<Rightarrow> workflow result" where
  "get_workflow db i =
     (case find_where (\<lambda>w. wf_id w = i) (loom_workflows db) of
        None \<Rightarrow> Err (NotFound (''workflow '' @ show_int i)) | Some w \<Rightarrow> Ok w)"

definition get_workflow_by_name :: "loom_db \<Rightarrow> string \<Rightarrow> workflow result" where
  "get_workflow_by_name db name =
     (case find_where (\<lambda>w. wf_name w = name) (loom_workflows db) of
        None \<Rightarrow> Err (NotFound (''workflow '' @ quoted name)) | Some w \<Rightarrow> Ok w)"

definition list_workflows :: "loom_db \<Rightarrow> workflow list" where
  "list_workflows db = sort_key wf_name (trows (loom_workflows db))"

definition update_workflow ::
    "loom_env \<Rightarrow> int \<Rightarrow> update_workflow_request \<Rightarrow> loom_db \<Rightarrow> workflow result \<times> loom_db" where
  "update_workflow env i req db =
     (case get_workflow db i of
        Inl e \<Rightarrow> (Err e, db)
      | Inr _ \<Rightarrow>
          (case (case uw_steps req of
                   None \<Rightarrow> Ok ()
                 | Some steps \<Rightarrow> (case check_step_types steps of
                                   Inl e \<Rightarrow> Err e
                                 | Inr _ \<Rightarrow> validate_step_graph (hash_order env) steps)) of
             Inl e \<Rightarrow> (Err e, db)
           | Inr _ \<Rightarrow>
               if uw_name req = None \<and> uw_description req = None \<and> uw_steps req = None
               then (get_workflow db i, db)
               else if (case uw_name req of None \<Rightarrow> False
                        | Some n \<Rightarrow> find_where (\<lambda>w. wf_name w = n \<and> wf_id w \<noteq> i) (loom_workflows db) \<noteq> None)
               then (Err (Database ''UNIQUE constraint failed: loom_workflows.name''), db)
               else
                 let db' = db\<lparr>loom_workflows := update_where (\<lambda>w. wf_id w = i)
                       (\<lambda>w. w\<lparr>wf_name := (case uw_name req of None \<Rightarrow> wf_name w | Some n \<Rightarrow> n),
                              wf_description := (case uw_description req of None \<Rightarrow> wf_description w | Some d \<Rightarrow> Some d),
                              wf_steps := (case uw_steps req of None \<Rightarrow> wf_steps w | Some ss \<Rightarrow> ss),
                              wf_updated_at := now db\<rparr>) (loom_workflows db)\<rparr>
                 in (get_workflow db' i, db')))"

text \<open>Deleting a workflow cascades to its runs, their steps and their logs.\<close>

definition delete_workflow :: "int \<Rightarrow> loom_db \<Rightarrow> bool \<times> loom_db" where
  "delete_workflow i db =
     (let gone = map rn_id (select_where (\<lambda>r. rn_workflow_id r = i) (loom_runs db)) in
      if find_where (\<lambda>w. wf_id w = i) (loom_workflows db) = None then (False, db)
      else (True, db\<lparr>loom_workflows := delete_where (\<lambda>w. wf_id w = i) (loom_workflows db),
              loom_runs := delete_where (\<lambda>r. rn_workflow_id r = i) (loom_runs db),
              loom_steps := delete_where (\<lambda>s. st_run_id s \<in> set gone) (loom_steps db),
              loom_run_logs := delete_where (\<lambda>l. lg_run_id l \<in> set gone) (loom_run_logs db)\<rparr>))"

section \<open>Completing and failing a step\<close>

definition steps_of :: "loom_db \<Rightarrow> int \<Rightarrow> step list" where
  "steps_of db run_id = select_where (\<lambda>s. st_run_id s = run_id) (loom_steps db)"

definition get_steps :: "loom_db \<Rightarrow> int \<Rightarrow> step list result" where
  "get_steps db run_id =
     (case get_run db run_id of Inl e \<Rightarrow> Err e | Inr _ \<Rightarrow> Ok (steps_of db run_id))"

definition list_runs :: "loom_db \<Rightarrow> int option \<Rightarrow> string option \<Rightarrow> 64 word \<Rightarrow> run list" where
  "list_runs db workflow_id status limit =
     sql_limit (usize_as_i64 limit)
       (rev (select_where (\<lambda>r. (case workflow_id of None \<Rightarrow> True | Some w \<Rightarrow> rn_workflow_id r = w)
          \<and> (case status of None \<Rightarrow> True | Some t \<Rightarrow> run_status_text (rn_status r) = t)) (loom_runs db)))"

definition upd_step :: "int \<Rightarrow> (step \<Rightarrow> step) \<Rightarrow> loom_db \<Rightarrow> loom_db" where
  "upd_step i f db = db\<lparr>loom_steps := update_where (\<lambda>s. st_id s = i) f (loom_steps db)\<rparr>"

definition upd_run :: "int \<Rightarrow> (run \<Rightarrow> run) \<Rightarrow> loom_db \<Rightarrow> loom_db" where
  "upd_run i f db = db\<lparr>loom_runs := update_where (\<lambda>r. rn_id r = i) f (loom_runs db)\<rparr>"

text \<open>\<^verbatim>\<open>let _ = publish_internal(..)\<close>: the result is dropped, the event stays.\<close>

definition notify :: "string \<Rightarrow> string \<Rightarrow> json \<Rightarrow> loom_db \<Rightarrow> loom_db" where
  "notify channel action payload db = snd (publish_internal channel ''loom'' action payload 1 db)"

definition complete_step :: "advance \<Rightarrow> int \<Rightarrow> json \<Rightarrow> loom_db \<Rightarrow> step outcome" where
  "complete_step adv step_id output db =
     (case get_step db step_id of
        Inl e \<Rightarrow> Some (Err e, db)
      | Inr s \<Rightarrow>
          (case get_run db (st_run_id s) of
             Inl e \<Rightarrow> Some (Err e, db)
           | Inr _ \<Rightarrow>
               if st_status s \<noteq> SRunning
               then Some (Err (InvalidInput (''cannot complete step '' @ show_int step_id
                      @ '' -- current status is '' @ quoted (step_status_text (st_status s)))), db)
               else
                 try_bind (add_log (st_run_id s) (Some step_id) ''info''
                     (''step '' @ quoted (st_name s) @ '' completed'') (Some (JObj [(''output'', output)]))
                     (upd_step step_id (\<lambda>x. x\<lparr>st_status := SCompleted, st_output := output,
                         st_completed_at := Some (now db)\<rparr>) db))
                   (\<lambda>_ db1. try_bind (adv (st_run_id s) db1)
                     (\<lambda>_ db2. Some (get_step db2 step_id, db2)))))"

text \<open>The back-off before a retry, in milliseconds: \<^verbatim>\<open>(50u64 << min(retry_count, 5)).min(1000)\<close>.\<close>

definition retry_backoff_ms :: "int \<Rightarrow> 64 word" where
  "retry_backoff_ms retry_count = min (push_bit (min (nat retry_count) 5) 50) 1000"

definition fail_step :: "advance \<Rightarrow> int \<Rightarrow> string \<Rightarrow> loom_db \<Rightarrow> step outcome" where
  "fail_step adv step_id error db =
     (case get_step db step_id of
        Inl e \<Rightarrow> Some (Err e, db)
      | Inr s \<Rightarrow>
          (case get_run db (st_run_id s) of
             Inl e \<Rightarrow> Some (Err e, db)
           | Inr _ \<Rightarrow>
               if st_status s \<noteq> SRunning
               then Some (Err (InvalidInput (''cannot fail step '' @ show_int step_id
                      @ '' -- current status is '' @ quoted (step_status_text (st_status s)))), db)
               else if st_retry_count s < st_max_retries s then
                 try_bind (add_log (st_run_id s) (Some step_id) ''warn''
                     (''step '' @ quoted (st_name s) @ '' failed, retrying ('' @ show_int (st_retry_count s + 1)
                       @ ''/'' @ show_int (st_max_retries s) @ '')'') (Some (JObj [(''error'', JStr error)]))
                     (upd_step step_id (\<lambda>x. x\<lparr>st_status := SPending,
                        st_retry_count := st_retry_count x + 1, st_error := Some error,
                        st_started_at := None\<rparr>) db))
                   (\<lambda>_ db1. try_bind (adv (st_run_id s) db1)
                     (\<lambda>_ db2. Some (get_step db2 step_id, db2)))
               else
                 try_bind (add_log (st_run_id s) (Some step_id) ''error''
                     (''step '' @ quoted (st_name s) @ '' failed (max retries exhausted)'')
                     (Some (JObj [(''error'', JStr error)]))
                     (upd_run (st_run_id s) (\<lambda>r. r\<lparr>rn_status := RFailed, rn_error := Some error,
                          rn_completed_at := Some (now db), rn_updated_at := now db\<rparr>)
                       (upd_step step_id (\<lambda>x. x\<lparr>st_status := SFailed, st_error := Some error,
                          st_completed_at := Some (now db)\<rparr>) db)))
                   (\<lambda>_ db1.
                      let db2 = notify ''alerts'' ''workflow.run.failed''
                            (JObj [(''error'', JStr ''retries exhausted''),
                                   (''run_id'', JNum (show_int (st_run_id s)))]) db1
                      in Some (get_step db2 step_id, db2))))"

section \<open>Executing a step\<close>

datatype attempt = Done json | Failure string

fun apply_mapping :: "json \<Rightarrow> (string \<times> json) list \<Rightarrow> json_map \<Rightarrow> string + json_map" where
  "apply_mapping input [] out = Inr out"
| "apply_mapping input ((target, source) # rest) out =
     (case as_str source of
        None \<Rightarrow> Inl (''mapping value for '' @ quoted target @ '' must be a string'')
      | Some path \<Rightarrow> apply_mapping input rest (set_dot_path out target (resolve_dot_path input path)))"

definition transform_result :: "loom_env \<Rightarrow> json \<Rightarrow> json \<Rightarrow> attempt" where
  "transform_result env config input =
     (case json_get config ''mapping'' of
        Some mapping \<Rightarrow>
          (case mapping of
             JObj m \<Rightarrow> (case apply_mapping input m [] of
                         Inl msg \<Rightarrow> Failure msg | Inr out \<Rightarrow> Done (JObj out))
           | _ \<Rightarrow> Failure ''mapping must be an object'')
      | None \<Rightarrow>
          (case json_get config ''template'' of
             Some (JStr tmpl) \<Rightarrow> Done (JStr (interpolate (display env) tmpl input))
           | Some (JObj m) \<Rightarrow>
               Done (JObj (fold (\<lambda>(k, v) out. map_insert k
                  (case v of JStr t \<Rightarrow> JStr (interpolate (display env) t input) | _ \<Rightarrow> v) out) m []))
           | _ \<Rightarrow> Done input))"

text \<open>\<^verbatim>\<open>chars().take(n)\<close> on UTF-8 bytes: continuation bytes belong to the character before.\<close>

fun take_chars :: "nat \<Rightarrow> string \<Rightarrow> string" where
  "take_chars n [] = []"
| "take_chars n (c # cs) =
     (if 128 \<le> (of_char c :: nat) \<and> (of_char c :: nat) < 192 then c # take_chars n cs
      else case n of 0 \<Rightarrow> [] | Suc k \<Rightarrow> c # take_chars k cs)"

definition LOOM_ERR_BODY_CAP :: nat where
  "LOOM_ERR_BODY_CAP = 500"

definition to_upper :: "string \<Rightarrow> string" where
  "to_upper s = map (\<lambda>c. if 97 \<le> (of_char c :: nat) \<and> (of_char c :: nat) \<le> 122
     then char_of ((of_char c :: nat) - 32) else c) s"

definition is_success :: "nat \<Rightarrow> bool" where
  "is_success status \<longleftrightarrow> 200 \<le> status \<and> status < 300"

definition webhook_headers :: "json \<Rightarrow> (string \<times> string) list" where
  "webhook_headers config =
     (case json_get config ''headers'' of
        Some (JObj m) \<Rightarrow> List.map_filter (\<lambda>(k, v). map_option (Pair k) (as_str v)) m
      | _ \<Rightarrow> [])"

definition webhook_request :: "json \<Rightarrow> json \<Rightarrow> int \<Rightarrow> int \<Rightarrow> string \<Rightarrow> http_request" where
  "webhook_request config input step_id timeout_ms url =
     (let m = to_upper (case json_str_field config ''method'' of None \<Rightarrow> ''POST'' | Some m \<Rightarrow> m);
          m = (if m \<in> {''GET'', ''PUT'', ''DELETE'', ''PATCH''} then m else ''POST'')
      in \<lparr>rq_method = m, rq_url = url, rq_headers = webhook_headers config,
          rq_body = (if m \<in> {''GET'', ''DELETE''} then None
                     else Some (JObj [(''config'', config), (''input'', input), (''step_id'', JNum (show_int step_id))])),
          rq_timeout_ms = max timeout_ms 1, rq_bearer = None\<rparr>)"

definition webhook_attempt ::
    "loom_env \<Rightarrow> int \<Rightarrow> json \<Rightarrow> json \<Rightarrow> int \<Rightarrow> loom_db \<Rightarrow> attempt \<times> loom_db" where
  "webhook_attempt env step_id config input timeout_ms db =
     (case json_str_field config ''url'' of
        None \<Rightarrow> (Failure ''webhook step requires config.url'', db)
      | Some [] \<Rightarrow> (Failure ''webhook step requires config.url'', db)
      | Some url \<Rightarrow>
          let db1 = db\<lparr>net_calls := net_calls db + 1\<rparr> in
          (case url_check env (net_calls db) url of
             Inl msg \<Rightarrow> (Failure (''webhook url rejected: '' @ msg), db1)
           | Inr _ \<Rightarrow>
               let db2 = db1\<lparr>net_calls := net_calls db1 + 1\<rparr> in
               (case http_send env (net_calls db1) (webhook_request config input step_id timeout_ms url) of
                  Inl msg \<Rightarrow> (Failure (''webhook request failed: '' @ msg), db2)
                | Inr (status, text) \<Rightarrow>
                    if \<not> is_success status
                    then (Failure (''HTTP '' @ show_int (int status) @ '': '' @ take_chars LOOM_ERR_BODY_CAP text), db2)
                    else (case from_str env text of
                            Inr out \<Rightarrow> (Done out, db2)
                          | Inl _ \<Rightarrow> (Done (JObj [(''body'', JStr text)]), db2)))))"

definition contains :: "string \<Rightarrow> string \<Rightarrow> bool" where
  "contains p s \<longleftrightarrow> find_sub p s \<noteq> None"

definition is_openai_compat :: "string \<Rightarrow> bool" where
  "is_openai_compat url \<longleftrightarrow> contains ''/v1/chat'' url \<or> contains ''/chat/completions'' url"

definition llm_system_prompt :: "loom_env \<Rightarrow> json \<Rightarrow> json \<Rightarrow> string" where
  "llm_system_prompt env config vars =
     (case json_str_field config ''system'' of
        Some t \<Rightarrow> interpolate (display env) t vars
      | None \<Rightarrow> ''You are a helpful assistant.'')
     @ (case json_get config ''schema'' of
          None \<Rightarrow> []
        | Some sch \<Rightarrow> [CHR 0x0A, CHR 0x0A] @ ''You MUST respond with a valid JSON object matching this schema:''
            @ [CHR 0x0A] @ display_pretty env sch @ [CHR 0x0A, CHR 0x0A]
            @ ''Respond with ONLY the JSON object, no other text.'')"

definition llm_body :: "loom_env \<Rightarrow> json \<Rightarrow> json \<Rightarrow> string \<Rightarrow> json" where
  "llm_body env config input url =
     (let vars = JObj (build_llm_vars input (json_get config ''input_map''));
          user_prompt = interpolate (display env)
            (case json_str_field config ''prompt'' of None \<Rightarrow> [] | Some t \<Rightarrow> t) vars;
          system_prompt = llm_system_prompt env config vars;
          model = (case json_str_field config ''model'' of None \<Rightarrow> ''gpt-4o-mini'' | Some m \<Rightarrow> m);
          temperature = (case json_get config ''temperature'' of
                           Some (JNum t) \<Rightarrow> f64_text env t | _ \<Rightarrow> ''0.7'')
      in if is_openai_compat url
         then JObj [(''messages'', JArr [JObj [(''content'', JStr system_prompt), (''role'', JStr ''system'')],
                                        JObj [(''content'', JStr user_prompt), (''role'', JStr ''user'')]]),
                    (''model'', JStr model), (''temperature'', JNum temperature)]
         else JObj [(''model'', JStr model), (''prompt'', JStr user_prompt), (''system'', JStr system_prompt)])"

text \<open>The text content of a response, in the OpenAI shape (\<^verbatim>\<open>/choices/0/message/content\<close>) or the plain one.\<close>

definition openai_content :: "json \<Rightarrow> string" where
  "openai_content data =
     (let first = (case json_get data ''choices'' of
                     Some (JArr (c # _)) \<Rightarrow> Some c
                   | Some (JObj m) \<Rightarrow> map_get ''0'' m
                   | _ \<Rightarrow> None)
      in case Option.bind (Option.bind (Option.bind first (\<lambda>c. json_get c ''message''))
                (\<lambda>m. json_get m ''content'')) as_str of
           None \<Rightarrow> [] | Some t \<Rightarrow> t)"

definition plain_content :: "json \<Rightarrow> string \<Rightarrow> string" where
  "plain_content data text =
     (case Option.bind
        (case json_get data ''result'' of Some v \<Rightarrow> Some v
         | None \<Rightarrow> (case json_get data ''text'' of Some v \<Rightarrow> Some v | None \<Rightarrow> json_get data ''content''))
        as_str of
        None \<Rightarrow> text | Some t \<Rightarrow> t)"

definition MAX_ATTEMPTS :: nat where
  "MAX_ATTEMPTS = 3"

text \<open>One response of the model: the step's result, or the error the loop remembers.\<close>

definition llm_judge :: "loom_env \<Rightarrow> json \<Rightarrow> string \<Rightarrow> nat \<Rightarrow> string + (nat \<times> string) \<Rightarrow> attempt" where
  "llm_judge env config url attempt_no response =
     (case response of
        Inl msg \<Rightarrow> Failure (''llm request failed: '' @ msg)
      | Inr (status, text) \<Rightarrow>
          if \<not> is_success status
          then Failure (''LLM HTTP '' @ show_int (int status) @ '': '' @ take_chars LOOM_ERR_BODY_CAP text)
          else
            let data = (case from_str env text of Inr v \<Rightarrow> v | Inl _ \<Rightarrow> JNull);
                extracted = (if is_openai_compat url then openai_content data else plain_content data text)
            in if json_get config ''schema'' \<noteq> None
               then (case from_str env (case extract_json_object extracted of Some c \<Rightarrow> c | None \<Rightarrow> extracted) of
                       Inr parsed \<Rightarrow> Done (JObj [(''attempt'', JNum (show_int (int attempt_no))),
                                      (''raw'', JStr extracted), (''result'', parsed)])
                     | Inl e \<Rightarrow> Failure (''LLM returned invalid JSON (attempt '' @ show_int (int attempt_no) @ ''): ''
                                 @ e @ '' -- response: '' @ take_chars LOOM_ERR_BODY_CAP extracted))
               else Done (JObj [(''attempt'', JNum (show_int (int attempt_no))), (''result'', JStr extracted)]))"

fun llm_loop :: "loom_env \<Rightarrow> json \<Rightarrow> string \<Rightarrow> http_request \<Rightarrow> nat \<Rightarrow> nat \<Rightarrow> string \<Rightarrow> loom_db \<Rightarrow> attempt \<times> loom_db" where
  "llm_loop env config url req 0 attempt_no last_err db =
     (Failure (if last_err = [] then ''llm step exhausted retries'' else last_err), db)"
| "llm_loop env config url req (Suc k) attempt_no last_err db =
     (let db1 = db\<lparr>net_calls := net_calls db + 1\<rparr> in
      case llm_judge env config url attempt_no (http_send env (net_calls db) req) of
        Done out \<Rightarrow> (Done out, db1)
      | Failure msg \<Rightarrow>
          if attempt_no = MAX_ATTEMPTS then (Failure msg, db1)
          else llm_loop env config url req k (attempt_no + 1) msg db1)"

definition llm_attempt ::
    "loom_env \<Rightarrow> json \<Rightarrow> json \<Rightarrow> int \<Rightarrow> loom_db \<Rightarrow> attempt \<times> loom_db" where
  "llm_attempt env config input timeout_ms db =
     (case json_str_field config ''url'' of
        None \<Rightarrow> (Failure ''llm step requires config.url'', db)
      | Some [] \<Rightarrow> (Failure ''llm step requires config.url'', db)
      | Some url \<Rightarrow>
          let db1 = db\<lparr>net_calls := net_calls db + 1\<rparr> in
          (case url_check env (net_calls db) url of
             Inl msg \<Rightarrow> (Failure (''llm url rejected: '' @ msg), db1)
           | Inr _ \<Rightarrow>
               llm_loop env config url
                 \<lparr>rq_method = ''POST'', rq_url = url, rq_headers = [],
                  rq_body = Some (llm_body env config input url), rq_timeout_ms = max timeout_ms 1,
                  rq_bearer = json_str_field config ''api_key''\<rparr> MAX_ATTEMPTS 1 [] db1))"

definition finish_step :: "advance \<Rightarrow> int \<Rightarrow> attempt \<Rightarrow> loom_db \<Rightarrow> unit outcome" where
  "finish_step adv step_id att db =
     (case att of
        Done out \<Rightarrow> try_bind (complete_step adv step_id out db) (\<lambda>_ db'. Some (Ok (), db'))
      | Failure msg \<Rightarrow> try_bind (fail_step adv step_id msg db) (\<lambda>_ db'. Some (Ok (), db')))"

definition execute_transform_step :: "loom_env \<Rightarrow> advance \<Rightarrow> int \<Rightarrow> json \<Rightarrow> json \<Rightarrow> loom_db \<Rightarrow> unit outcome" where
  "execute_transform_step env adv step_id config input db =
     finish_step adv step_id (transform_result env config input) db"

definition execute_webhook_step ::
    "loom_env \<Rightarrow> advance \<Rightarrow> int \<Rightarrow> json \<Rightarrow> json \<Rightarrow> int \<Rightarrow> loom_db \<Rightarrow> unit outcome" where
  "execute_webhook_step env adv step_id config input timeout_ms db =
     (case webhook_attempt env step_id config input timeout_ms db of
        (att, db') \<Rightarrow> finish_step adv step_id att db')"

definition execute_llm_step ::
    "loom_env \<Rightarrow> advance \<Rightarrow> int \<Rightarrow> json \<Rightarrow> json \<Rightarrow> int \<Rightarrow> loom_db \<Rightarrow> unit outcome" where
  "execute_llm_step env adv step_id config input timeout_ms db =
     (case llm_attempt env config input timeout_ms db of
        (att, db') \<Rightarrow> finish_step adv step_id att db')"

section \<open>Orchestration\<close>

definition terminal :: "run_status \<Rightarrow> bool" where
  "terminal st \<longleftrightarrow> st \<in> {RCompleted, RFailed, RCancelled}"

definition step_open :: "step \<Rightarrow> bool" where
  "step_open s \<longleftrightarrow> st_status s \<in> {SPending, SRunning}"

text \<open>The \<^verbatim>\<open>HashMap\<close> from step names to steps: a later step of the same name replaces an earlier one.\<close>

definition step_by_name :: "step list \<Rightarrow> string \<Rightarrow> step option" where
  "step_by_name steps n = List.find (\<lambda>s. st_name s = n) (rev steps)"

definition deps_met :: "step list \<Rightarrow> step \<Rightarrow> bool" where
  "deps_met steps s \<longleftrightarrow>
     list_all (\<lambda>d. case step_by_name steps d of None \<Rightarrow> False | Some dep \<Rightarrow> st_status dep = SCompleted)
       (st_depends_on s)"

definition merged_output :: "step list \<Rightarrow> json" where
  "merged_output steps =
     JObj (fold (\<lambda>s m. case st_output s of JObj ob \<Rightarrow> map_extend m ob | _ \<Rightarrow> m)
       (filter (\<lambda>s. st_status s = SCompleted) steps) [])"

definition merged_input :: "json \<Rightarrow> step list \<Rightarrow> step \<Rightarrow> json" where
  "merged_input run_input steps s =
     JObj (fold (\<lambda>d m. case step_by_name steps d of
                  Some dep \<Rightarrow> (case st_output dep of JObj ob \<Rightarrow> map_extend m ob | _ \<Rightarrow> m)
                | None \<Rightarrow> m) (st_depends_on s)
       (case run_input of JObj i \<Rightarrow> map_extend [] i | _ \<Rightarrow> []))"

record ready_step =
  rs_id :: int
  rs_name :: string
  rs_type :: string
  rs_config :: json
  rs_input :: json
  rs_timeout_ms :: int

definition ready_steps :: "json \<Rightarrow> step list \<Rightarrow> ready_step list" where
  "ready_steps run_input steps =
     map (\<lambda>s. \<lparr>rs_id = st_id s, rs_name = st_name s, rs_type = st_type s, rs_config = st_config s,
                rs_input = merged_input run_input steps s, rs_timeout_ms = st_timeout_ms s\<rparr>)
       (filter (\<lambda>s. st_status s = SPending \<and> deps_met steps s) steps)"

definition execute_step :: "loom_env \<Rightarrow> advance \<Rightarrow> ready_step \<Rightarrow> loom_db \<Rightarrow> unit outcome" where
  "execute_step env adv r db =
     (if rs_type r = ''transform'' then execute_transform_step env adv (rs_id r) (rs_config r) (rs_input r) db
      else if rs_type r = ''webhook'' then
        execute_webhook_step env adv (rs_id r) (rs_config r) (rs_input r) (rs_timeout_ms r) db
      else if rs_type r = ''llm'' then
        execute_llm_step env adv (rs_id r) (rs_config r) (rs_input r) (rs_timeout_ms r) db
      else Some (Ok (), db))"

fun dispatch :: "loom_env \<Rightarrow> advance \<Rightarrow> int \<Rightarrow> ready_step list \<Rightarrow> loom_db \<Rightarrow> unit outcome" where
  "dispatch env adv run_id [] db = Some (Ok (), db)"
| "dispatch env adv run_id (r # rs) db =
     (if count_where (\<lambda>s. st_id s = rs_id r \<and> st_status s = SPending) (loom_steps db) = 0
      then dispatch env adv run_id rs db
      else
        let db1 = db\<lparr>loom_steps := update_where (\<lambda>s. st_id s = rs_id r \<and> st_status s = SPending)
              (\<lambda>s. s\<lparr>st_status := SRunning, st_input := rs_input r, st_started_at := Some (now db)\<rparr>)
              (loom_steps db)\<rparr>
        in try_bind (add_log run_id (Some (rs_id r)) ''info'' (''step '' @ quoted (rs_name r) @ '' started'') None db1)
             (\<lambda>_ db2. try_bind (execute_step env adv r db2) (\<lambda>_ db3. dispatch env adv run_id rs db3)))"

definition mark_running :: "int \<Rightarrow> loom_db \<Rightarrow> loom_db" where
  "mark_running run_id db =
     db\<lparr>loom_runs := update_where (\<lambda>x. rn_id x = run_id \<and> rn_status x = RPending)
          (\<lambda>x. x\<lparr>rn_status := RRunning, rn_started_at := Some (now db), rn_updated_at := now db\<rparr>)
          (loom_runs db)\<rparr>"

definition advance_body :: "loom_env \<Rightarrow> advance \<Rightarrow> advance" where
  "advance_body env adv run_id db =
     (case find_where (\<lambda>r. rn_id r = run_id) (loom_runs db) of
        None \<Rightarrow> Some (Err (NotFound (''run '' @ show_int run_id)), db)
      | Some r \<Rightarrow>
          if terminal (rn_status r) then Some (Ok (), db)
          else
            let db1 = (if rn_status r = RPending then mark_running run_id db else db)
            in (case get_steps db1 run_id of
                  Inl e \<Rightarrow> Some (Err e, db1)
                | Inr steps \<Rightarrow>
                    if list_all (\<lambda>s. \<not> step_open s) steps
                    then
                      try_bind (add_log run_id None ''info'' ''run completed'' None
                          (upd_run run_id (\<lambda>x. x\<lparr>rn_status := RCompleted, rn_output := merged_output steps,
                             rn_completed_at := Some (now db), rn_updated_at := now db\<rparr>) db1))
                        (\<lambda>_ db2. Some (Ok (), notify ''tasks'' ''workflow.run.completed''
                             (JObj [(''run_id'', JNum (show_int run_id))]) db2))
                    else dispatch env adv run_id (ready_steps (rn_input r) steps) db1))"

fun advance_run :: "loom_env \<Rightarrow> nat \<Rightarrow> advance" where
  "advance_run env 0 run_id db = None"
| "advance_run env (Suc fuel) run_id db = advance_body env (advance_run env fuel) run_id db"

section \<open>Creating, cancelling and recovering runs\<close>

definition clamp :: "int \<Rightarrow> int \<Rightarrow> int \<Rightarrow> int" where
  "clamp lo hi x = max lo (min hi x)"

definition insert_step :: "int \<Rightarrow> step_def \<Rightarrow> loom_db \<Rightarrow> loom_db" where
  "insert_step run_id d db =
     db\<lparr>loom_steps := snd (insert_row (\<lambda>i. \<lparr>st_id = i, st_run_id = run_id, st_name = sd_name d,
         st_type = sd_type d, st_config = (case sd_config d of Some c \<Rightarrow> c | None \<Rightarrow> JObj []),
         st_status = SPending, st_input = JObj [], st_output = JObj [], st_error = None,
         st_depends_on = deps_of d, st_retry_count = 0,
         st_max_retries = clamp 0 MAX_STEP_RETRIES (case sd_max_retries d of Some m \<Rightarrow> m | None \<Rightarrow> 3),
         st_timeout_ms = (case sd_timeout_ms d of Some t \<Rightarrow> t | None \<Rightarrow> 30000),
         st_started_at = None, st_completed_at = None, st_created_at = now db\<rparr>) (loom_steps db))\<rparr>"

definition insert_run :: "int \<Rightarrow> json \<Rightarrow> loom_db \<Rightarrow> int \<times> loom_db" where
  "insert_run workflow_id input db =
     (case insert_row (\<lambda>i. \<lparr>rn_id = i, rn_workflow_id = workflow_id, rn_status = RPending,
         rn_input = input, rn_output = JObj [], rn_error = None, rn_started_at = None,
         rn_completed_at = None, rn_created_at = now db, rn_updated_at = now db\<rparr>) (loom_runs db) of
        (i, t) \<Rightarrow> (i, db\<lparr>loom_runs := t\<rparr>))"

definition create_run :: "advance \<Rightarrow> create_run_request \<Rightarrow> loom_db \<Rightarrow> run outcome" where
  "create_run adv req db =
     (case (if 0 < cr_workflow_id req then Ok (cr_workflow_id req)
            else (case cr_workflow_name req of
                    Some name \<Rightarrow> map_sum id wf_id (get_workflow_by_name db name)
                  | None \<Rightarrow> Err (InvalidInput ''workflow_id or workflow_name required''))) of
        Inl e \<Rightarrow> Some (Err e, db)
      | Inr workflow_id \<Rightarrow>
          (case find_where (\<lambda>w. wf_id w = workflow_id) (loom_workflows db) of
             None \<Rightarrow> Some (Err (NotFound (''workflow '' @ show_int (cr_workflow_id req))), db)
           | Some w \<Rightarrow>
               if wf_steps w = [] then Some (Err (InvalidInput ''workflow has no steps''), db)
               else
                 (case insert_run workflow_id (case cr_input req of Some i \<Rightarrow> i | None \<Rightarrow> JObj []) db of
                    (run_id, db1) \<Rightarrow>
                      try_bind (add_log run_id None ''info'' (''run created for workflow '' @ quoted (wf_name w)) None
                          (fold (insert_step run_id) (wf_steps w) db1))
                        (\<lambda>_ db2.
                          let db3 = notify ''tasks'' ''workflow.run.created''
                                (JObj [(''run_id'', JNum (show_int run_id)), (''status'', JStr ''pending''),
                                       (''workflow_id'', JNum (show_int workflow_id))]) db2
                          in (case adv run_id db3 of
                                None \<Rightarrow> None
                              | Some (_, db4) \<Rightarrow> Some (get_run db4 run_id, db4))))))"

definition cancel_run :: "int \<Rightarrow> loom_db \<Rightarrow> bool outcome" where
  "cancel_run run_id db =
     (case get_run db run_id of
        Inl e \<Rightarrow> Some (Err e, db)
      | Inr r \<Rightarrow>
          if terminal (rn_status r) then Some (Ok False, db)
          else
            let db1 = upd_run run_id (\<lambda>x. x\<lparr>rn_status := RCancelled, rn_updated_at := now db\<rparr>) db;
                db2 = db1\<lparr>loom_steps := update_where (\<lambda>s. st_run_id s = run_id \<and> step_open s)
                        (\<lambda>s. s\<lparr>st_status := SSkipped\<rparr>) (loom_steps db1)\<rparr>
            in try_bind (add_log run_id None ''info'' ''run cancelled'' None db2)
                 (\<lambda>_ db3. Some (Ok True, notify ''tasks'' ''workflow.run.cancelled''
                     (JObj [(''run_id'', JNum (show_int run_id))]) db3)))"

definition automated :: "string \<Rightarrow> bool" where
  "automated t \<longleftrightarrow> t \<in> {''transform'', ''webhook'', ''llm''}"

definition active_run_ids :: "loom_db \<Rightarrow> int list" where
  "active_run_ids db = map rn_id (select_where (\<lambda>r. rn_status r \<in> {RPending, RRunning}) (loom_runs db))"

definition rearm_orphans :: "loom_db \<Rightarrow> loom_db" where
  "rearm_orphans db =
     db\<lparr>loom_steps := update_where (\<lambda>s. st_status s = SRunning \<and> automated (st_type s)
            \<and> st_run_id s \<in> set (active_run_ids db))
          (\<lambda>s. s\<lparr>st_status := SPending, st_started_at := None\<rparr>) (loom_steps db)\<rparr>"

fun advance_each :: "advance \<Rightarrow> int list \<Rightarrow> nat \<Rightarrow> loom_db \<Rightarrow> nat outcome" where
  "advance_each adv [] advanced db = Some (Ok advanced, db)"
| "advance_each adv (i # ids) advanced db =
     (case adv i db of
        None \<Rightarrow> None
      | Some (Inr _, db') \<Rightarrow> advance_each adv ids (advanced + 1) db'
      | Some (Inl _, db') \<Rightarrow> advance_each adv ids advanced db')"

definition recover_inflight_runs :: "advance \<Rightarrow> loom_db \<Rightarrow> nat outcome" where
  "recover_inflight_runs adv db =
     (let db1 = rearm_orphans db in advance_each adv (active_run_ids db1) 0 db1)"

definition get_stats :: "loom_db \<Rightarrow> loom_stats" where
  "get_stats db =
     (let texts = map (run_status_text \<circ> rn_status) (trows (loom_runs db)) in
      \<lparr>ls_workflows = length (trows (loom_workflows db)), ls_runs = length (trows (loom_runs db)),
       ls_active_runs = count_where (\<lambda>r. rn_status r \<in> {RPending, RRunning}) (loom_runs db),
       ls_steps = length (trows (loom_steps db)),
       ls_runs_by_status = sort_key (\<lambda>(_, n). - int n)
         (map (\<lambda>t. (t, count_list texts t)) (sort (remdups texts)))\<rparr>)"

end
