(* ===== verification/Loom_Engine.thy ===== *)
theory Loom_Engine
  imports Loom
begin

text \<open>
  The behaviour of the Loom engine: the invariant of its tables, a cost that every claim, completion
  and retry lowers, and from both the total correctness of the re-entrant \<^verbatim>\<open>advance_run\<close>. The contract
  of the re-entrant call is the locale \<open>reentrant\<close>; its clients (dispatching, completing and failing a
  step) are verified once against the contract, and the contract is discharged for \<open>advance_run\<close> with
  enough fuel.
\<close>

section \<open>The invariant\<close>

abbreviation "all_steps db \<equiv> set (trows (loom_steps db))"
abbreviation "all_runs db \<equiv> set (trows (loom_runs db))"

definition dep_done :: "loom_db \<Rightarrow> int \<Rightarrow> string \<Rightarrow> bool" where
  "dep_done db rid d \<longleftrightarrow> (\<exists>s\<in>all_steps db. st_run_id s = rid \<and> st_name s = d \<and> st_status s = SCompleted)"

definition started :: "step_status \<Rightarrow> bool" where
  "started st \<longleftrightarrow> st \<in> {SRunning, SCompleted, SFailed}"

text \<open>How the status of a step and of its run agree.\<close>

definition step_agrees :: "run \<Rightarrow> step \<Rightarrow> bool" where
  "step_agrees r s \<longleftrightarrow>
     (step_open s \<longrightarrow> rn_status r \<notin> {RCompleted, RCancelled})
     \<and> (st_status s = SFailed \<longrightarrow> rn_status r = RFailed)
     \<and> (st_status s = SSkipped \<longrightarrow> rn_status r = RCancelled)"

definition retry_ok :: "step \<Rightarrow> bool" where
  "retry_ok s \<longleftrightarrow> 0 \<le> st_retry_count s \<and> st_retry_count s \<le> st_max_retries s
     \<and> st_max_retries s \<le> MAX_STEP_RETRIES"

definition good :: "loom_db \<Rightarrow> bool" where
  "good db \<longleftrightarrow> wf_table rn_id (loom_runs db) \<and> wf_table st_id (loom_steps db)
     \<and> (\<forall>s\<in>all_steps db. \<exists>r\<in>all_runs db. rn_id r = st_run_id s)
     \<and> (\<forall>s\<in>all_steps db. retry_ok s)
     \<and> (\<forall>s\<in>all_steps db. \<forall>s'\<in>all_steps db. st_run_id s = st_run_id s' \<and> st_name s = st_name s' \<longrightarrow> s = s')
     \<and> (\<forall>s\<in>all_steps db. \<forall>r\<in>all_runs db. rn_id r = st_run_id s \<longrightarrow> step_agrees r s)
     \<and> (\<forall>s\<in>all_steps db. started (st_status s) \<longrightarrow> (\<forall>d\<in>set (st_depends_on s). dep_done db (st_run_id s) d))"

text \<open>What no engine operation changes about a step or a run.\<close>

definition same_shape :: "step \<Rightarrow> step \<Rightarrow> bool" where
  "same_shape s s' \<longleftrightarrow> st_id s' = st_id s \<and> st_run_id s' = st_run_id s \<and> st_name s' = st_name s
     \<and> st_type s' = st_type s \<and> st_depends_on s' = st_depends_on s \<and> st_max_retries s' = st_max_retries s
     \<and> st_config s' = st_config s"

text \<open>A statement of the engine maps the step table by \<open>g\<close> and the run table by \<open>h\<close>.\<close>

definition remap :: "(step \<Rightarrow> step) \<Rightarrow> (run \<Rightarrow> run) \<Rightarrow> loom_db \<Rightarrow> loom_db \<Rightarrow> bool" where
  "remap g h db db' \<longleftrightarrow> trows (loom_steps db') = map g (trows (loom_steps db))
     \<and> tseq (loom_steps db') = tseq (loom_steps db)
     \<and> trows (loom_runs db') = map h (trows (loom_runs db)) \<and> tseq (loom_runs db') = tseq (loom_runs db)
     \<and> loom_workflows db' = loom_workflows db"

lemma good_remap:
  assumes good: "good db" and re: "remap g h db db'"
    and g: "\<And>s. same_shape s (g s)" and h: "\<And>r. rn_id (h r) = rn_id r"
    and retry: "\<And>s. s \<in> all_steps db \<Longrightarrow> retry_ok (g s)"
    and ag: "\<And>s r. s \<in> all_steps db \<Longrightarrow> r \<in> all_runs db \<Longrightarrow> rn_id r = st_run_id s \<Longrightarrow> step_agrees (h r) (g s)"
    and keep: "\<And>s. s \<in> all_steps db \<Longrightarrow> st_status s = SCompleted \<Longrightarrow> st_status (g s) = SCompleted"
    and deps: "\<And>s d. s \<in> all_steps db \<Longrightarrow> started (st_status (g s)) \<Longrightarrow> d \<in> set (st_depends_on s) \<Longrightarrow>
      dep_done db (st_run_id s) d"
  shows "good db'"
proof -
  have S: "all_steps db' = g ` all_steps db" and R: "all_runs db' = h ` all_runs db"
    using re by (auto simp: remap_def)
  have sh: "st_id (g s) = st_id s" "st_run_id (g s) = st_run_id s" "st_name (g s) = st_name s"
    "st_depends_on (g s) = st_depends_on s" for s
    using g [of s] by (auto simp: same_shape_def)
  have dn: "dep_done db rid d \<Longrightarrow> dep_done db' rid d" for rid d
    using keep sh by (fastforce simp: dep_done_def S)
  have wr: "wf_table rn_id (loom_runs db')" and ws: "wf_table st_id (loom_steps db')"
    using good re h sh(1) by (auto simp: good_def remap_def intro: wf_table_map_in)
  have "\<exists>r\<in>all_runs db'. rn_id r = st_run_id s" if "s \<in> all_steps db'" for s
    using that good h sh(2) by (fastforce simp: good_def S R)
  moreover have "s = s'" if "s \<in> all_steps db'" "s' \<in> all_steps db'" "st_run_id s = st_run_id s'" "st_name s = st_name s'"
    for s s'
  proof -
    from that obtain a b where ab: "a \<in> all_steps db" "b \<in> all_steps db" "s = g a" "s' = g b" by (auto simp: S)
    with that sh have "a = b" using good unfolding good_def by metis
    with ab show ?thesis by simp
  qed
  moreover have "step_agrees r s" if "s \<in> all_steps db'" "r \<in> all_runs db'" "rn_id r = st_run_id s" for s r
    using that ag h sh(2) by (auto simp: S R)
  moreover have "dep_done db' (st_run_id s) d" if "s \<in> all_steps db'" "started (st_status s)" "d \<in> set (st_depends_on s)" for s d
    using that deps dn sh by (auto simp: S)
  ultimately show ?thesis using wr ws retry unfolding good_def by (auto simp: S)
qed

section \<open>Cost\<close>

definition step_cost :: "step \<Rightarrow> nat" where
  "step_cost s = (case st_status s of
       SPending \<Rightarrow> 2 * nat (st_max_retries s - st_retry_count s) + 2
     | SRunning \<Rightarrow> 2 * nat (st_max_retries s - st_retry_count s) + 1
     | _ \<Rightarrow> 0)"

definition budget :: "loom_db \<Rightarrow> nat" where
  "budget db = sum_list (map step_cost (trows (loom_steps db)))"

lemma budget_remap_less:
  assumes "remap g h db db'" "\<And>s. s \<in> all_steps db \<Longrightarrow> step_cost (g s) \<le> step_cost s"
    and "s \<in> all_steps db" "step_cost (g s) < step_cost s"
  shows "budget db' < budget db"
proof -
  have "budget db' = sum_list (map (\<lambda>s. step_cost (g s)) (trows (loom_steps db)))"
    using assms(1) by (simp add: budget_def remap_def comp_def)
  also have "\<dots> < sum_list (map step_cost (trows (loom_steps db)))"
    using assms(2-4) by (rule sum_list_mono_strict)
  finally show ?thesis by (simp add: budget_def)
qed

lemma budget_remap_eq:
  "remap (\<lambda>s. s) h db db' \<Longrightarrow> budget db' = budget db"
  by (simp add: budget_def remap_def)

section \<open>Evolution of one run\<close>

definition step_evolves :: "int \<Rightarrow> step \<Rightarrow> step \<Rightarrow> bool" where
  "step_evolves rid s s' \<longleftrightarrow> same_shape s s' \<and> (st_status s = SCompleted \<longrightarrow> s' = s)
     \<and> (st_run_id s \<noteq> rid \<longrightarrow> s' = s)"

definition run_evolves :: "int \<Rightarrow> run \<Rightarrow> run \<Rightarrow> bool" where
  "run_evolves rid r r' \<longleftrightarrow> rn_id r' = rn_id r \<and> rn_workflow_id r' = rn_workflow_id r
     \<and> rn_input r' = rn_input r \<and> (terminal (rn_status r) \<longrightarrow> rn_status r' = rn_status r)
     \<and> (rn_status r' = RCancelled \<longrightarrow> rn_status r = RCancelled) \<and> (rn_id r \<noteq> rid \<longrightarrow> r' = r)"

definition evolves :: "int \<Rightarrow> loom_db \<Rightarrow> loom_db \<Rightarrow> bool" where
  "evolves rid db db' \<longleftrightarrow>
     list_all2 (step_evolves rid) (trows (loom_steps db)) (trows (loom_steps db'))
     \<and> list_all2 (run_evolves rid) (trows (loom_runs db)) (trows (loom_runs db'))
     \<and> tseq (loom_steps db') = tseq (loom_steps db) \<and> tseq (loom_runs db') = tseq (loom_runs db)
     \<and> loom_workflows db' = loom_workflows db"

lemma step_evolves_refl: "step_evolves rid s s"
  by (simp add: step_evolves_def same_shape_def)

lemma run_evolves_refl: "run_evolves rid r r"
  by (simp add: run_evolves_def)

lemma evolves_refl: "evolves rid db db"
  by (simp add: evolves_def list_all2_refl step_evolves_refl run_evolves_refl)

lemma step_evolves_trans: "step_evolves rid a b \<Longrightarrow> step_evolves rid b c \<Longrightarrow> step_evolves rid a c"
  by (auto simp: step_evolves_def same_shape_def)

lemma run_evolves_trans: "run_evolves rid a b \<Longrightarrow> run_evolves rid b c \<Longrightarrow> run_evolves rid a c"
  unfolding run_evolves_def by (elim conjE, intro conjI impI) metis+

lemma evolves_trans:
  assumes "evolves rid a b" "evolves rid b c" shows "evolves rid a c"
proof -
  have "list_all2 (step_evolves rid) (trows (loom_steps a)) (trows (loom_steps c))"
    using assms list_all2_trans [of "step_evolves rid" "step_evolves rid" "step_evolves rid"] step_evolves_trans
    unfolding evolves_def by metis
  moreover have "list_all2 (run_evolves rid) (trows (loom_runs a)) (trows (loom_runs c))"
    using assms list_all2_trans [of "run_evolves rid" "run_evolves rid" "run_evolves rid"] run_evolves_trans
    unfolding evolves_def by metis
  ultimately show ?thesis using assms by (simp add: evolves_def)
qed

lemma evolves_remap:
  assumes "remap g h db db'" "\<And>s. s \<in> all_steps db \<Longrightarrow> step_evolves rid s (g s)"
    and "\<And>r. r \<in> all_runs db \<Longrightarrow> run_evolves rid r (h r)"
  shows "evolves rid db db'"
  using assms by (auto simp: evolves_def remap_def list_all2_map2 list_all2_same)

lemma list_all2_ex1: "list_all2 R xs ys \<Longrightarrow> x \<in> set xs \<Longrightarrow> \<exists>y\<in>set ys. R x y"
  by (induction rule: list_all2_induct) auto

lemma list_all2_ex2: "list_all2 R xs ys \<Longrightarrow> y \<in> set ys \<Longrightarrow> \<exists>x\<in>set xs. R x y"
  by (induction rule: list_all2_induct) auto

lemma evolves_step: "evolves rid db db' \<Longrightarrow> s \<in> all_steps db \<Longrightarrow> \<exists>s'\<in>all_steps db'. step_evolves rid s s'"
  by (auto simp: evolves_def dest: list_all2_ex1)

lemma evolves_run: "evolves rid db db' \<Longrightarrow> r \<in> all_runs db \<Longrightarrow> \<exists>r'\<in>all_runs db'. run_evolves rid r r'"
  by (auto simp: evolves_def dest: list_all2_ex1)

lemma evolves_dep_done: "evolves rid db db' \<Longrightarrow> dep_done db r d \<Longrightarrow> dep_done db' r d"
  unfolding dep_done_def by (metis evolves_step step_evolves_def)

section \<open>Readiness\<close>

definition has_run :: "loom_db \<Rightarrow> int \<Rightarrow> bool" where
  "has_run db rid \<longleftrightarrow> (\<exists>r\<in>all_runs db. rn_id r = rid)"

definition run_terminal :: "loom_db \<Rightarrow> int \<Rightarrow> bool" where
  "run_terminal db rid \<longleftrightarrow> (\<exists>r\<in>all_runs db. rn_id r = rid \<and> terminal (rn_status r))"

definition is_ready :: "loom_db \<Rightarrow> step \<Rightarrow> bool" where
  "is_ready db s \<longleftrightarrow> st_status s = SPending \<and> (\<forall>d\<in>set (st_depends_on s). dep_done db (st_run_id s) d)"

definition has_open :: "loom_db \<Rightarrow> int \<Rightarrow> bool" where
  "has_open db rid \<longleftrightarrow> (\<exists>s\<in>all_steps db. st_run_id s = rid \<and> step_open s)"

text \<open>Nothing is left for the engine to do in a run: it is finished, or it has open steps and none is ready.\<close>

definition quiescent :: "loom_db \<Rightarrow> int \<Rightarrow> bool" where
  "quiescent db rid \<longleftrightarrow> run_terminal db rid \<or>
     has_open db rid \<and> (\<forall>s\<in>all_steps db. st_run_id s = rid \<longrightarrow> \<not> is_ready db s)"

text \<open>No automated step of a run is left in flight, but perhaps for one.\<close>

definition idle_but :: "loom_db \<Rightarrow> int \<Rightarrow> int \<Rightarrow> bool" where
  "idle_but db rid i \<longleftrightarrow> (\<forall>s\<in>all_steps db. st_run_id s = rid \<and> automated (st_type s) \<and> st_id s \<noteq> i
     \<longrightarrow> st_status s \<noteq> SRunning)"

definition idle :: "loom_db \<Rightarrow> int \<Rightarrow> bool" where
  "idle db rid \<longleftrightarrow> (\<forall>s\<in>all_steps db. st_run_id s = rid \<and> automated (st_type s) \<longrightarrow> st_status s \<noteq> SRunning)"

lemma evolves_has_run: "evolves rid db db' \<Longrightarrow> has_run db r \<Longrightarrow> has_run db' r"
  by (fastforce simp: has_run_def run_evolves_def dest: evolves_run)

lemma evolves_terminal: "evolves rid db db' \<Longrightarrow> run_terminal db r \<Longrightarrow> run_terminal db' r"
  by (fastforce simp: run_terminal_def run_evolves_def dest: evolves_run)

lemma good_unique_run:
  "good db \<Longrightarrow> r \<in> all_runs db \<Longrightarrow> r' \<in> all_runs db \<Longrightarrow> rn_id r = rn_id r' \<Longrightarrow> r = r'"
  by (auto simp: good_def dest: wf_table_unique)

lemma good_unique_step:
  "good db \<Longrightarrow> s \<in> all_steps db \<Longrightarrow> s' \<in> all_steps db \<Longrightarrow> st_id s = st_id s' \<Longrightarrow> s = s'"
  by (auto simp: good_def dest: wf_table_unique)

lemma good_names:
  "good db \<Longrightarrow> s \<in> all_steps db \<Longrightarrow> s' \<in> all_steps db \<Longrightarrow> st_run_id s = st_run_id s' \<Longrightarrow>
     st_name s = st_name s' \<Longrightarrow> s = s'"
  unfolding good_def by blast

lemma good_find_run: "good db \<Longrightarrow> r \<in> all_runs db \<Longrightarrow> find_where (\<lambda>x. rn_id x = rn_id r) (loom_runs db) = Some r"
  by (auto simp: good_def intro: wf_table_find)

lemma good_find_step: "good db \<Longrightarrow> s \<in> all_steps db \<Longrightarrow> find_where (\<lambda>x. st_id x = st_id s) (loom_steps db) = Some s"
  by (auto simp: good_def intro: wf_table_find)

lemma set_steps_of: "set (steps_of db rid) = {s \<in> all_steps db. st_run_id s = rid}"
  by (auto simp: steps_of_def select_where_def)

lemma step_by_name_Some:
  "step_by_name steps n = Some s \<Longrightarrow> s \<in> set steps \<and> st_name s = n"
  unfolding step_by_name_def by (drule find_Some_in_set) simp

lemma deps_met_iff:
  assumes "good db" "st_run_id s = rid"
  shows "deps_met (steps_of db rid) s \<longleftrightarrow> (\<forall>d\<in>set (st_depends_on s). dep_done db rid d)"
proof -
  have "(case step_by_name (steps_of db rid) d of None \<Rightarrow> False | Some dep \<Rightarrow> st_status dep = SCompleted)
      \<longleftrightarrow> dep_done db rid d" for d
  proof (cases "step_by_name (steps_of db rid) d")
    case None
    then have "\<forall>x\<in>set (steps_of db rid). st_name x \<noteq> d"
      by (simp add: step_by_name_def find_None_iff_all)
    with None show ?thesis by (auto simp: dep_done_def set_steps_of)
  next
    case (Some x)
    then have x: "x \<in> all_steps db" "st_run_id x = rid" "st_name x = d"
      by (auto dest: step_by_name_Some simp: set_steps_of)
    have "y = x" if "y \<in> all_steps db" "st_run_id y = rid" "st_name y = d" for y
      by (rule good_names [OF assms(1) that(1) x(1)]) (simp_all only: that x)
    then have "dep_done db rid d \<longleftrightarrow> st_status x = SCompleted"
      using x unfolding dep_done_def by blast
    with Some show ?thesis by simp
  qed
  then show ?thesis by (simp add: deps_met_def list_all_iff)
qed

section \<open>Statements that leave steps and runs alone\<close>

definition same_core :: "loom_db \<Rightarrow> loom_db \<Rightarrow> bool" where
  "same_core db db' \<longleftrightarrow> loom_steps db' = loom_steps db \<and> loom_runs db' = loom_runs db
     \<and> loom_workflows db' = loom_workflows db"

lemma same_core_refl [simp]: "same_core db db"
  by (simp add: same_core_def)

lemma same_core_transfer:
  assumes "same_core db db'"
  shows "good db' = good db" "budget db' = budget db" "evolves rid a db' = evolves rid a db"
    "evolves rid db' a = evolves rid db a"
    "has_run db' rid = has_run db rid" "run_terminal db' rid = run_terminal db rid"
    "is_ready db' s = is_ready db s" "quiescent db' rid = quiescent db rid" "dep_done db' rid d = dep_done db rid d"
    "get_step db' i = get_step db i" "get_run db' i = get_run db i" "steps_of db' rid = steps_of db rid"
    "idle db' rid = idle db rid" "idle_but db' rid i = idle_but db rid i"
  using assms
  by (simp_all add: same_core_def idle_def idle_but_def good_def budget_def evolves_def has_run_def run_terminal_def is_ready_def
      quiescent_def has_open_def dep_done_def get_step_def get_run_def steps_of_def)

lemma add_log_ok:
  assumes "has_run db rid" "case sid of None \<Rightarrow> True | Some i \<Rightarrow> \<exists>s\<in>all_steps db. st_id s = i"
  shows "\<exists>db'. add_log rid sid level msg data db = Some (Ok (), db') \<and> same_core db db'"
proof -
  have "find_where (\<lambda>r. rn_id r = rid) (loom_runs db) \<noteq> None" using assms(1) by (auto simp: has_run_def find_where_None)
  moreover have "\<not> (case sid of None \<Rightarrow> False | Some i \<Rightarrow> find_where (\<lambda>x. st_id x = i) (loom_steps db) = None)"
    using assms(2) by (auto simp: find_where_None split: option.splits)
  ultimately show ?thesis by (auto simp: add_log_def same_core_def)
qed

lemma notify_core: "same_core db (notify c a p db)"
  by (simp add: notify_def publish_internal_def same_core_def publish_event_def Let_def case_prod_unfold
      split: sum.splits)

lemma llm_loop_core: "same_core db (snd (llm_loop env c u rq k n e db))"
  by (induction env c u rq k n e db rule: llm_loop.induct)
     (auto simp: same_core_def Let_def split: attempt.splits)

lemma webhook_attempt_core: "same_core db (snd (webhook_attempt env i c inp t db))"
  by (auto simp: webhook_attempt_def same_core_def Let_def split: option.splits list.splits sum.splits)

lemma llm_attempt_core: "same_core db (snd (llm_attempt env c inp t db))"
proof -
  have "same_core db (db\<lparr>net_calls := n\<rparr>)" for n by (simp add: same_core_def)
  moreover have "same_core db (snd (llm_loop env c u rq k n e (db\<lparr>net_calls := m\<rparr>)))" for u rq k n e m
    using llm_loop_core [of "db\<lparr>net_calls := m\<rparr>" env c u rq k n e] by (simp add: same_core_def)
  ultimately show ?thesis
    by (auto simp: llm_attempt_def Let_def split: option.splits list.splits sum.splits)
qed

section \<open>Single statements\<close>

lemma remap_upd_step: "remap (\<lambda>x. if st_id x = i then f x else x) (\<lambda>r. r) db (upd_step i f db)"
  by (simp add: remap_def upd_step_def table_simps)

lemma step_openD:
  assumes "good db" "s \<in> all_steps db" "step_open s" "r \<in> all_runs db" "rn_id r = st_run_id s"
  shows "rn_status r \<notin> {RCompleted, RCancelled}"
  using assms unfolding good_def step_agrees_def by blast

lemma good_step_deps:
  "good db \<Longrightarrow> s \<in> all_steps db \<Longrightarrow> started (st_status s) \<Longrightarrow> d \<in> set (st_depends_on s) \<Longrightarrow>
     dep_done db (st_run_id s) d"
  unfolding good_def by blast

lemma good_agrees:
  "good db \<Longrightarrow> s \<in> all_steps db \<Longrightarrow> r \<in> all_runs db \<Longrightarrow> rn_id r = st_run_id s \<Longrightarrow> step_agrees r s"
  unfolding good_def by blast

lemma good_retry: "good db \<Longrightarrow> s \<in> all_steps db \<Longrightarrow> retry_ok s"
  unfolding good_def by blast

lemma good_step_run: "good db \<Longrightarrow> s \<in> all_steps db \<Longrightarrow> has_run db (st_run_id s)"
  unfolding good_def has_run_def by blast

text \<open>
  Changing one open step: it stays open in a run that is neither completed nor cancelled, or becomes
  completed; if it is started afterwards its dependencies are done; and it costs less than before.
\<close>

lemma upd_open_step:
  assumes good: "good db" and s: "s \<in> all_steps db" and op: "step_open s"
    and shape: "\<And>x. same_shape x (f x)" and retry: "retry_ok (f s)"
    and st: "st_status (f s) \<in> {SPending, SRunning, SCompleted}"
    and cost: "step_cost (f s) < step_cost s"
    and deps: "started (st_status (f s)) \<Longrightarrow> \<forall>d\<in>set (st_depends_on s). dep_done db (st_run_id s) d"
  shows "good (upd_step (st_id s) f db) \<and> evolves (st_run_id s) db (upd_step (st_id s) f db)
    \<and> budget (upd_step (st_id s) f db) < budget db \<and> f s \<in> all_steps (upd_step (st_id s) f db)"
proof -
  define g where "g = (\<lambda>x. if st_id x = st_id s then f x else x)"
  have re: "remap g (\<lambda>r. r) db (upd_step (st_id s) f db)" unfolding g_def by (rule remap_upd_step)
  have only: "x = s" if "x \<in> all_steps db" "st_id x = st_id s" for x
    using good_unique_step [OF good that(1) s that(2)] .
  have gs: "g x = (if x = s then f s else x)" if "x \<in> all_steps db" for x
    using only that by (auto simp: g_def)
  have sh: "same_shape x (g x)" for x using shape by (simp add: g_def same_shape_def)
  have nc: "st_status s \<noteq> SCompleted" using op by (auto simp: step_open_def)
  have "good (upd_step (st_id s) f db)"
  proof (rule good_remap [OF good re sh])
    show "retry_ok (g x)" if "x \<in> all_steps db" for x using that retry good_retry [OF good] by (simp add: gs)
    show "step_agrees r (g x)" if "x \<in> all_steps db" "r \<in> all_runs db" "rn_id r = st_run_id x" for x r
      using that good_agrees [OF good that(1,2)] step_openD [OF good s op] st
      by (auto simp: gs step_agrees_def)
    show "dep_done db (st_run_id x) d" if "x \<in> all_steps db" "started (st_status (g x))" "d \<in> set (st_depends_on x)" for x d
      using that deps good_step_deps [OF good that(1)] by (auto simp: gs split: if_splits)
    show "st_status (g x) = SCompleted" if "x \<in> all_steps db" "st_status x = SCompleted" for x
      using that nc by (auto simp: gs)
  qed simp
  moreover have "evolves (st_run_id s) db (upd_step (st_id s) f db)"
  proof (rule evolves_remap [OF re])
    show "step_evolves (st_run_id s) x (g x)" if "x \<in> all_steps db" for x
      using that shape nc by (auto simp: gs step_evolves_def same_shape_def)
  qed (rule run_evolves_refl)
  moreover have "budget (upd_step (st_id s) f db) < budget db"
    by (rule budget_remap_less [OF re _ s]) (use cost s in \<open>auto simp: gs\<close>)
  moreover have "f s \<in> all_steps (upd_step (st_id s) f db)"
    using s by (force simp: upd_step_def table_simps)
  ultimately show ?thesis by blast
qed

lemma idle_upd:
  assumes "idle_but db rid i" "\<And>x. same_shape x (f x)" "\<And>x. st_status (f x) \<noteq> SRunning"
  shows "idle (upd_step i f db) rid"
  using assms by (auto simp: idle_def idle_but_def upd_step_def table_simps same_shape_def)

lemma idle_upd_run: "idle (upd_run i h db) rid = idle db rid"
  by (simp add: idle_def upd_run_def)

text \<open>Failing for good: the step and its run become failed together.\<close>

lemma upd_fail_step:
  assumes good: "good db" and s: "s \<in> all_steps db" and op: "step_open s"
    and shape: "\<And>x. same_shape x (f x)" and st: "st_status (f s) = SFailed" and retry: "retry_ok (f s)"
    and run: "st_status s = SRunning"
    and h: "\<And>r. rn_id (h r) = rn_id r \<and> rn_workflow_id (h r) = rn_workflow_id r \<and> rn_input (h r) = rn_input r
      \<and> rn_status (h r) = RFailed"
  shows "good (upd_run (st_run_id s) h (upd_step (st_id s) f db))
    \<and> evolves (st_run_id s) db (upd_run (st_run_id s) h (upd_step (st_id s) f db))
    \<and> budget (upd_run (st_run_id s) h (upd_step (st_id s) f db)) < budget db
    \<and> run_terminal (upd_run (st_run_id s) h (upd_step (st_id s) f db)) (st_run_id s)
    \<and> f s \<in> all_steps (upd_run (st_run_id s) h (upd_step (st_id s) f db))"
proof -
  let ?db = "upd_run (st_run_id s) h (upd_step (st_id s) f db)"
  define g where "g = (\<lambda>x. if st_id x = st_id s then f x else x)"
  define k where "k = (\<lambda>r. if rn_id r = st_run_id s then h r else r)"
  have re: "remap g k db ?db" by (simp add: remap_def g_def k_def upd_step_def upd_run_def table_simps)
  have only: "x = s" if "x \<in> all_steps db" "st_id x = st_id s" for x
    using good_unique_step [OF good that(1) s that(2)] .
  have gs: "g x = (if x = s then f s else x)" if "x \<in> all_steps db" for x
    using only that by (auto simp: g_def)
  have sh: "same_shape x (g x)" for x using shape by (simp add: g_def same_shape_def)
  have kid: "rn_id (k r) = rn_id r" for r using h by (simp add: k_def)
  have "good ?db"
  proof (rule good_remap [OF good re sh kid])
    show "retry_ok (g x)" if "x \<in> all_steps db" for x using that retry good_retry [OF good] by (simp add: gs)
    show "step_agrees (k r) (g x)" if x: "x \<in> all_steps db" and r: "r \<in> all_runs db" "rn_id r = st_run_id x" for x r
    proof (cases "rn_id r = st_run_id s")
      case True
      with step_openD [OF good s op r(1)] have "rn_status r \<noteq> RCancelled" by simp
      with good_agrees [OF good x r] have "st_status x \<noteq> SSkipped" by (auto simp: step_agrees_def)
      with True st h show ?thesis by (auto simp: k_def gs [OF x] step_agrees_def)
    next
      case False
      with r have "x \<noteq> s" by auto
      with False good_agrees [OF good x r] show ?thesis by (simp add: k_def gs [OF x])
    qed
    show "dep_done db (st_run_id x) d" if "x \<in> all_steps db" "started (st_status (g x))" "d \<in> set (st_depends_on x)" for x d
    proof -
      have "started (st_status x)" using that run by (auto simp: gs started_def split: if_splits)
      then show ?thesis using that good_step_deps [OF good] by blast
    qed
    show "st_status (g x) = SCompleted" if "x \<in> all_steps db" "st_status x = SCompleted" for x
      using that run by (auto simp: gs)
  qed
  moreover have "evolves (st_run_id s) db ?db"
  proof (rule evolves_remap [OF re])
    show "step_evolves (st_run_id s) x (g x)" if "x \<in> all_steps db" for x
      using that shape run by (auto simp: gs step_evolves_def same_shape_def)
    show "run_evolves (st_run_id s) r (k r)" if "r \<in> all_runs db" for r
      using that h step_openD [OF good s op that] by (auto simp: k_def run_evolves_def terminal_def)
  qed
  moreover have "budget ?db < budget db"
    by (rule budget_remap_less [OF re _ s]) (use st s run in \<open>auto simp: gs step_cost_def split: step_status.splits\<close>)
  moreover have "run_terminal ?db (st_run_id s)"
  proof -
    from good_step_run [OF good s] obtain r where r: "r \<in> all_runs db" "rn_id r = st_run_id s"
      by (auto simp: has_run_def)
    then have "h r \<in> all_runs ?db" by (force simp: upd_run_def upd_step_def table_simps)
    then show ?thesis unfolding run_terminal_def terminal_def
      by (intro bexI [of _ "h r"]) (use h r(2) in auto)
  qed
  moreover have "f s \<in> all_steps ?db" using s by (force simp: upd_run_def upd_step_def table_simps)
  ultimately show ?thesis by blast
qed

section \<open>Claiming ready steps\<close>

definition todo :: "loom_db \<Rightarrow> int \<Rightarrow> ready_step list \<Rightarrow> bool" where
  "todo db rid rs \<longleftrightarrow> (\<forall>r\<in>set rs. \<exists>s\<in>all_steps db. st_id s = rs_id r \<and> st_run_id s = rid \<and> st_type s = rs_type r
     \<and> (\<forall>d\<in>set (st_depends_on s). dep_done db rid d))"

definition covered :: "loom_db \<Rightarrow> int \<Rightarrow> ready_step list \<Rightarrow> bool" where
  "covered db rid rs \<longleftrightarrow> run_terminal db rid \<or> has_open db rid \<and>
     (\<forall>s\<in>all_steps db. st_run_id s = rid \<and> is_ready db s \<longrightarrow> st_id s \<in> rs_id ` set rs)"

lemma todo_evolves:
  assumes "todo db rid rs" "evolves rid db db'" shows "todo db' rid rs"
  unfolding todo_def
proof
  fix r assume "r \<in> set rs"
  with assms(1) obtain s where s: "s \<in> all_steps db" "st_id s = rs_id r" "st_run_id s = rid" "st_type s = rs_type r"
    "\<forall>d\<in>set (st_depends_on s). dep_done db rid d" unfolding todo_def by blast
  from evolves_step [OF assms(2) s(1)] obtain s' where s': "s' \<in> all_steps db'" "same_shape s s'"
    by (auto simp: step_evolves_def)
  have "\<forall>d\<in>set (st_depends_on s'). dep_done db' rid d"
    using s(5) s'(2) evolves_dep_done [OF assms(2)] by (auto simp: same_shape_def)
  with s s' show "\<exists>s\<in>all_steps db'. st_id s = rs_id r \<and> st_run_id s = rid \<and> st_type s = rs_type r
     \<and> (\<forall>d\<in>set (st_depends_on s). dep_done db' rid d)" unfolding same_shape_def by (intro bexI [of _ s']) auto
qed

lemma quiescent_covered: "quiescent db rid \<Longrightarrow> covered db rid rs"
  by (auto simp: quiescent_def covered_def)

text \<open>The conditional update of the claim, on a step that is pending.\<close>

definition claim :: "ready_step \<Rightarrow> loom_db \<Rightarrow> loom_db" where
  "claim r db = db\<lparr>loom_steps := update_where (\<lambda>s. st_id s = rs_id r \<and> st_status s = SPending)
     (\<lambda>s. s\<lparr>st_status := SRunning, st_input := rs_input r, st_started_at := Some (now db)\<rparr>) (loom_steps db)\<rparr>"

lemma claim_ok:
  assumes good: "good db" and s: "s \<in> all_steps db" "st_id s = rs_id r" "st_run_id s = rid" "st_status s = SPending"
    and deps: "\<forall>d\<in>set (st_depends_on s). dep_done db rid d"
  shows "\<exists>s'. s' \<in> all_steps (claim r db) \<and> st_status s' = SRunning \<and> same_shape s s'
    \<and> good (claim r db) \<and> evolves rid db (claim r db) \<and> budget (claim r db) < budget db
    \<and> (idle db rid \<longrightarrow> idle_but (claim r db) rid (rs_id r))
    \<and> (\<forall>x\<in>all_steps (claim r db). st_status x \<noteq> SRunning \<longrightarrow> x \<in> all_steps db \<and> st_id x \<noteq> rs_id r)"
proof -
  let ?f = "\<lambda>s. s\<lparr>st_status := SRunning, st_input := rs_input r, st_started_at := Some (now db)\<rparr>"
  have only: "x = s" if "x \<in> all_steps db" "st_id x = st_id s" for x
    using good_unique_step [OF good that(1) s(1) that(2)] .
  have "map (\<lambda>x. if st_id x = rs_id r \<and> st_status x = SPending then ?f x else x) (trows (loom_steps db))
      = map (\<lambda>x. if st_id x = st_id s then ?f x else x) (trows (loom_steps db))"
  proof (rule map_cong [OF refl])
    fix x assume "x \<in> all_steps db"
    with only [of x] s show "(if st_id x = rs_id r \<and> st_status x = SPending then ?f x else x)
        = (if st_id x = st_id s then ?f x else x)" by (cases "st_id x = st_id s") simp_all
  qed
  then have eq: "claim r db = upd_step (st_id s) ?f db"
    by (simp add: claim_def upd_step_def update_where_def)
  have op: "step_open s" using s by (simp add: step_open_def)
  have u: "good (claim r db)" "evolves rid db (claim r db)" "budget (claim r db) < budget db" "?f s \<in> all_steps (claim r db)"
    using upd_open_step [OF good s(1) op, of ?f] good_retry [OF good s(1)] s(3,4) deps unfolding eq
    by (simp_all add: same_shape_def retry_ok_def step_cost_def)
  have rows: "all_steps (claim r db) = (\<lambda>x. if st_id x = rs_id r then ?f x else x) ` all_steps db"
    unfolding eq by (simp add: upd_step_def table_simps s(2))
  have "idle_but (claim r db) rid (rs_id r)" if "idle db rid"
    using that by (auto simp: idle_def idle_but_def rows split: if_splits)
  moreover have "\<forall>x\<in>all_steps (claim r db). st_status x \<noteq> SRunning \<longrightarrow> x \<in> all_steps db \<and> st_id x \<noteq> rs_id r"
    by (auto simp: rows split: if_splits)
  ultimately show ?thesis using u by (intro exI [of _ "?f s"]) (auto simp: same_shape_def)
qed

lemma covered_claim:
  assumes cov: "covered db rid (r # rs)" and ev: "evolves rid db (claim r db)"
    and old: "\<forall>x\<in>all_steps (claim r db). st_status x \<noteq> SRunning \<longrightarrow> x \<in> all_steps db \<and> st_id x \<noteq> rs_id r"
    and s: "s \<in> all_steps (claim r db)" "st_run_id s = rid" "st_status s = SRunning"
  shows "covered (claim r db) rid rs"
proof (cases "run_terminal db rid")
  case True
  then show ?thesis using evolves_terminal [OF ev] by (simp add: covered_def)
next
  case False
  have "st_id x \<in> rs_id ` set rs" if "x \<in> all_steps (claim r db)" "st_run_id x = rid" "is_ready (claim r db) x" for x
  proof -
    have x: "x \<in> all_steps db" "st_id x \<noteq> rs_id r" "st_status x = SPending"
      using that old by (auto simp: is_ready_def)
    have "dep_done db i d" if "dep_done (claim r db) i d" for i d
      using that old unfolding dep_done_def by fastforce
    then have "is_ready db x" using that(3) by (auto simp: is_ready_def)
    with cov False x that(2) show ?thesis by (auto simp: covered_def)
  qed
  moreover have "has_open (claim r db) rid" using s by (auto simp: has_open_def step_open_def)
  ultimately show ?thesis by (simp add: covered_def)
qed

lemma dispatch_Cons:
  "dispatch env adv run_id (r # rs) db =
     (if count_where (\<lambda>s. st_id s = rs_id r \<and> st_status s = SPending) (loom_steps db) = 0
      then dispatch env adv run_id rs db
      else try_bind (add_log run_id (Some (rs_id r)) ''info'' (''step '' @ quoted (rs_name r) @ '' started'') None (claim r db))
             (\<lambda>_ db2. try_bind (execute_step env adv r db2) (\<lambda>_ db3. dispatch env adv run_id rs db3)))"
  by (simp add: claim_def)

section \<open>The contract of the re-entrant call\<close>

text \<open>
  Within its bound, a call succeeds, keeps the invariant, changes only its own run, never revives a
  completed step or a finished run, does not raise the cost, and leaves nothing to dispatch.
\<close>

locale reentrant =
  fixes adv :: advance and bound :: nat
  assumes adv_ok: "good db \<Longrightarrow> has_run db rid \<Longrightarrow> budget db < bound \<Longrightarrow>
     \<exists>db'. adv rid db = Some (Ok (), db') \<and> good db' \<and> evolves rid db db' \<and> budget db' \<le> budget db
       \<and> quiescent db' rid \<and> (idle db rid \<longrightarrow> idle db' rid)"
begin

lemma adv_after_log:
  assumes "good db1" "s \<in> all_steps db1" "budget db1 < bound"
  shows "\<exists>db' s'. try_bind (add_log (st_run_id s) (Some (st_id s)) level msg data db1)
       (\<lambda>_ db1. try_bind (adv (st_run_id s) db1) (\<lambda>_ db2. Some (get_step db2 (st_id s), db2)))
     = Some (Ok s', db') \<and> good db' \<and> evolves (st_run_id s) db1 db' \<and> budget db' \<le> budget db1
       \<and> quiescent db' (st_run_id s) \<and> (idle db1 (st_run_id s) \<longrightarrow> idle db' (st_run_id s))"
proof -
  from add_log_ok [of db1 "st_run_id s" "Some (st_id s)"] good_step_run [OF assms(1,2)] assms(2)
  obtain db2 where l: "add_log (st_run_id s) (Some (st_id s)) level msg data db1 = Some (Ok (), db2)"
    and c: "same_core db1 db2" by force
  note tr = same_core_transfer [OF c]
  from adv_ok [of db2 "st_run_id s"] assms good_step_run [OF assms(1,2)] tr obtain db3 where
    a: "adv (st_run_id s) db2 = Some (Ok (), db3)" "good db3" "evolves (st_run_id s) db2 db3"
       "budget db3 \<le> budget db2" "quiescent db3 (st_run_id s)"
       "idle db2 (st_run_id s) \<longrightarrow> idle db3 (st_run_id s)" by auto
  have ev: "evolves (st_run_id s) db1 db3" using a(3) tr by simp
  from evolves_step [OF ev assms(2)] obtain s' where "s' \<in> all_steps db3" "st_id s' = st_id s"
    by (auto simp: step_evolves_def same_shape_def)
  then have "get_step db3 (st_id s) = Ok s'" using good_find_step [OF a(2), of s'] by (simp add: get_step_def)
  with l a ev tr show ?thesis by (auto simp: try_bind_def)
qed

lemma complete_step_ok:
  assumes good: "good db" and s: "s \<in> all_steps db" and run: "st_status s = SRunning"
    and bud: "budget db \<le> bound"
  shows "\<exists>db' s'. complete_step adv (st_id s) out db = Some (Ok s', db') \<and> good db'
    \<and> evolves (st_run_id s) db db' \<and> budget db' < budget db \<and> quiescent db' (st_run_id s)
    \<and> (idle_but db (st_run_id s) (st_id s) \<longrightarrow> idle db' (st_run_id s))"
proof -
  let ?f = "\<lambda>x. x\<lparr>st_status := SCompleted, st_output := out, st_completed_at := Some (now db)\<rparr>"
  let ?db = "upd_step (st_id s) ?f db"
  have op: "step_open s" using run by (simp add: step_open_def)
  have u: "good ?db" "evolves (st_run_id s) db ?db" "budget ?db < budget db" "?f s \<in> all_steps ?db"
    using upd_open_step [OF good s op, of ?f] good_retry [OF good s] good_step_deps [OF good s] run
    by (auto simp: same_shape_def retry_ok_def step_cost_def started_def)
  from good_step_run [OF good s] obtain r where "r \<in> all_runs db" "rn_id r = st_run_id s" by (auto simp: has_run_def)
  then have gr: "get_run db (st_run_id s) = Ok r" using good_find_run [OF good] by (metis get_run_def option.simps(5))
  have gs: "get_step db (st_id s) = Ok s" using good_find_step [OF good s] by (simp add: get_step_def)
  have "budget ?db < bound" using u(3) bud by simp
  moreover have "idle_but db (st_run_id s) (st_id s) \<longrightarrow> idle ?db (st_run_id s)"
    by (intro impI, rule idle_upd) (auto simp: same_shape_def)
  ultimately show ?thesis using adv_after_log [OF u(1) u(4), of "''info''"
      "''step '' @ quoted (st_name s) @ '' completed''" "Some (JObj [(''output'', out)])"] u gr gs run
    by (auto simp: complete_step_def intro: evolves_trans)
qed

lemma fail_step_ok:
  assumes good: "good db" and s: "s \<in> all_steps db" and run: "st_status s = SRunning"
    and bud: "budget db \<le> bound"
  shows "\<exists>db' s'. fail_step adv (st_id s) msg db = Some (Ok s', db') \<and> good db'
    \<and> evolves (st_run_id s) db db' \<and> budget db' < budget db \<and> quiescent db' (st_run_id s)
    \<and> (idle_but db (st_run_id s) (st_id s) \<longrightarrow> idle db' (st_run_id s))"
proof -
  have op: "step_open s" using run by (simp add: step_open_def)
  from good_step_run [OF good s] obtain r where "r \<in> all_runs db" "rn_id r = st_run_id s" by (auto simp: has_run_def)
  then have gr: "get_run db (st_run_id s) = Ok r" using good_find_run [OF good] by (metis get_run_def option.simps(5))
  have gs: "get_step db (st_id s) = Ok s" using good_find_step [OF good s] by (simp add: get_step_def)
  show ?thesis
  proof (cases "st_retry_count s < st_max_retries s")
    case True
    let ?f = "\<lambda>x. x\<lparr>st_status := SPending, st_retry_count := st_retry_count x + 1, st_error := Some msg,
        st_started_at := None\<rparr>"
    let ?db = "upd_step (st_id s) ?f db"
    have u: "good ?db" "evolves (st_run_id s) db ?db" "budget ?db < budget db" "?f s \<in> all_steps ?db"
      using upd_open_step [OF good s op, of ?f] good_retry [OF good s] run True
      by (auto simp: same_shape_def retry_ok_def step_cost_def started_def)
    have "budget ?db < bound" using u(3) bud by simp
    moreover have "idle_but db (st_run_id s) (st_id s) \<longrightarrow> idle ?db (st_run_id s)"
      by (intro impI, rule idle_upd) (auto simp: same_shape_def)
    ultimately show ?thesis
      using adv_after_log [OF u(1) u(4), of "''warn''" "''step '' @ quoted (st_name s) @ '' failed, retrying (''
        @ show_int (st_retry_count s + 1) @ ''/'' @ show_int (st_max_retries s) @ '')''"
        "Some (JObj [(''error'', JStr msg)])"] u gr gs run True
      by (auto simp: fail_step_def intro: evolves_trans)
  next
    case False
    let ?f = "\<lambda>x. x\<lparr>st_status := SFailed, st_error := Some msg, st_completed_at := Some (now db)\<rparr>"
    let ?h = "\<lambda>r. r\<lparr>rn_status := RFailed, rn_error := Some msg, rn_completed_at := Some (now db), rn_updated_at := now db\<rparr>"
    let ?db = "upd_run (st_run_id s) ?h (upd_step (st_id s) ?f db)"
    have u: "good ?db" "evolves (st_run_id s) db ?db" "budget ?db < budget db"
        "run_terminal ?db (st_run_id s)" "?f s \<in> all_steps ?db"
      using upd_fail_step [OF good s op, of ?f ?h] good_retry [OF good s] run
      by (auto simp: same_shape_def retry_ok_def)
    from add_log_ok [of ?db "st_run_id s" "Some (st_id s)"] evolves_has_run [OF u(2) good_step_run [OF good s]] u(5)
    obtain db2 where l: "add_log (st_run_id s) (Some (st_id s)) ''error''
        (''step '' @ quoted (st_name s) @ '' failed (max retries exhausted)'') (Some (JObj [(''error'', JStr msg)])) ?db
        = Some (Ok (), db2)" and c: "same_core ?db db2" by force
    define db3 where "db3 = notify ''alerts'' ''workflow.run.failed''
        (JObj [(''error'', JStr ''retries exhausted''), (''run_id'', JNum (show_int (st_run_id s)))]) db2"
    have c3: "same_core ?db db3" using c notify_core [of db2] by (simp add: db3_def same_core_def)
    note tr = same_core_transfer [OF c3]
    have "get_step ?db (st_id s) = Ok (?f s)" using good_find_step [OF u(1) u(5)] by (simp add: get_step_def)
    then have "fail_step adv (st_id s) msg db = Some (Ok (?f s), db3)"
      using gs gr run False l tr(10) by (simp add: fail_step_def try_bind_def db3_def Let_def)
    moreover have "idle_but db (st_run_id s) (st_id s) \<longrightarrow> idle ?db (st_run_id s)"
      unfolding idle_upd_run by (intro impI, rule idle_upd) (auto simp: same_shape_def)
    ultimately show ?thesis using u tr by (auto simp: quiescent_def)
  qed
qed

lemma finish_step_ok:
  assumes "good db" "s \<in> all_steps db" "st_status s = SRunning" "budget db \<le> bound"
  shows "\<exists>db'. finish_step adv (st_id s) att db = Some (Ok (), db') \<and> good db'
    \<and> evolves (st_run_id s) db db' \<and> budget db' < budget db \<and> quiescent db' (st_run_id s)
    \<and> (idle_but db (st_run_id s) (st_id s) \<longrightarrow> idle db' (st_run_id s))"
proof (cases att)
  case (Done out)
  then show ?thesis using complete_step_ok [OF assms, of out] by (auto simp: finish_step_def try_bind_def)
next
  case (Failure msg)
  then show ?thesis using fail_step_ok [OF assms, of msg] by (auto simp: finish_step_def try_bind_def)
qed

text \<open>A claimed step of an automated type is finished by its executor; any other type is left running.\<close>

lemma execute_step_ok:
  assumes "good db" "s \<in> all_steps db" "st_status s = SRunning" "budget db \<le> bound" "rs_id r = st_id s"
  shows "if automated (rs_type r)
    then \<exists>db'. execute_step env adv r db = Some (Ok (), db') \<and> good db'
      \<and> evolves (st_run_id s) db db' \<and> budget db' < budget db \<and> quiescent db' (st_run_id s)
      \<and> (idle_but db (st_run_id s) (st_id s) \<longrightarrow> idle db' (st_run_id s))
    else execute_step env adv r db = Some (Ok (), db)"
proof (cases "automated (rs_type r)")
  case True
  have fin: "\<exists>db'. finish_step adv (st_id s) att db1 = Some (Ok (), db') \<and> good db'
      \<and> evolves (st_run_id s) db db' \<and> budget db' < budget db \<and> quiescent db' (st_run_id s)
      \<and> (idle_but db (st_run_id s) (st_id s) \<longrightarrow> idle db' (st_run_id s))"
    if c: "same_core db db1" for att db1
  proof -
    note tr = same_core_transfer [OF c]
    have "s \<in> all_steps db1" using c assms(2) by (simp add: same_core_def)
    from finish_step_ok [OF _ this assms(3), of att] assms(1,4) tr show ?thesis by auto
  qed
  show ?thesis
    using True fin [OF same_core_refl] fin [OF webhook_attempt_core] fin [OF llm_attempt_core] assms(5)
    by (auto simp: automated_def execute_step_def execute_transform_step_def execute_webhook_step_def
        execute_llm_step_def case_prod_unfold)
next
  case False
  then show ?thesis by (simp add: execute_step_def automated_def)
qed

lemma dispatch_ok:
  assumes "good db" "has_run db rid" "budget db \<le> bound" "todo db rid rs" "covered db rid rs"
  shows "\<exists>db'. dispatch env adv rid rs db = Some (Ok (), db') \<and> good db' \<and> evolves rid db db'
    \<and> budget db' \<le> budget db \<and> quiescent db' rid \<and> (idle db rid \<longrightarrow> idle db' rid)"
  using assms
proof (induction rs arbitrary: db)
  case Nil
  then show ?case by (auto simp: covered_def quiescent_def evolves_refl)
next
  case (Cons r rs)
  show ?case
  proof (cases "count_where (\<lambda>s. st_id s = rs_id r \<and> st_status s = SPending) (loom_steps db) = 0")
    case True
    then have "covered db rid rs" using Cons.prems(5)
      by (auto simp: covered_def count_where_def filter_empty_conv is_ready_def)
    moreover have "todo db rid rs" using Cons.prems(4) by (simp add: todo_def)
    ultimately have "\<exists>db'. dispatch env adv rid rs db = Some (Ok (), db') \<and> good db' \<and> evolves rid db db'
        \<and> budget db' \<le> budget db \<and> quiescent db' rid \<and> (idle db rid \<longrightarrow> idle db' rid)"
      using Cons.IH [OF Cons.prems(1-3)] by blast
    moreover have "dispatch env adv rid (r # rs) db = dispatch env adv rid rs db"
      unfolding dispatch_Cons using True by simp
    ultimately show ?thesis by simp
  next
    case False
    from Cons.prems(4) obtain s where s: "s \<in> all_steps db" "st_id s = rs_id r" "st_run_id s = rid"
      "st_type s = rs_type r" "\<forall>d\<in>set (st_depends_on s). dep_done db rid d" unfolding todo_def by auto
    have "st_status s = SPending"
    proof -
      from False obtain x where "x \<in> all_steps db" "st_id x = rs_id r" "st_status x = SPending"
        by (auto simp: count_where_def filter_empty_conv)
      with good_unique_step [OF Cons.prems(1) s(1)] s(2) show ?thesis by auto
    qed
    with claim_ok [OF Cons.prems(1) s(1-3) _ s(5)] obtain s1 where
      s1: "s1 \<in> all_steps (claim r db)" "st_status s1 = SRunning" "same_shape s s1"
      and c1: "good (claim r db)" "evolves rid db (claim r db)" "budget (claim r db) < budget db"
        "idle db rid \<longrightarrow> idle_but (claim r db) rid (rs_id r)"
        "\<forall>x\<in>all_steps (claim r db). st_status x \<noteq> SRunning \<longrightarrow> x \<in> all_steps db \<and> st_id x \<noteq> rs_id r" by blast
    have id1: "st_id s1 = rs_id r" "st_run_id s1 = rid" "st_type s1 = rs_type r"
      using s s1(3) by (auto simp: same_shape_def)
    from add_log_ok [of "claim r db" rid "Some (rs_id r)"] evolves_has_run [OF c1(2) Cons.prems(2)] s1(1) id1(1)
    obtain db2 where l: "add_log rid (Some (rs_id r)) ''info'' (''step '' @ quoted (rs_name r) @ '' started'') None (claim r db)
        = Some (Ok (), db2)" and core: "same_core (claim r db) db2" by force
    note tr = same_core_transfer [OF core]
    have s2: "s1 \<in> all_steps db2" using s1(1) core by (simp add: same_core_def)
    have b2: "budget db2 \<le> bound" using c1(3) Cons.prems(3) tr by simp
    obtain db3 where ex: "execute_step env adv r db2 = Some (Ok (), db3)" and g3: "good db3"
      and e3: "evolves rid db db3" "budget db3 \<le> budget db" "covered db3 rid rs" "idle db rid \<longrightarrow> idle db3 rid"
    proof (cases "automated (rs_type r)")
      case True
      from execute_step_ok [OF _ s2 s1(2) b2, of r env] True id1 c1(1) tr obtain db3 where
        d: "execute_step env adv r db2 = Some (Ok (), db3)" "good db3" "evolves rid db2 db3"
          "budget db3 < budget db2" "quiescent db3 rid" "idle_but db2 rid (rs_id r) \<longrightarrow> idle db3 rid"
        by (auto simp: id1)
      have "evolves rid db db3" using c1(2) d(3) tr by (auto intro: evolves_trans)
      with d c1 tr show ?thesis by (intro that [of db3]) (auto intro: quiescent_covered)
    next
      case False
      from execute_step_ok [OF _ s2 s1(2) b2, of r env] False id1 c1(1) tr
      have "execute_step env adv r db2 = Some (Ok (), db2)" by auto
      moreover have "idle (claim r db) rid" if "idle db rid"
        using c1(4) that False id1 good_unique_step [OF c1(1) s1(1)] unfolding idle_def idle_but_def by metis
      moreover have "covered db2 rid rs"
        using covered_claim [OF Cons.prems(5) c1(2,5) s1(1) id1(2) s1(2)] core
        by (simp add: covered_def same_core_def tr has_open_def)
      ultimately show ?thesis using c1 tr by (intro that [of db2]) auto
    qed
    have "todo db rid rs" using Cons.prems(4) by (simp add: todo_def)
    then have "todo db3 rid rs" by (rule todo_evolves [OF _ e3(1)])
    with Cons.IH [OF g3 evolves_has_run [OF e3(1) Cons.prems(2)] _ this e3(3)] e3(2) Cons.prems(3)
    obtain db4 where d4: "dispatch env adv rid rs db3 = Some (Ok (), db4)" "good db4" "evolves rid db3 db4"
      "budget db4 \<le> budget db3" "quiescent db4 rid" "idle db3 rid \<longrightarrow> idle db4 rid" by auto
    have "dispatch env adv rid (r # rs) db = Some (Ok (), db4)"
      unfolding dispatch_Cons using False l ex d4(1) by (simp add: try_bind_def)
    with d4 e3 show ?thesis by (auto intro: evolves_trans)
  qed
qed

text \<open>The first statement of the body: a pending run starts to run.\<close>

lemma mark_running_ok:
  assumes good: "good db" and r: "r \<in> all_runs db" "rn_id r = rid" and nt: "\<not> terminal (rn_status r)"
    and db1: "db1 = (if rn_status r = RPending then mark_running rid db else db)"
  shows "good db1 \<and> evolves rid db db1 \<and> budget db1 = budget db \<and> (idle db rid \<longrightarrow> idle db1 rid)
    \<and> loom_steps db1 = loom_steps db
    \<and> (\<exists>r1\<in>all_runs db1. rn_id r1 = rid \<and> rn_status r1 = RRunning \<and> rn_input r1 = rn_input r)"
proof (cases "rn_status r = RPending")
  case True
  define h :: "run \<Rightarrow> run" where "h = (\<lambda>x. if rn_id x = rid \<and> rn_status x = RPending
    then x\<lparr>rn_status := RRunning, rn_started_at := Some (now db), rn_updated_at := now db\<rparr> else x)"
  have re: "remap (\<lambda>s. s) h db db1" using True by (simp add: db1 mark_running_def remap_def h_def table_simps)
  have "good db1"
  proof (rule good_remap [OF good re])
    show "step_agrees (h r) s" if "s \<in> all_steps db" "r \<in> all_runs db" "rn_id r = st_run_id s" for s r
      using good_agrees [OF good that] by (auto simp: h_def step_agrees_def)
  qed (use good_retry [OF good] good_step_deps [OF good] in \<open>auto simp: same_shape_def h_def\<close>)
  moreover have "evolves rid db db1"
    by (rule evolves_remap [OF re]) (auto simp: step_evolves_refl run_evolves_def h_def terminal_def)
  moreover have "h r \<in> all_runs db1 \<and> rn_id (h r) = rid \<and> rn_status (h r) = RRunning \<and> rn_input (h r) = rn_input r"
    using r True re by (auto simp: remap_def h_def)
  ultimately show ?thesis using budget_remap_eq [OF re] True by (auto simp: db1 mark_running_def idle_def)
next
  case False
  with nt have "rn_status r = RRunning" by (cases "rn_status r") (auto simp: terminal_def)
  with False r good show ?thesis by (auto simp: db1 evolves_refl)
qed

text \<open>The last statement of a run: every step is closed, so every step is completed.\<close>

lemma complete_run_ok:
  assumes good: "good db" and r: "r \<in> all_runs db" "rn_id r = rid" and run: "rn_status r = RRunning"
    and closed: "list_all (\<lambda>s. \<not> step_open s) (steps_of db rid)"
    and f: "\<And>x. rn_id (f x) = rn_id x \<and> rn_workflow_id (f x) = rn_workflow_id x \<and> rn_input (f x) = rn_input x
      \<and> rn_status (f x) = RCompleted"
  shows "good (upd_run rid f db) \<and> evolves rid db (upd_run rid f db)
    \<and> budget (upd_run rid f db) = budget db \<and> run_terminal (upd_run rid f db) rid"
proof -
  define h where "h = (\<lambda>x. if rn_id x = rid then f x else x)"
  have re: "remap (\<lambda>s. s) h db (upd_run rid f db)" by (simp add: remap_def upd_run_def h_def table_simps)
  have only: "x = r" if "x \<in> all_runs db" "rn_id x = rid" for x
    using good_unique_run [OF good that(1) r(1)] that(2) r(2) by simp
  have "good (upd_run rid f db)"
  proof (rule good_remap [OF good re])
    show "step_agrees (h x) s" if "s \<in> all_steps db" "x \<in> all_runs db" "rn_id x = st_run_id s" for s x
    proof (cases "rn_id x = rid")
      case True
      with only that have "x = r" by blast
      with good_agrees [OF good that] run have "st_status s \<noteq> SFailed" "st_status s \<noteq> SSkipped"
        by (auto simp: step_agrees_def)
      moreover have "\<not> step_open s" using closed that True by (auto simp: list_all_iff set_steps_of)
      ultimately show ?thesis using True f by (simp add: step_agrees_def h_def)
    next
      case False
      then show ?thesis using good_agrees [OF good that] by (simp add: h_def)
    qed
  qed (use good_retry [OF good] good_step_deps [OF good] f in \<open>auto simp: same_shape_def h_def\<close>)
  moreover have "evolves rid db (upd_run rid f db)"
    by (rule evolves_remap [OF re])
       (use only run f in \<open>auto simp: step_evolves_refl run_evolves_def h_def terminal_def\<close>)
  moreover have "h r \<in> all_runs (upd_run rid f db)" using re r(1) by (simp add: remap_def)
  then have "run_terminal (upd_run rid f db) rid"
    unfolding run_terminal_def terminal_def by (intro bexI [of _ "h r"]) (use r(2) f in \<open>auto simp: h_def\<close>)
  ultimately show ?thesis using budget_remap_eq [OF re] by blast
qed

lemma advance_body_active:
  assumes "find_where (\<lambda>x. rn_id x = rid) (loom_runs db) = Some r" "\<not> terminal (rn_status r)"
    and "db1 = (if rn_status r = RPending then mark_running rid db else db)" "get_steps db1 rid = Ok steps"
  shows "advance_body env adv rid db =
    (if list_all (\<lambda>s. \<not> step_open s) steps
     then try_bind (add_log rid None ''info'' ''run completed'' None
            (upd_run rid (\<lambda>x. x\<lparr>rn_status := RCompleted, rn_output := merged_output steps,
                rn_completed_at := Some (now db), rn_updated_at := now db\<rparr>) db1))
          (\<lambda>_ db2. Some (Ok (), notify ''tasks'' ''workflow.run.completed''
             (JObj [(''run_id'', JNum (show_int rid))]) db2))
     else dispatch env adv rid (ready_steps (rn_input r) steps) db1)"
  by (simp only: advance_body_def assms(1,2) Let_def option.case if_False not_True_eq_False
      assms(3) [symmetric] assms(4) sum.case)

lemma ready_steps_todo:
  assumes "good db"
  shows "todo db rid (ready_steps inp (steps_of db rid))"
    and "\<not> list_all (\<lambda>s. \<not> step_open s) (steps_of db rid) \<Longrightarrow> covered db rid (ready_steps inp (steps_of db rid))"
proof -
  show "todo db rid (ready_steps inp (steps_of db rid))"
    using deps_met_iff [OF assms] by (fastforce simp: todo_def ready_steps_def set_steps_of)
  have "st_id s \<in> rs_id ` set (ready_steps inp (steps_of db rid))"
    if "s \<in> all_steps db" "st_run_id s = rid" "is_ready db s" for s
    using that deps_met_iff [OF assms that(2)] by (force simp: ready_steps_def is_ready_def set_steps_of image_image)
  then show "covered db rid (ready_steps inp (steps_of db rid))"
    if "\<not> list_all (\<lambda>s. \<not> step_open s) (steps_of db rid)"
    using that by (auto simp: covered_def has_open_def list_all_iff set_steps_of)
qed

lemma advance_body_ok:
  assumes good: "good db" and has: "has_run db rid" and bud: "budget db \<le> bound"
  shows "\<exists>db'. advance_body env adv rid db = Some (Ok (), db') \<and> good db' \<and> evolves rid db db'
    \<and> budget db' \<le> budget db \<and> quiescent db' rid \<and> (idle db rid \<longrightarrow> idle db' rid)"
proof -
  from has obtain r where r: "r \<in> all_runs db" "rn_id r = rid" by (auto simp: has_run_def)
  have fr: "find_where (\<lambda>x. rn_id x = rid) (loom_runs db) = Some r" using good_find_run [OF good r(1)] r(2) by simp
  show ?thesis
  proof (cases "terminal (rn_status r)")
    case True
    with r fr good show ?thesis by (auto simp: advance_body_def evolves_refl quiescent_def run_terminal_def)
  next
    case False
    define db1 where "db1 = (if rn_status r = RPending then mark_running rid db else db)"
    from mark_running_ok [OF good r False db1_def] obtain r1 where
      m: "good db1" "evolves rid db db1" "budget db1 = budget db" "idle db rid \<longrightarrow> idle db1 rid"
        and r1: "r1 \<in> all_runs db1" "rn_id r1 = rid" "rn_status r1 = RRunning" by blast
    have has1: "has_run db1 rid" using evolves_has_run [OF m(2) has] .
    have gs: "get_steps db1 rid = Ok (steps_of db1 rid)"
      using good_find_run [OF m(1) r1(1)] r1(2) by (simp add: get_steps_def get_run_def)
    show ?thesis
    proof (cases "list_all (\<lambda>s. \<not> step_open s) (steps_of db1 rid)")
      case True
      let ?f = "\<lambda>x. x\<lparr>rn_status := RCompleted, rn_output := merged_output (steps_of db1 rid),
                             rn_completed_at := Some (now db), rn_updated_at := now db\<rparr>"
      have c: "good (upd_run rid ?f db1)" "evolves rid db1 (upd_run rid ?f db1)"
        "budget (upd_run rid ?f db1) = budget db1" "run_terminal (upd_run rid ?f db1) rid"
        using complete_run_ok [OF m(1) r1 True, of ?f] by simp_all
      from add_log_ok [of "upd_run rid ?f db1" rid None] evolves_has_run [OF c(2) has1]
      obtain db2 where l: "add_log rid None ''info'' ''run completed'' None (upd_run rid ?f db1) = Some (Ok (), db2)"
        and core: "same_core (upd_run rid ?f db1) db2" by force
      define db3 where "db3 = notify ''tasks'' ''workflow.run.completed'' (JObj [(''run_id'', JNum (show_int rid))]) db2"
      have "same_core (upd_run rid ?f db1) db3" using core notify_core [of db2] by (simp add: db3_def same_core_def)
      note tr = same_core_transfer [OF this]
      have "advance_body env adv rid db = Some (Ok (), db3)"
        unfolding advance_body_active [OF fr False db1_def gs] using True l by (simp add: try_bind_def db3_def)
      moreover have "evolves rid db (upd_run rid ?f db1)" using evolves_trans [OF m(2) c(2)] .
      ultimately show ?thesis using c tr m(3,4) by (auto simp: quiescent_def idle_upd_run)
    next
      case notall: False
      from dispatch_ok [OF m(1) has1 _ ready_steps_todo(1) [OF m(1)] ready_steps_todo(2) [OF m(1) notall]] m(3) bud obtain db2 where
        d: "dispatch env adv rid (ready_steps (rn_input r) (steps_of db1 rid)) db1 = Some (Ok (), db2)"
          "good db2" "evolves rid db1 db2" "budget db2 \<le> budget db1" "quiescent db2 rid" "idle db1 rid \<longrightarrow> idle db2 rid"
        by auto
      have "advance_body env adv rid db = Some (Ok (), db2)"
        unfolding advance_body_active [OF fr False db1_def gs] using notall d(1) by simp
      with d m evolves_trans [OF m(2) d(3)] show ?thesis by auto
    qed
  qed
qed

end

lemma advance_run_reentrant: "reentrant (advance_run env n) n"
proof (induction n)
  case 0
  show ?case by unfold_locales simp
next
  case (Suc n)
  show ?case by unfold_locales (use reentrant.advance_body_ok [OF Suc] in simp)
qed

end
