(* ===== verification/Loom_Runs.thy ===== *)
theory Loom_Runs
  imports Loom_Engine
begin

text \<open>
  Runs of the Loom engine from creation to their end. The results of a fuelled call do not depend on
  the fuel, so the contract of the engine holds for every call that returns; the dependency graph of a
  run stays the acyclic graph its workflow had when the run was created; and every operation of the
  service keeps the invariant of all tables, which gives the properties of reachable states.
\<close>

section \<open>More fuel gives the same result\<close>

definition extends :: "advance \<Rightarrow> advance \<Rightarrow> bool" where
  "extends a b \<longleftrightarrow> (\<forall>rid db x. a rid db = Some x \<longrightarrow> b rid db = Some x)"

lemma try_bind_mono:
  "try_bind m f = Some x \<Longrightarrow> (\<And>y. m = Some y \<Longrightarrow> m' = Some y) \<Longrightarrow>
     (\<And>a db y. f a db = Some y \<Longrightarrow> f' a db = Some y) \<Longrightarrow> try_bind m' f' = Some x"
  by (cases x) (auto simp: try_bind_def split: option.splits sum.splits)

lemma complete_step_mono:
  assumes "extends a b" "complete_step a i v db = Some x" shows "complete_step b i v db = Some x"
  using assms unfolding complete_step_def extends_def
  by (auto split: sum.splits if_splits elim!: try_bind_mono)

lemma fail_step_mono:
  assumes "extends a b" "fail_step a i msg db = Some x" shows "fail_step b i msg db = Some x"
  using assms unfolding fail_step_def extends_def
  by (auto split: sum.splits if_splits elim!: try_bind_mono)

lemma finish_step_mono:
  assumes "extends a b" "finish_step a i att db = Some x" shows "finish_step b i att db = Some x"
  using assms complete_step_mono [OF assms(1)] fail_step_mono [OF assms(1)]
  by (auto simp: finish_step_def split: attempt.splits elim!: try_bind_mono)

lemma execute_step_mono:
  assumes "extends a b" "execute_step env a r db = Some x" shows "execute_step env b r db = Some x"
  using assms(2) finish_step_mono [OF assms(1)]
  by (auto simp: execute_step_def execute_transform_step_def execute_webhook_step_def execute_llm_step_def
      split: if_splits prod.splits)

lemma dispatch_mono:
  assumes "extends a b" "dispatch env a rid rs db = Some x" shows "dispatch env b rid rs db = Some x"
  using assms(2)
proof (induction rs arbitrary: db x)
  case (Cons r rs)
  then show ?case unfolding dispatch_Cons
    by (auto split: if_splits elim!: try_bind_mono intro: execute_step_mono [OF assms(1)])
qed simp

lemma advance_body_mono:
  assumes "extends a b" "advance_body env a rid db = Some x" shows "advance_body env b rid db = Some x"
  using assms(2) unfolding advance_body_def Let_def
  by (cases "find_where (\<lambda>r. rn_id r = rid) (loom_runs db)")
     (auto split: sum.splits if_splits intro: dispatch_mono [OF assms(1)])

lemma advance_run_Suc: "extends (advance_run env n) (advance_run env (Suc n))"
proof (induction n)
  case (Suc n)
  then show ?case using advance_body_mono [of "advance_run env n" "advance_run env (Suc n)" env]
    by (simp add: extends_def)
qed (simp add: extends_def)

lemma advance_run_mono: "n \<le> m \<Longrightarrow> extends (advance_run env n) (advance_run env m)"
proof (induction m rule: dec_induct)
  case (step m)
  then show ?case using advance_run_Suc [of env m] by (simp add: extends_def)
qed (simp add: extends_def)

section \<open>The contract on the engine\<close>

interpretation engine: reentrant "advance_run env n" n for env n
  by (rule advance_run_reentrant)

text \<open>A call that returns, whatever its fuel, behaves like one with enough fuel.\<close>

definition enough :: "loom_db \<Rightarrow> nat \<Rightarrow> nat" where
  "enough db n = max n (Suc (budget db))"

lemma enough_ok: "budget db < enough db n" "budget db \<le> enough db n" "n \<le> enough db n"
  by (auto simp: enough_def)

lemma advance_run_contract:
  assumes "good db" "has_run db rid" "advance_run env n rid db = Some (res, db')"
  shows "res = Ok () \<and> good db' \<and> evolves rid db db' \<and> budget db' \<le> budget db
    \<and> quiescent db' rid \<and> (idle db rid \<longrightarrow> idle db' rid)"
proof -
  have "advance_run env (enough db n) rid db = Some (res, db')"
    using assms(3) advance_run_mono [OF enough_ok(3)] unfolding extends_def by blast
  with engine.adv_ok [OF assms(1,2) enough_ok(1), of env n] show ?thesis by auto
qed

lemma complete_step_contract:
  assumes "good db" "s \<in> all_steps db" "st_status s = SRunning"
    and "complete_step (advance_run env n) (st_id s) v db = Some (res, db')"
  shows "(\<exists>s'. res = Ok s') \<and> good db' \<and> evolves (st_run_id s) db db' \<and> quiescent db' (st_run_id s)"
proof -
  have "complete_step (advance_run env (enough db n)) (st_id s) v db = Some (res, db')"
    using assms(4) complete_step_mono [OF advance_run_mono [OF enough_ok(3)]] by blast
  with engine.complete_step_ok [OF assms(1-3) enough_ok(2), of env n v] show ?thesis by auto
qed

lemma fail_step_contract:
  assumes "good db" "s \<in> all_steps db" "st_status s = SRunning"
    and "fail_step (advance_run env n) (st_id s) msg db = Some (res, db')"
  shows "(\<exists>s'. res = Ok s') \<and> good db' \<and> evolves (st_run_id s) db db' \<and> quiescent db' (st_run_id s)"
proof -
  have "fail_step (advance_run env (enough db n)) (st_id s) msg db = Some (res, db')"
    using assms(4) fail_step_mono [OF advance_run_mono [OF enough_ok(3)]] by blast
  with engine.fail_step_ok [OF assms(1-3) enough_ok(2), of env n msg] show ?thesis by auto
qed

section \<open>The graph of a run\<close>

text \<open>The dependency edges between the steps of a run, as \<open>dep_edges\<close> are those of a workflow.\<close>

definition run_edges :: "loom_db \<Rightarrow> int \<Rightarrow> (string \<times> string) set" where
  "run_edges db rid = {(d, st_name s) | d s. s \<in> all_steps db \<and> st_run_id s = rid \<and> d \<in> set (st_depends_on s)}"

definition run_names :: "loom_db \<Rightarrow> int \<Rightarrow> string set" where
  "run_names db rid = st_name ` {s \<in> all_steps db. st_run_id s = rid}"

definition run_graph_ok :: "loom_db \<Rightarrow> int \<Rightarrow> bool" where
  "run_graph_ok db rid \<longleftrightarrow> acyclic (run_edges db rid) \<and> fst ` run_edges db rid \<subseteq> run_names db rid"

lemma list_all2_shape_image:
  assumes "list_all2 R xs ys" "\<And>x y. R x y \<Longrightarrow> f x = f y" shows "f ` set xs = f ` set ys"
  using assms by (induction rule: list_all2_induct) auto

lemma run_graph_ok_image:
  assumes "(\<lambda>s. (st_run_id s, st_name s, st_depends_on s)) ` all_steps a
         = (\<lambda>s. (st_run_id s, st_name s, st_depends_on s)) ` all_steps b"
  shows "run_edges a rid = run_edges b rid" "run_names a rid = run_names b rid"
    "run_graph_ok a rid = run_graph_ok b rid"
proof -
  let ?f = "\<lambda>s::step. (st_run_id s, st_name s, st_depends_on s)"
  have e: "run_edges db rid = (\<Union>(r, n, ds)\<in>?f ` all_steps db. if r = rid then (\<lambda>d. (d, n)) ` set ds else {})" for db
    by (auto simp: run_edges_def split: if_splits)
  have n: "run_names db rid = (\<Union>(r, n, ds)\<in>?f ` all_steps db. if r = rid then {n} else {})" for db
    by (auto simp: run_names_def split: if_splits)
  show "run_edges a rid = run_edges b rid" "run_names a rid = run_names b rid" unfolding e n assms by simp_all
  then show "run_graph_ok a rid = run_graph_ok b rid" by (simp add: run_graph_ok_def)
qed

lemma evolves_graph: "evolves r a b \<Longrightarrow> run_graph_ok b rid = run_graph_ok a rid"
  by (rule run_graph_ok_image(3) [symmetric])
     (auto simp: evolves_def step_evolves_def same_shape_def intro!: list_all2_shape_image)

lemma run_edges_finite: "finite (run_edges db rid)"
proof -
  have "run_edges db rid \<subseteq> (\<Union>s\<in>all_steps db. (\<lambda>d. (d, st_name s)) ` set (st_depends_on s))"
    by (auto simp: run_edges_def)
  then show ?thesis by (rule finite_subset) auto
qed

text \<open>
  Progress: with nothing ready, no automated step in flight and only automated steps, an unfinished run
  would have a first open step, and that step would be ready.
\<close>

lemma quiescent_automated_terminal:
  assumes good: "good db" and q: "quiescent db rid" and idle: "idle db rid" and graph: "run_graph_ok db rid"
    and auto: "\<forall>s\<in>all_steps db. st_run_id s = rid \<longrightarrow> automated (st_type s)"
  shows "run_terminal db rid"
proof (rule ccontr)
  assume nt: "\<not> run_terminal db rid"
  let ?P = "{s \<in> all_steps db. st_run_id s = rid \<and> st_status s = SPending}"
  have pend: "st_status s = SPending" if "s \<in> all_steps db" "st_run_id s = rid" "step_open s" for s
    using that idle auto by (auto simp: idle_def step_open_def)
  from nt q obtain s0 where "s0 \<in> all_steps db" "st_run_id s0 = rid" "step_open s0"
    by (auto simp: quiescent_def has_open_def)
  with pend have some: "st_name s0 \<in> st_name ` ?P" by auto
  have "wf (run_edges db rid)"
    using graph run_edges_finite by (simp add: run_graph_ok_def finite_acyclic_wf)
  from wfE_min [OF this some] obtain n where
    n: "n \<in> st_name ` ?P" "\<And>m. (m, n) \<in> run_edges db rid \<Longrightarrow> m \<notin> st_name ` ?P" by blast
  then obtain s where s: "s \<in> all_steps db" "st_run_id s = rid" "st_status s = SPending" "st_name s = n" by auto
  have "dep_done db rid d" if d: "d \<in> set (st_depends_on s)" for d
  proof -
    have edge: "(d, n) \<in> run_edges db rid" using s d by (auto simp: run_edges_def)
    with graph have "d \<in> run_names db rid" by (force simp: run_graph_ok_def)
    then obtain x where x: "x \<in> all_steps db" "st_run_id x = rid" "st_name x = d" by (auto simp: run_names_def)
    have "st_status x \<noteq> SPending" using n(2) [OF edge] x by auto
    then have "\<not> step_open x" using pend x by blast
    moreover from good_step_run [OF good x(1)] x(2) obtain r where r: "r \<in> all_runs db" "rn_id r = rid"
      by (auto simp: has_run_def)
    have "step_agrees r x" using good_agrees [OF good x(1) r(1)] r(2) x(2) by simp
    moreover have "\<not> terminal (rn_status r)" using nt r by (auto simp: run_terminal_def)
    ultimately have "st_status x = SCompleted"
      by (cases "st_status x") (auto simp: step_agrees_def step_open_def terminal_def)
    with x show ?thesis by (auto simp: dep_done_def)
  qed
  with s have "is_ready db s" by (simp add: is_ready_def)
  with nt q s show False by (auto simp: quiescent_def)
qed

section \<open>Creating a run\<close>

definition fresh_step :: "int \<Rightarrow> step_def \<Rightarrow> step \<Rightarrow> bool" where
  "fresh_step rid d s \<longleftrightarrow> st_run_id s = rid \<and> st_name s = sd_name d \<and> st_type s = sd_type d
     \<and> st_depends_on s = deps_of d \<and> st_status s = SPending \<and> retry_ok s"

lemma insert_steps_rows:
  assumes "wf_table st_id (loom_steps db)"
  shows "\<exists>new. trows (loom_steps (fold (insert_step rid) ds db)) = trows (loom_steps db) @ new
    \<and> list_all2 (fresh_step rid) ds new \<and> wf_table st_id (loom_steps (fold (insert_step rid) ds db))
    \<and> tseq (loom_steps db) \<le> tseq (loom_steps (fold (insert_step rid) ds db))
    \<and> (\<forall>s\<in>set new. tseq (loom_steps db) < st_id s)
    \<and> loom_runs (fold (insert_step rid) ds db) = loom_runs db
    \<and> loom_workflows (fold (insert_step rid) ds db) = loom_workflows db"
  using assms
proof (induction ds arbitrary: db)
  case (Cons d ds)
  define db1 where "db1 = insert_step rid d db"
  obtain s where s: "trows (loom_steps db1) = trows (loom_steps db) @ [s]" "fresh_step rid d s"
    "st_id s = tseq (loom_steps db) + 1" "tseq (loom_steps db1) = tseq (loom_steps db) + 1"
    by (simp add: db1_def insert_step_def table_simps fresh_step_def retry_ok_def clamp_def MAX_STEP_RETRIES_def)
  have rest: "loom_runs db1 = loom_runs db" "loom_workflows db1 = loom_workflows db"
    by (simp_all add: db1_def insert_step_def)
  have "wf_table st_id (loom_steps db1)" unfolding db1_def insert_step_def
    using Cons.prems by (simp add: wf_insert_row)
  from Cons.IH [OF this] obtain new where
    n: "trows (loom_steps (fold (insert_step rid) ds db1)) = trows (loom_steps db1) @ new"
      "list_all2 (fresh_step rid) ds new" "wf_table st_id (loom_steps (fold (insert_step rid) ds db1))"
      "tseq (loom_steps db1) \<le> tseq (loom_steps (fold (insert_step rid) ds db1))"
      "\<forall>s\<in>set new. tseq (loom_steps db1) < st_id s"
      "loom_runs (fold (insert_step rid) ds db1) = loom_runs db1"
      "loom_workflows (fold (insert_step rid) ds db1) = loom_workflows db1" by blast
  have "\<forall>x\<in>set (s # new). tseq (loom_steps db) < st_id x" using n(5) s(3,4) by fastforce
  with n s rest show ?case by (intro exI [of _ "s # new"]) (simp add: db1_def [symmetric])
qed simp

text \<open>The tables after the run and its steps are inserted.\<close>

lemma create_run_tables:
  assumes good: "good db" and graph: "valid_graph ds"
    and ins: "insert_run wid inp db = (rid, db1)" and db2: "db2 = fold (insert_step rid) ds db1"
  shows "\<exists>new r. trows (loom_steps db2) = trows (loom_steps db) @ new
    \<and> list_all2 (fresh_step rid) ds new \<and> trows (loom_runs db2) = trows (loom_runs db) @ [r]
    \<and> rn_id r = rid \<and> rn_status r = RPending \<and> rn_workflow_id r = wid \<and> rid = tseq (loom_runs db) + 1
    \<and> loom_workflows db2 = loom_workflows db
    \<and> tseq (loom_runs db2) = rid \<and> tseq (loom_steps db) \<le> tseq (loom_steps db2)
    \<and> (\<forall>s\<in>set new. tseq (loom_steps db) < st_id s)
    \<and> wf_table st_id (loom_steps db2) \<and> wf_table rn_id (loom_runs db2)"
proof -
  have wf: "wf_table rn_id (loom_runs db)" "wf_table st_id (loom_steps db)" using good by (auto simp: good_def)
  define r where "r = last (trows (loom_runs db1))"
  have e: "rid = fst (insert_run wid inp db)" "db1 = snd (insert_run wid inp db)" using ins by simp_all
  have r: "rn_id r = rid" "rn_status r = RPending" "rn_workflow_id r = wid" "rid = tseq (loom_runs db) + 1"
    "trows (loom_runs db1) = trows (loom_runs db) @ [r]" "tseq (loom_runs db1) = rid"
    "loom_steps db1 = loom_steps db" "loom_workflows db1 = loom_workflows db"
    unfolding r_def e by (simp_all add: insert_run_def insert_row_def)
  have "wf_table rn_id (loom_runs db1)"
    using wf(1) r(1,4-6) by (fastforce simp: wf_table_def sorted_wrt_append)
  moreover from insert_steps_rows [of db1 rid ds] wf(2) obtain new where
    "trows (loom_steps db2) = trows (loom_steps db) @ new \<and> list_all2 (fresh_step rid) ds new
      \<and> wf_table st_id (loom_steps db2) \<and> tseq (loom_steps db) \<le> tseq (loom_steps db2)
      \<and> (\<forall>s\<in>set new. tseq (loom_steps db) < st_id s)
      \<and> loom_runs db2 = loom_runs db1 \<and> loom_workflows db2 = loom_workflows db1"
    unfolding r(7) db2 by blast
  ultimately show ?thesis using r by (intro exI [of _ new] exI [of _ r]) simp
qed

text \<open>One run and its steps added to a good state.\<close>

definition adds_run :: "int \<Rightarrow> step_def list \<Rightarrow> loom_db \<Rightarrow> loom_db \<Rightarrow> step list \<Rightarrow> run \<Rightarrow> bool" where
  "adds_run rid ds db db2 new r \<longleftrightarrow> trows (loom_steps db2) = trows (loom_steps db) @ new
    \<and> list_all2 (fresh_step rid) ds new \<and> trows (loom_runs db2) = trows (loom_runs db) @ [r]
    \<and> rn_id r = rid \<and> rn_status r = RPending \<and> tseq (loom_runs db) + 1 = rid
    \<and> wf_table st_id (loom_steps db2) \<and> wf_table rn_id (loom_runs db2)"

lemma fresh_steps_set:
  "list_all2 (fresh_step rid) ds new \<Longrightarrow> s \<in> set new \<Longrightarrow> \<exists>d\<in>set ds. fresh_step rid d s"
  by (rule list_all2_ex2)

lemma old_run_id:
  assumes "good db" "s \<in> all_steps db" shows "st_run_id s \<le> tseq (loom_runs db)"
  using good_step_run [OF assms] assms(1) by (auto simp: has_run_def good_def wf_table_def)

lemma fresh_unique:
  assumes "list_all2 (fresh_step rid) ds new" "distinct (map sd_name ds)"
    "s \<in> set new" "s' \<in> set new" "st_name s = st_name s'"
  shows "s = s'"
proof -
  have "map st_name new = map sd_name ds"
    using assms(1) by (induction rule: list_all2_induct) (auto simp: fresh_step_def)
  with assms(2) have "inj_on st_name (set new)" by (metis distinct_map)
  with assms(3-5) show ?thesis by (auto dest: inj_onD)
qed

lemma adds_run_good:
  assumes good: "good db" and graph: "valid_graph ds" and add: "adds_run rid ds db db2 new r"
  shows "good db2"
proof -
  note a = add [unfolded adds_run_def]
  have S: "all_steps db2 = all_steps db \<union> set new" and R: "all_runs db2 = insert r (all_runs db)" using a by auto
  have fresh: "st_run_id s = rid" "st_status s = SPending" "retry_ok s" if "s \<in> set new" for s
    using fresh_steps_set [of rid ds new s] a that by (auto simp: fresh_step_def)
  have old: "st_run_id s \<noteq> rid" if "s \<in> all_steps db" for s using old_run_id [OF good that] a by auto
  have oldr: "rn_id x \<noteq> rid" if "x \<in> all_runs db" for x
    using good a that by (force simp: good_def wf_table_def)
  have dn: "dep_done db i d \<Longrightarrow> dep_done db2 i d" for i d by (auto simp: dep_done_def S)
  have "\<exists>x\<in>all_runs db2. rn_id x = st_run_id s" if "s \<in> all_steps db2" for s
    using that good_step_run [OF good, of s] fresh(1) [of s] a unfolding S R by (auto simp: has_run_def)
  moreover have "retry_ok s" if "s \<in> all_steps db2" for s
    using that good_retry [OF good] fresh(3) unfolding S by auto
  moreover have "s = s'" if "s \<in> all_steps db2" "s' \<in> all_steps db2" "st_run_id s = st_run_id s'" "st_name s = st_name s'" for s s'
    using that good_names [OF good, of s s'] fresh_unique [of rid ds new s s'] old fresh(1) a graph
    unfolding S valid_graph_def by (metis Un_iff)
  moreover have "step_agrees x s" if "s \<in> all_steps db2" "x \<in> all_runs db2" "rn_id x = st_run_id s" for s x
    using that good_agrees [OF good, of s x] old [of s] oldr [of x] fresh(1,2) [of s] a unfolding S R
    by (elim UnE insertE) (auto simp: step_agrees_def)
  moreover have "dep_done db2 (st_run_id s) d" if "s \<in> all_steps db2" "started (st_status s)" "d \<in> set (st_depends_on s)" for s d
    using that good_step_deps [OF good, of s d] fresh(2) [of s] dn unfolding S by (auto simp: started_def)
  ultimately show ?thesis using a unfolding good_def by blast
qed

lemma adds_run_graph:
  assumes good: "good db" and graph: "valid_graph ds" and add: "adds_run rid ds db db2 new r"
  shows "run_graph_ok db2 rid" and "i \<noteq> rid \<Longrightarrow> run_graph_ok db2 i = run_graph_ok db i"
proof -
  note a = add [unfolded adds_run_def]
  have S: "all_steps db2 = all_steps db \<union> set new" using a by auto
  have fresh: "st_run_id s = rid" if "s \<in> set new" for s
    using fresh_steps_set [of rid ds new s] a that by (auto simp: fresh_step_def)
  have old: "st_run_id s \<noteq> rid" if "s \<in> all_steps db" for s using old_run_id [OF good that] a by auto
  have "list_all2 (fresh_step rid) ds new" using a by blast
  then have img: "(\<lambda>s. (st_name s, st_depends_on s)) ` set new = (\<lambda>d. (sd_name d, deps_of d)) ` set ds"
    by (induction rule: list_all2_induct) (auto simp: fresh_step_def)
  have mine: "{s \<in> all_steps db2. st_run_id s = rid} = set new" using old fresh unfolding S by blast
  have "run_edges db2 rid = (\<Union>(n, deps)\<in>(\<lambda>s. (st_name s, st_depends_on s)) ` set new. (\<lambda>d. (d, n)) ` set deps)"
    using old fresh by (auto simp: run_edges_def S)
  also have "\<dots> = dep_edges ds" unfolding img by (auto simp: dep_edges_def)
  finally have e: "run_edges db2 rid = dep_edges ds" .
  have "run_names db2 rid = fst ` (\<lambda>s. (st_name s, st_depends_on s)) ` set new"
    unfolding run_names_def mine by (simp add: image_image)
  also have "\<dots> = sd_name ` set ds" unfolding img by (simp add: image_image)
  finally have "run_names db2 rid = sd_name ` set ds" .
  moreover have "fst ` dep_edges ds \<subseteq> sd_name ` set ds"
    using graph unfolding valid_graph_def dep_edges_def by force
  ultimately show "run_graph_ok db2 rid" using e graph by (simp add: run_graph_ok_def valid_graph_def)
  show "run_graph_ok db2 i = run_graph_ok db i" if "i \<noteq> rid"
  proof -
    have "run_edges db2 i = run_edges db i" "run_names db2 i = run_names db i"
      using that fresh by (auto simp: run_edges_def run_names_def S)
    then show ?thesis by (simp add: run_graph_ok_def)
  qed
qed

lemma adds_run_new:
  assumes good: "good db" and add: "adds_run rid ds db db2 new r"
  shows "has_run db2 rid" "idle db2 rid"
    "s \<in> all_steps db2 \<Longrightarrow> st_run_id s = rid \<Longrightarrow> \<exists>d\<in>set ds. st_type s = sd_type d"
    "r \<in> all_runs db2" "rn_id r = rid" "rn_status r = RPending"
proof -
  have S: "all_steps db2 = all_steps db \<union> set new" and l: "list_all2 (fresh_step rid) ds new"
    and n: "tseq (loom_runs db) + 1 = rid" using add by (auto simp: adds_run_def)
  have mine: "s \<in> set new" if "s \<in> all_steps db2" "st_run_id s = rid" for s
    using that old_run_id [OF good, of s] n unfolding S by (cases "s \<in> all_steps db") auto
  show r: "r \<in> all_runs db2" "rn_id r = rid" "rn_status r = RPending" using add by (auto simp: adds_run_def)
  then show "has_run db2 rid" by (auto simp: has_run_def)
  have "st_status s \<noteq> SRunning" if "s \<in> all_steps db2" "st_run_id s = rid" for s
    using fresh_steps_set [OF l mine [OF that]] by (auto simp: fresh_step_def)
  then show "idle db2 rid" unfolding idle_def by blast
  show "\<exists>d\<in>set ds. st_type s = sd_type d" if "s \<in> all_steps db2" "st_run_id s = rid"
    using fresh_steps_set [OF l mine [OF that]] by (auto simp: fresh_step_def)
qed

lemma evolves_types:
  assumes "evolves rid a b" "s \<in> all_steps b"
  shows "\<exists>s0\<in>all_steps a. st_run_id s0 = st_run_id s \<and> st_type s0 = st_type s"
proof -
  have "list_all2 (step_evolves rid) (trows (loom_steps a)) (trows (loom_steps b))" using assms(1) by (simp add: evolves_def)
  from list_all2_ex2 [OF this assms(2)] show ?thesis by (auto simp: step_evolves_def same_shape_def)
qed

lemma adds_run_cost:
  assumes "adds_run rid ds db db2 new r"
  shows "budget db2 \<le> budget db + 22 * length ds"
proof -
  have "step_cost s \<le> 22" if "fresh_step rid d s" for d s
    using that by (auto simp: fresh_step_def step_cost_def retry_ok_def MAX_STEP_RETRIES_def)
  moreover have l: "list_all2 (fresh_step rid) ds new" using assms unfolding adds_run_def by blast
  ultimately have "\<forall>s\<in>set new. step_cost s \<le> 22" using fresh_steps_set by blast
  then have "sum_list (map step_cost new) \<le> sum_list (map (\<lambda>_. 22) new)" by (intro sum_list_mono) auto
  also have "\<dots> = 22 * length ds" using list_all2_lengthD [OF l] by (simp add: sum_list_triv)
  finally have "sum_list (map step_cost new) \<le> 22 * length ds" .
  then show ?thesis using assms by (simp add: adds_run_def budget_def)
qed

definition workflows_ok :: "loom_db \<Rightarrow> bool" where
  "workflows_ok db \<longleftrightarrow> wf_table wf_id (loom_workflows db)
     \<and> (\<forall>w\<in>set (trows (loom_workflows db)). valid_graph (wf_steps w))"

definition chosen_workflow :: "create_run_request \<Rightarrow> loom_db \<Rightarrow> workflow option" where
  "chosen_workflow req db =
     (if 0 < cr_workflow_id req then find_where (\<lambda>w. wf_id w = cr_workflow_id req) (loom_workflows db)
      else (case cr_workflow_name req of None \<Rightarrow> None
            | Some n \<Rightarrow> find_where (\<lambda>w. wf_name w = n) (loom_workflows db)))"

lemma chosen_workflow_in: "chosen_workflow req db = Some w \<Longrightarrow> w \<in> set (trows (loom_workflows db))"
  by (auto simp: chosen_workflow_def split: if_splits option.splits dest: find_where_Some)

lemma create_run_parts:
  assumes good: "good db" and wok: "workflows_ok db" and w: "chosen_workflow req db = Some w" "wf_steps w \<noteq> []"
  shows "\<exists>rid db3 new r. adds_run rid (wf_steps w) db db3 new r \<and> rn_workflow_id r = wf_id w
    \<and> loom_workflows db3 = loom_workflows db \<and> tseq (loom_runs db3) = rid
    \<and> tseq (loom_steps db) \<le> tseq (loom_steps db3) \<and> (\<forall>s\<in>set new. tseq (loom_steps db) < st_id s)
    \<and> (\<forall>adv. create_run adv req db = (case adv rid db3 of None \<Rightarrow> None
         | Some (_, db4) \<Rightarrow> Some (get_run db4 rid, db4)))"
proof -
  have win: "w \<in> set (trows (loom_workflows db))" using chosen_workflow_in [OF w(1)] .
  have graph: "valid_graph (wf_steps w)" using wok win by (simp add: workflows_ok_def)
  have f: "find_where (\<lambda>x. wf_id x = wf_id w) (loom_workflows db) = Some w"
    using wok win by (simp add: workflows_ok_def wf_table_find)
  let ?inp = "case cr_input req of Some i \<Rightarrow> i | None \<Rightarrow> JObj []"
  obtain rid db1 where ins: "insert_run (wf_id w) ?inp db = (rid, db1)" by fastforce
  define db2 where "db2 = fold (insert_step rid) (wf_steps w) db1"
  from create_run_tables [OF good graph ins db2_def] obtain new r where
    t: "adds_run rid (wf_steps w) db db2 new r" "rn_workflow_id r = wf_id w" "loom_workflows db2 = loom_workflows db"
      "tseq (loom_runs db2) = rid" "tseq (loom_steps db) \<le> tseq (loom_steps db2)"
      "\<forall>s\<in>set new. tseq (loom_steps db) < st_id s" unfolding adds_run_def by metis
  have "has_run db2 rid" using t(1) by (auto simp: adds_run_def has_run_def)
  then obtain db2' where l: "add_log rid None ''info'' (''run created for workflow '' @ quoted (wf_name w)) None db2
      = Some (Ok (), db2')" and c: "same_core db2 db2'" using add_log_ok [of db2 rid None] by force
  define db3 where "db3 = notify ''tasks'' ''workflow.run.created''
      (JObj [(''run_id'', JNum (show_int rid)), (''status'', JStr ''pending''),
             (''workflow_id'', JNum (show_int (wf_id w)))]) db2'"
  have c3: "same_core db2 db3" using c notify_core [of db2'] by (simp add: db3_def same_core_def)
  have chosen: "(if 0 < cr_workflow_id req then Ok (cr_workflow_id req)
            else (case cr_workflow_name req of
                    Some name \<Rightarrow> map_sum id wf_id (get_workflow_by_name db name)
                  | None \<Rightarrow> Err (InvalidInput ''workflow_id or workflow_name required''))) = Ok (wf_id w)"
    using w(1) by (auto simp: chosen_workflow_def get_workflow_by_name_def split: if_splits option.splits
        dest: find_where_Some)
  have "create_run adv req db = (case adv rid db3 of None \<Rightarrow> None
         | Some (_, db4) \<Rightarrow> Some (get_run db4 rid, db4))" for adv
    unfolding create_run_def chosen using f w(2) ins l
    by (simp add: db2_def [symmetric] db3_def [symmetric] try_bind_def Let_def)
  moreover have "adds_run rid (wf_steps w) db db3 new r" using t(1) c3 by (simp add: adds_run_def same_core_def)
  ultimately show ?thesis using t(2-6) c3 unfolding same_core_def
    by (intro exI [of _ rid] exI [of _ db3] exI [of _ new] exI [of _ r]) simp
qed

text \<open>Without a workflow that has steps nothing is created.\<close>

lemma create_run_rejects:
  assumes "workflows_ok db" "chosen_workflow req db = None \<or> (\<exists>w. chosen_workflow req db = Some w \<and> wf_steps w = [])"
  shows "\<exists>e. create_run adv req db = Some (Err e, db)"
proof (cases "0 < cr_workflow_id req")
  case True
  with assms(2) show ?thesis by (auto simp: chosen_workflow_def create_run_def)
next
  case False
  have "find_where (\<lambda>x. wf_id x = wf_id w) (loom_workflows db) = Some w"
    if "find_where (\<lambda>w. wf_name w = n) (loom_workflows db) = Some w" for n w
    using that assms(1) by (auto simp: workflows_ok_def wf_table_find dest: find_where_Some)
  with False assms(2) show ?thesis
    by (auto simp: chosen_workflow_def create_run_def get_workflow_by_name_def split: option.splits)
qed

section \<open>The invariant of all tables, and what time does not change\<close>

definition loom_inv :: "loom_db \<Rightarrow> bool" where
  "loom_inv db \<longleftrightarrow> good db \<and> workflows_ok db \<and> (\<forall>rid. run_graph_ok db rid)
     \<and> (\<forall>r\<in>all_runs db. \<exists>w\<in>set (trows (loom_workflows db)). wf_id w = rn_workflow_id r)"

text \<open>
  Between an earlier and a later state: a row that is still there keeps its identity, a finished run
  its status, a completed step everything; and ids are never handed out again.
\<close>

definition frozen_run :: "run \<Rightarrow> run \<Rightarrow> bool" where
  "frozen_run r r' \<longleftrightarrow> rn_id r' = rn_id r \<and> rn_workflow_id r' = rn_workflow_id r \<and> rn_input r' = rn_input r
     \<and> (terminal (rn_status r) \<longrightarrow> rn_status r' = rn_status r)"

definition frozen_step :: "step \<Rightarrow> step \<Rightarrow> bool" where
  "frozen_step s s' \<longleftrightarrow> same_shape s s' \<and> (st_status s = SCompleted \<longrightarrow> s' = s)"

definition frozen :: "loom_db \<Rightarrow> loom_db \<Rightarrow> bool" where
  "frozen db db' \<longleftrightarrow> tseq (loom_runs db) \<le> tseq (loom_runs db') \<and> tseq (loom_steps db) \<le> tseq (loom_steps db')
     \<and> (\<forall>r'\<in>all_runs db'. rn_id r' \<le> tseq (loom_runs db) \<longrightarrow> (\<exists>r\<in>all_runs db. frozen_run r r'))
     \<and> (\<forall>s'\<in>all_steps db'. st_id s' \<le> tseq (loom_steps db) \<longrightarrow> (\<exists>s\<in>all_steps db. frozen_step s s'))"

lemma frozen_refl: "frozen db db"
  by (auto simp: frozen_def frozen_run_def frozen_step_def same_shape_def)

lemma frozen_run_trans: "frozen_run a b \<Longrightarrow> frozen_run b c \<Longrightarrow> frozen_run a c"
  by (auto simp: frozen_run_def)

lemma frozen_step_trans: "frozen_step a b \<Longrightarrow> frozen_step b c \<Longrightarrow> frozen_step a c"
  by (auto simp: frozen_step_def same_shape_def)

lemma frozen_trans:
  assumes "frozen a b" "frozen b c" shows "frozen a c"
proof -
  have "\<exists>r\<in>all_runs a. frozen_run r r'" if "r' \<in> all_runs c" "rn_id r' \<le> tseq (loom_runs a)" for r'
  proof -
    from that assms obtain x where x: "x \<in> all_runs b" "frozen_run x r'" unfolding frozen_def by force
    then have "rn_id x \<le> tseq (loom_runs a)" using that(2) by (simp add: frozen_run_def)
    with x assms(1) obtain y where "y \<in> all_runs a" "frozen_run y x" unfolding frozen_def by blast
    with x show ?thesis by (blast intro: frozen_run_trans)
  qed
  moreover have "\<exists>s\<in>all_steps a. frozen_step s s'" if "s' \<in> all_steps c" "st_id s' \<le> tseq (loom_steps a)" for s'
  proof -
    from that assms obtain x where x: "x \<in> all_steps b" "frozen_step x s'" unfolding frozen_def by force
    then have "st_id x \<le> tseq (loom_steps a)" using that(2) by (simp add: frozen_step_def same_shape_def)
    with x assms(1) obtain y where "y \<in> all_steps a" "frozen_step y x" unfolding frozen_def by blast
    with x show ?thesis by (blast intro: frozen_step_trans)
  qed
  ultimately show ?thesis using assms by (auto simp: frozen_def)
qed

lemma evolves_frozen:
  assumes "evolves rid a b" shows "frozen a b"
proof -
  have "\<exists>r\<in>all_runs a. frozen_run r r'" if "r' \<in> all_runs b" for r'
    using that assms unfolding evolves_def frozen_run_def
    by (metis (no_types, lifting) list_all2_ex2 run_evolves_def)
  moreover have "\<exists>s\<in>all_steps a. frozen_step s s'" if "s' \<in> all_steps b" for s'
    using that assms unfolding evolves_def frozen_step_def
    by (metis (no_types, lifting) list_all2_ex2 step_evolves_def)
  ultimately show ?thesis using assms by (simp add: frozen_def evolves_def)
qed

lemma evolves_inv:
  assumes "loom_inv a" "good b" "evolves rid a b" shows "loom_inv b"
proof -
  have "\<exists>w\<in>set (trows (loom_workflows b)). wf_id w = rn_workflow_id r" if "r \<in> all_runs b" for r
  proof -
    from that assms(3) obtain x where "x \<in> all_runs a" "run_evolves rid x r"
      unfolding evolves_def using list_all2_ex2 by metis
    with assms(1,3) show ?thesis by (auto simp: loom_inv_def run_evolves_def evolves_def)
  qed
  with assms evolves_graph [OF assms(3)] show ?thesis
    by (simp add: loom_inv_def workflows_ok_def evolves_def)
qed

lemma same_core_inv: "same_core a b \<Longrightarrow> loom_inv a \<Longrightarrow> loom_inv b \<and> frozen a b"
  using same_core_transfer(1,3) [of a b] evolves_inv [of a b 0] evolves_frozen [of 0 a b] evolves_refl [of 0 a]
  by (auto simp: loom_inv_def)

lemma adds_run_inv:
  assumes inv: "loom_inv db" and add: "adds_run rid ds db db2 new r" and graph: "valid_graph ds"
    and wf: "loom_workflows db2 = loom_workflows db"
    and w: "\<exists>w\<in>set (trows (loom_workflows db)). wf_id w = rn_workflow_id r"
  shows "loom_inv db2"
proof -
  have good: "good db" using inv by (simp add: loom_inv_def)
  have "run_graph_ok db2 i" for i
    using adds_run_graph [OF good graph add] inv by (cases "i = rid") (auto simp: loom_inv_def)
  moreover have "all_runs db2 = insert r (all_runs db)" using add by (simp add: adds_run_def)
  ultimately show ?thesis using adds_run_good [OF good graph add] inv w wf
    by (auto simp: loom_inv_def workflows_ok_def)
qed

lemma adds_run_frozen:
  assumes add: "adds_run rid ds db db2 new r" and seq: "tseq (loom_runs db2) = rid"
    "tseq (loom_steps db) \<le> tseq (loom_steps db2)" and ids: "\<forall>s\<in>set new. tseq (loom_steps db) < st_id s"
  shows "frozen db db2"
proof -
  have S: "all_steps db2 = all_steps db \<union> set new" and R: "all_runs db2 = insert r (all_runs db)"
    and r: "tseq (loom_runs db) + 1 = rn_id r" using add by (auto simp: adds_run_def)
  show ?thesis using seq ids r add unfolding frozen_def S R
    by (fastforce simp: adds_run_def frozen_run_def frozen_step_def same_shape_def)
qed

section \<open>The operations\<close>

lemma remap_keeps:
  assumes inv: "loom_inv db" and re: "remap g h db db'" and good: "good db'"
    and g: "\<And>s. same_shape s (g s)" "\<And>s. s \<in> all_steps db \<Longrightarrow> frozen_step s (g s)"
    and h: "\<And>r. r \<in> all_runs db \<Longrightarrow> frozen_run r (h r)"
  shows "loom_inv db' \<and> frozen db db'"
proof -
  have S: "all_steps db' = g ` all_steps db" and R: "all_runs db' = h ` all_runs db"
    and W: "loom_workflows db' = loom_workflows db" using re by (auto simp: remap_def)
  have "run_graph_ok db' rid" for rid
  proof -
    have "run_graph_ok db' rid = run_graph_ok db rid"
      by (rule run_graph_ok_image(3)) (use g(1) in \<open>simp add: S image_image same_shape_def\<close>)
    with inv show ?thesis by (simp add: loom_inv_def)
  qed
  moreover have "frozen db db'" using re g(2) h unfolding frozen_def S R by (auto simp: remap_def)
  moreover have "\<exists>w\<in>set (trows (loom_workflows db)). wf_id w = rn_workflow_id (h r)" if "r \<in> all_runs db" for r
    using inv h [OF that] that by (auto simp: loom_inv_def frozen_run_def)
  ultimately show ?thesis using inv good by (simp add: loom_inv_def workflows_ok_def R W)
qed

text \<open>Cancelling: the run is cancelled and its open steps are skipped.\<close>

definition cancel_row :: "int \<Rightarrow> int \<Rightarrow> run \<Rightarrow> run" where
  "cancel_row rid t x = (if rn_id x = rid then x\<lparr>rn_status := RCancelled, rn_updated_at := t\<rparr> else x)"

definition skip_row :: "int \<Rightarrow> step \<Rightarrow> step" where
  "skip_row rid s = (if st_run_id s = rid \<and> step_open s then s\<lparr>st_status := SSkipped\<rparr> else s)"

lemma cancel_run_open:
  assumes inv: "loom_inv db" and r: "r \<in> all_runs db" "rn_id r = rid" "\<not> terminal (rn_status r)"
  shows "\<exists>db'. cancel_run rid db = Some (Ok True, db') \<and> loom_inv db' \<and> frozen db db'
    \<and> all_runs db' = cancel_row rid (now db) ` all_runs db \<and> all_steps db' = skip_row rid ` all_steps db"
proof -
  have good: "good db" using inv by (simp add: loom_inv_def)
  define db2 where "db2 = (upd_run rid (\<lambda>x. x\<lparr>rn_status := RCancelled, rn_updated_at := now db\<rparr>) db)
      \<lparr>loom_steps := update_where (\<lambda>s. st_run_id s = rid \<and> step_open s)
      (\<lambda>s. s\<lparr>st_status := SSkipped\<rparr>) (loom_steps db)\<rparr>"
  have re: "remap (skip_row rid) (cancel_row rid (now db)) db db2"
    by (simp add: db2_def remap_def upd_run_def skip_row_def cancel_row_def table_simps)
  have only: "x = r" if "x \<in> all_runs db" "rn_id x = rid" for x
    using good_unique_run [OF good that(1) r(1)] that(2) r(2) by simp
  have "good db2"
  proof (rule good_remap [OF good re])
    show "step_agrees (cancel_row rid (now db) x) (skip_row rid s)"
      if "s \<in> all_steps db" "x \<in> all_runs db" "rn_id x = st_run_id s" for s x
      using good_agrees [OF good that] r(3) only [OF that(2)] that(3)
      by (cases "st_status s") (auto simp: step_agrees_def skip_row_def cancel_row_def step_open_def terminal_def)
  qed (use good_retry [OF good] good_step_deps [OF good] in
      \<open>auto simp: skip_row_def cancel_row_def same_shape_def retry_ok_def started_def step_open_def split: if_splits\<close>)
  then have "loom_inv db2 \<and> frozen db db2"
    by (rule remap_keeps [OF inv re]) (use only r(3) in
      \<open>auto simp: frozen_step_def frozen_run_def same_shape_def skip_row_def cancel_row_def step_open_def\<close>)
  then have inv2: "loom_inv db2" "frozen db db2" by blast+
  have R: "all_runs db2 = cancel_row rid (now db) ` all_runs db" and S: "all_steps db2 = skip_row rid ` all_steps db"
    using re by (simp_all add: remap_def)
  have "has_run db2 rid" using r(1,2) unfolding has_run_def R
    by (intro bexI [of _ "cancel_row rid (now db) r"]) (simp_all add: cancel_row_def)
  then obtain db3 where l: "add_log rid None ''info'' ''run cancelled'' None db2 = Some (Ok (), db3)"
    and c3: "same_core db2 db3" using add_log_ok [of db2 rid None] by force
  define db4 where "db4 = notify ''tasks'' ''workflow.run.cancelled'' (JObj [(''run_id'', JNum (show_int rid))]) db3"
  have core: "same_core db2 db4" using c3 notify_core [of db3] by (simp add: db4_def same_core_def)
  have "cancel_run rid db = Some (Ok True, db4)"
    using l r good_find_run [OF good r(1)]
    by (simp add: cancel_run_def get_run_def db2_def db4_def upd_run_def try_bind_def Let_def)
  moreover have "frozen db db4" using frozen_trans [OF inv2(2)] same_core_inv [OF core inv2(1)] by blast
  ultimately show ?thesis using same_core_inv [OF core inv2(1)] R S core by (auto simp: same_core_def)
qed

lemma cancel_run_ok:
  assumes inv: "loom_inv db" and c: "cancel_run rid db = Some (res, db')"
  shows "loom_inv db' \<and> frozen db db'"
proof (cases "\<exists>r\<in>all_runs db. rn_id r = rid \<and> \<not> terminal (rn_status r)")
  case True
  then show ?thesis using cancel_run_open [OF inv] c by force
next
  case False
  have "db' = db"
  proof (cases "find_where (\<lambda>r. rn_id r = rid) (loom_runs db)")
    case None
    with c show ?thesis by (auto simp: cancel_run_def get_run_def)
  next
    case (Some r)
    with False have "terminal (rn_status r)" by (auto dest: find_where_Some)
    with Some c show ?thesis by (auto simp: cancel_run_def get_run_def)
  qed
  with inv show ?thesis by (simp add: frozen_refl)
qed

text \<open>Deleting a workflow takes its runs and their steps along, so no row is left without its run.\<close>

lemma delete_workflow_ok:
  assumes inv: "loom_inv db" and del: "delete_workflow i db = (res, db')"
  shows "loom_inv db' \<and> frozen db db'"
proof (cases "find_where (\<lambda>w. wf_id w = i) (loom_workflows db) = None")
  case True
  with inv del show ?thesis by (auto simp: delete_workflow_def Let_def frozen_refl)
next
  case False
  have good: "good db" using inv by (simp add: loom_inv_def)
  define gone where "gone = {rn_id r | r. r \<in> all_runs db \<and> rn_workflow_id r = i}"
  have sel: "rn_id ` set (select_where (\<lambda>r. rn_workflow_id r = i) (loom_runs db)) = gone"
    by (auto simp: gone_def select_where_def)
  have e: "loom_steps db' = delete_where (\<lambda>s. st_run_id s \<in> gone) (loom_steps db)"
    "loom_runs db' = delete_where (\<lambda>r. rn_workflow_id r = i) (loom_runs db)"
    "loom_workflows db' = delete_where (\<lambda>w. wf_id w = i) (loom_workflows db)"
    using del False by (auto simp: delete_workflow_def Let_def sel)
  have S: "all_steps db' = {s \<in> all_steps db. st_run_id s \<notin> gone}"
    and R: "all_runs db' = {r \<in> all_runs db. rn_workflow_id r \<noteq> i}"
    and W: "set (trows (loom_workflows db')) = {w \<in> set (trows (loom_workflows db)). wf_id w \<noteq> i}"
    and seq: "tseq (loom_steps db') = tseq (loom_steps db)" "tseq (loom_runs db') = tseq (loom_runs db)"
    and wf: "wf_table st_id (loom_steps db')" "wf_table rn_id (loom_runs db')" "wf_table wf_id (loom_workflows db')"
    using good inv unfolding e by (auto simp: table_simps good_def loom_inv_def workflows_ok_def wf_delete_where)
  have stay: "r \<in> all_runs db' \<longleftrightarrow> rn_id r \<notin> gone" if "r \<in> all_runs db" for r
    using that good_unique_run [OF good that] unfolding R gone_def by blast
  have dn: "dep_done db' rid d \<longleftrightarrow> dep_done db rid d" if "rid \<notin> gone" for rid d
    using that by (auto simp: dep_done_def S)
  have run: "\<exists>r\<in>all_runs db'. rn_id r = st_run_id s" if "s \<in> all_steps db'" for s
    using that good_step_run [OF good, of s] stay unfolding S has_run_def by auto
  have "good db'" unfolding good_def
    using wf run good_retry [OF good] good_names [OF good] good_agrees [OF good] good_step_deps [OF good] dn
    unfolding S R by auto
  moreover have "run_graph_ok db' rid" for rid
  proof (cases "rid \<in> gone")
    case True
    then have "run_edges db' rid = {}" by (auto simp: run_edges_def S)
    then show ?thesis by (simp add: run_graph_ok_def acyclic_def)
  next
    case False
    then have "run_edges db' rid = run_edges db rid" "run_names db' rid = run_names db rid"
      by (auto simp: run_edges_def run_names_def S)
    with inv show ?thesis by (simp add: loom_inv_def run_graph_ok_def)
  qed
  moreover have "frozen db db'" unfolding frozen_def S R seq
    by (auto simp: frozen_run_def frozen_step_def same_shape_def)
  moreover have "\<exists>w\<in>set (trows (loom_workflows db')). wf_id w = rn_workflow_id r" if "r \<in> all_runs db'" for r
    using that inv unfolding W R loom_inv_def by fastforce
  ultimately show ?thesis using inv wf(3) W by (auto simp: loom_inv_def workflows_ok_def)
qed

text \<open>What the environment promises: iterating a hash map yields each of its keys once.\<close>

definition env_ok :: "loom_env \<Rightarrow> bool" where
  "env_ok env \<longleftrightarrow> (\<forall>xs. mset (hash_order env xs) = mset xs)"

lemma workflows_changed:
  assumes "loom_inv db" "loom_steps db' = loom_steps db" "loom_runs db' = loom_runs db" "workflows_ok db'"
    and "wf_id ` set (trows (loom_workflows db)) \<subseteq> wf_id ` set (trows (loom_workflows db'))"
  shows "loom_inv db' \<and> frozen db db'"
proof -
  have "good db'" using assms(1-3) by (simp add: loom_inv_def good_def dep_done_def)
  moreover have "run_graph_ok db' rid" for rid
    using assms(1,2) by (simp add: loom_inv_def run_graph_ok_def run_edges_def run_names_def)
  moreover have "\<exists>w\<in>set (trows (loom_workflows db')). wf_id w = rn_workflow_id r" if "r \<in> all_runs db'" for r
    using that assms(1,3,5) by (force simp: loom_inv_def)
  moreover have "frozen db db'" using frozen_refl [of db] assms(2,3) by (simp add: frozen_def)
  ultimately show ?thesis using assms(4) by (simp add: loom_inv_def)
qed

lemma create_workflow_ok:
  assumes env: "env_ok env" and inv: "loom_inv db" and c: "create_workflow env req db = (res, db')"
  shows "loom_inv db' \<and> frozen db db'"
proof (cases "db' = db")
  case True
  with inv show ?thesis by (simp add: frozen_refl)
next
  case False
  let ?mk = "\<lambda>i. \<lparr>wf_id = i, wf_name = cw_name req, wf_description = cw_description req,
      wf_steps = cw_steps req, wf_created_at = now db, wf_updated_at = now db\<rparr>"
  from c False have v: "validate_step_graph (hash_order env) (cw_steps req) = Ok ()"
    and e: "db' = db\<lparr>loom_workflows := snd (insert_row ?mk (loom_workflows db))\<rparr>"
    by (auto simp: create_workflow_def Let_def split: sum.splits if_splits option.splits prod.splits)
  have "valid_graph (cw_steps req)" using v validate_Ok_valid env by (simp add: env_ok_def)
  then have "workflows_ok db'"
    using inv by (auto simp: e workflows_ok_def loom_inv_def table_simps wf_insert_row)
  with inv show ?thesis by (intro workflows_changed) (auto simp: e table_simps)
qed

lemma update_workflow_ok:
  assumes env: "env_ok env" and inv: "loom_inv db" and u: "update_workflow env i req db = (res, db')"
  shows "loom_inv db' \<and> frozen db db'"
proof (cases "db' = db")
  case True
  with inv show ?thesis by (simp add: frozen_refl)
next
  case False
  let ?f = "\<lambda>w. w\<lparr>wf_name := (case uw_name req of None \<Rightarrow> wf_name w | Some n \<Rightarrow> n),
      wf_description := (case uw_description req of None \<Rightarrow> wf_description w | Some d \<Rightarrow> Some d),
      wf_steps := (case uw_steps req of None \<Rightarrow> wf_steps w | Some ss \<Rightarrow> ss), wf_updated_at := now db\<rparr>"
  from u False have v: "\<And>ss. uw_steps req = Some ss \<Longrightarrow> validate_step_graph (hash_order env) ss = Ok ()"
    and e: "db' = db\<lparr>loom_workflows := update_where (\<lambda>w. wf_id w = i) ?f (loom_workflows db)\<rparr>"
    by (auto simp: update_workflow_def Let_def split: sum.splits if_splits option.splits)
  have vg: "valid_graph ss" if "uw_steps req = Some ss" for ss
    using v [OF that] validate_Ok_valid env by (simp add: env_ok_def)
  have "wf_table wf_id (loom_workflows db')"
    using inv by (simp add: e loom_inv_def workflows_ok_def wf_update_where)
  moreover have "\<forall>w\<in>set (trows (loom_workflows db')). valid_graph (wf_steps w)"
    using inv vg by (auto simp: e loom_inv_def workflows_ok_def table_simps split: option.splits)
  ultimately have "workflows_ok db'" by (simp add: workflows_ok_def)
  moreover have "wf_id ` set (trows (loom_workflows db')) = wf_id ` set (trows (loom_workflows db))"
    by (simp add: e image_update_where)
  ultimately show ?thesis using inv by (intro workflows_changed) (simp_all add: e)
qed

text \<open>Re-arming: in an active run no automated step is left running.\<close>

definition active :: "loom_db \<Rightarrow> int \<Rightarrow> bool" where
  "active db rid \<longleftrightarrow> (\<exists>r\<in>all_runs db. rn_id r = rid \<and> rn_status r \<in> {RPending, RRunning})"

lemma set_active_run_ids: "rid \<in> set (active_run_ids db) \<longleftrightarrow> active db rid"
  by (auto simp: active_run_ids_def active_def select_where_def)

lemma rearm_orphans_ok:
  assumes inv: "loom_inv db"
  shows "loom_inv (rearm_orphans db) \<and> frozen db (rearm_orphans db)
    \<and> budget (rearm_orphans db) \<le> budget db + length (trows (loom_steps db))
    \<and> (\<forall>rid. active db rid \<longrightarrow> idle (rearm_orphans db) rid)
    \<and> loom_runs (rearm_orphans db) = loom_runs db"
proof -
  have good: "good db" using inv by (simp add: loom_inv_def)
  define P where "P s \<longleftrightarrow> st_status s = SRunning \<and> automated (st_type s) \<and> st_run_id s \<in> set (active_run_ids db)" for s :: step
  define g where "g s = (if P s then s\<lparr>st_status := SPending, st_started_at := None\<rparr> else s)" for s
  have re: "remap g (\<lambda>r. r) db (rearm_orphans db)"
    by (simp add: remap_def rearm_orphans_def table_simps g_def P_def)
  have sh: "same_shape s (g s)" for s by (simp add: g_def same_shape_def)
  have agr: "step_agrees r (g s)" if "step_agrees r s" for r s
    using that by (auto simp: step_agrees_def g_def P_def step_open_def)
  have g': "good (rearm_orphans db)"
    by (rule good_remap [OF good re sh])
       (use good_retry [OF good] good_agrees [OF good] good_step_deps [OF good] agr in
         \<open>auto simp: g_def P_def retry_ok_def started_def split: if_splits\<close>)
  have S: "all_steps (rearm_orphans db) = g ` all_steps db" using re by (simp add: remap_def)
  have "loom_inv (rearm_orphans db) \<and> frozen db (rearm_orphans db)"
    by (rule remap_keeps [OF inv re g' sh]) (use sh in \<open>auto simp: frozen_step_def frozen_run_def g_def P_def\<close>)
  moreover have "budget (rearm_orphans db) \<le> budget db + length (trows (loom_steps db))"
  proof -
    have "budget (rearm_orphans db) = sum_list (map (\<lambda>s. step_cost (g s)) (trows (loom_steps db)))"
      using re by (simp add: budget_def remap_def comp_def)
    also have "\<dots> \<le> sum_list (map (\<lambda>s. step_cost s + 1) (trows (loom_steps db)))"
      by (rule sum_list_mono) (simp add: g_def P_def step_cost_def)
    also have "\<dots> = budget db + length (trows (loom_steps db))" by (simp add: budget_def sum_list_Suc)
    finally show ?thesis .
  qed
  moreover have "idle (rearm_orphans db) rid" if "active db rid" for rid
    using that by (auto simp: idle_def S g_def P_def set_active_run_ids split: if_splits)
  moreover have "loom_runs (rearm_orphans db) = loom_runs db" by (simp add: rearm_orphans_def)
  ultimately show ?thesis by blast
qed

text \<open>Advancing one run does not touch the others.\<close>

lemma list_all2_same_part:
  assumes "list_all2 R xs ys" "\<And>x y. R x y \<Longrightarrow> P x \<or> P y \<Longrightarrow> y = x"
  shows "{y \<in> set ys. P y} = {x \<in> set xs. P x}"
  using assms(1)
proof (induction rule: list_all2_induct)
  case (Cons x xs y ys)
  then show ?case using assms(2) [OF Cons.hyps(1)] by (cases "P x \<or> P y") auto
qed simp

lemma evolves_other:
  assumes ev: "evolves j a b" and ne: "i \<noteq> j"
  shows "{s \<in> all_steps b. st_run_id s = i} = {s \<in> all_steps a. st_run_id s = i}"
    and "{r \<in> all_runs b. rn_id r = i} = {r \<in> all_runs a. rn_id r = i}"
proof -
  have s: "step_evolves j x y \<Longrightarrow> st_run_id x = i \<or> st_run_id y = i \<Longrightarrow> y = x" for x y
    using ne by (auto simp: step_evolves_def same_shape_def)
  have r: "run_evolves j x y \<Longrightarrow> rn_id x = i \<or> rn_id y = i \<Longrightarrow> y = x" for x y
    using ne by (auto simp: run_evolves_def)
  have l: "list_all2 (step_evolves j) (trows (loom_steps a)) (trows (loom_steps b))"
    "list_all2 (run_evolves j) (trows (loom_runs a)) (trows (loom_runs b))" using ev by (auto simp: evolves_def)
  show "{s \<in> all_steps b. st_run_id s = i} = {s \<in> all_steps a. st_run_id s = i}"
    using list_all2_same_part [OF l(1), of "\<lambda>s. st_run_id s = i"] s by blast
  show "{r \<in> all_runs b. rn_id r = i} = {r \<in> all_runs a. rn_id r = i}"
    using list_all2_same_part [OF l(2), of "\<lambda>r. rn_id r = i"] r by blast
qed

lemma same_steps_of_run:
  assumes "{s \<in> all_steps b. st_run_id s = i} = {s \<in> all_steps a. st_run_id s = i}"
    and "{r \<in> all_runs b. rn_id r = i} = {r \<in> all_runs a. rn_id r = i}"
  shows "quiescent b i = quiescent a i" "idle b i = idle a i" "has_run b i = has_run a i"
proof -
  have st: "s \<in> all_steps b \<and> st_run_id s = i \<longleftrightarrow> s \<in> all_steps a \<and> st_run_id s = i" for s using assms(1) by blast
  have rn: "r \<in> all_runs b \<and> rn_id r = i \<longleftrightarrow> r \<in> all_runs a \<and> rn_id r = i" for r using assms(2) by blast
  have d: "dep_done b i d = dep_done a i d" for d unfolding dep_done_def using st by blast
  have t: "run_terminal b i = run_terminal a i" unfolding run_terminal_def using rn by blast
  have op: "has_open b i = has_open a i" unfolding has_open_def using st by blast
  have "(\<forall>s\<in>all_steps b. st_run_id s = i \<longrightarrow> \<not> is_ready b s) = (\<forall>s\<in>all_steps a. st_run_id s = i \<longrightarrow> \<not> is_ready a s)"
    unfolding is_ready_def using st d by blast
  with t op show "quiescent b i = quiescent a i" by (simp add: quiescent_def)
  show "idle b i = idle a i" unfolding idle_def using st by blast
  show "has_run b i = has_run a i" unfolding has_run_def using rn by blast
qed

text \<open>Every step of the later state was there, with the same run and type.\<close>

definition all_steps_from :: "loom_db \<Rightarrow> loom_db \<Rightarrow> bool" where
  "all_steps_from a b \<longleftrightarrow>
     (\<forall>s\<in>all_steps b. \<exists>s0\<in>all_steps a. st_run_id s0 = st_run_id s \<and> st_type s0 = st_type s)"

lemma all_steps_from_trans: "all_steps_from a b \<Longrightarrow> all_steps_from b c \<Longrightarrow> all_steps_from a c"
  unfolding all_steps_from_def by metis

lemma advance_each_ok:
  assumes "loom_inv db" "\<forall>i\<in>set ids. has_run db i" "budget db < n"
  shows "\<exists>k db'. advance_each (advance_run env n) ids acc db = Some (Ok k, db') \<and> loom_inv db' \<and> frozen db db'
    \<and> k = acc + length ids
    \<and> (\<forall>i. i \<in> set ids \<or> quiescent db i \<longrightarrow> quiescent db' i) \<and> (\<forall>i. idle db i \<longrightarrow> idle db' i)
    \<and> all_steps_from db db'"
  using assms
proof (induction ids arbitrary: acc db)
  case Nil
  then show ?case by (auto simp: frozen_refl all_steps_from_def)
next
  case (Cons j ids)
  have good: "good db" using Cons.prems(1) by (simp add: loom_inv_def)
  from engine.adv_ok [OF good, of j n env] Cons.prems obtain db1 where
    a: "advance_run env n j db = Some (Ok (), db1)" "good db1" "evolves j db db1" "budget db1 \<le> budget db"
      "quiescent db1 j" "idle db j \<longrightarrow> idle db1 j" by auto
  have inv1: "loom_inv db1" using evolves_inv [OF Cons.prems(1) a(2,3)] .
  have has1: "\<forall>i\<in>set ids. has_run db1 i" using Cons.prems(2) evolves_has_run [OF a(3)] by simp
  have b1: "budget db1 < n" using a(4) Cons.prems(3) by simp
  note keep = same_steps_of_run [OF evolves_other [OF a(3)]]
  from Cons.IH [OF inv1 has1 b1, of "acc + 1"] obtain db2 where
    r: "advance_each (advance_run env n) ids (acc + 1) db1 = Some (Ok (acc + 1 + length ids), db2)" "loom_inv db2"
      "frozen db1 db2" "\<forall>i. i \<in> set ids \<or> quiescent db1 i \<longrightarrow> quiescent db2 i" "\<forall>i. idle db1 i \<longrightarrow> idle db2 i"
      "all_steps_from db1 db2" by blast
  have "all_steps_from db db1" unfolding all_steps_from_def using evolves_types [OF a(3)] by blast
  then have "all_steps_from db db2" using all_steps_from_trans r(6) by blast
  moreover have "quiescent db2 i" if "i \<in> set (j # ids) \<or> quiescent db i" for i
    using that r(4) a(5) keep(1) [of i] by (cases "i = j") auto
  moreover have "idle db2 i" if "idle db i" for i
    using that r(5) a(6) keep(2) [of i] by (cases "i = j") auto
  moreover have "frozen db db2" using frozen_trans [OF evolves_frozen [OF a(3)] r(3)] .
  ultimately show ?case using a(1) r(1,2) by simp
qed

lemma advance_each_mono:
  assumes "extends a b" "advance_each a ids k db = Some x" shows "advance_each b ids k db = Some x"
  using assms(2)
proof (induction ids arbitrary: k db)
  case (Cons i ids)
  from Cons.prems obtain r db1 where "a i db = Some (r, db1)" by (auto split: option.splits)
  moreover from this have "b i db = Some (r, db1)" using assms(1) by (simp add: extends_def)
  ultimately show ?case using Cons by (auto split: sum.splits)
qed simp

lemma recover_ok:
  assumes inv: "loom_inv db" and fuel: "budget db + length (trows (loom_steps db)) < n"
  shows "\<exists>db'. recover_inflight_runs (advance_run env n) db
      = Some (Ok (length (active_run_ids db)), db') \<and> loom_inv db' \<and> frozen db db'
    \<and> (\<forall>i. active db i \<longrightarrow> quiescent db' i \<and> idle db' i) \<and> all_steps_from db db'"
proof -
  let ?db = "rearm_orphans db"
  note r = rearm_orphans_ok [OF inv]
  have ids: "active_run_ids ?db = active_run_ids db" using r by (simp add: active_run_ids_def)
  have "\<forall>i\<in>set (active_run_ids ?db). has_run ?db i"
    using r ids by (auto simp: set_active_run_ids active_def has_run_def)
  moreover have "budget ?db < n" using r fuel by linarith
  ultimately obtain db' where a: "advance_each (advance_run env n) (active_run_ids ?db) 0 ?db
      = Some (Ok (length (active_run_ids ?db)), db')" "loom_inv db'" "frozen ?db db'"
      "\<forall>i. i \<in> set (active_run_ids ?db) \<or> quiescent ?db i \<longrightarrow> quiescent db' i" "\<forall>i. idle ?db i \<longrightarrow> idle db' i"
      "all_steps_from ?db db'"
    using advance_each_ok [of ?db "active_run_ids ?db" n env 0] r by auto
  have "all_steps_from db ?db" by (auto simp: all_steps_from_def rearm_orphans_def table_simps)
  then have "all_steps_from db db'" using all_steps_from_trans a(6) by blast
  moreover have "frozen db db'" using r a(3) frozen_trans by blast
  moreover have "quiescent db' i \<and> idle db' i" if "active db i" for i
    using that a(4,5) r ids by (simp add: set_active_run_ids)
  ultimately show ?thesis using a(1,2) ids by (simp add: recover_inflight_runs_def)
qed

section \<open>The service as a state machine\<close>

text \<open>One call of the public interface that changes the state, or time passing.\<close>

inductive loom_step :: "loom_db \<Rightarrow> loom_db \<Rightarrow> bool" where
  create_workflow: "env_ok env \<Longrightarrow> create_workflow env req db = (res, db') \<Longrightarrow> loom_step db db'"
| update_workflow: "env_ok env \<Longrightarrow> update_workflow env i ureq db = (res, db') \<Longrightarrow> loom_step db db'"
| delete_workflow: "delete_workflow i db = (del, db') \<Longrightarrow> loom_step db db'"
| create_run: "create_run (advance_run env n) rreq db = Some (rres, db') \<Longrightarrow> loom_step db db'"
| complete_step: "complete_step (advance_run env n) i out db = Some (sres, db') \<Longrightarrow> loom_step db db'"
| fail_step: "fail_step (advance_run env n) i msg db = Some (sres, db') \<Longrightarrow> loom_step db db'"
| advance: "advance_run env n i db = Some (ures, db') \<Longrightarrow> loom_step db db'"
| cancel: "cancel_run i db = Some (bres, db') \<Longrightarrow> loom_step db db'"
| recover: "recover_inflight_runs (advance_run env n) db = Some (nres, db') \<Longrightarrow> loom_step db db'"
| time: "now db \<le> t \<Longrightarrow> loom_step db (db\<lparr>now := t\<rparr>)"

lemma evolves_keeps: "loom_inv db \<Longrightarrow> good db' \<and> evolves rid db db' \<Longrightarrow> loom_inv db' \<and> frozen db db'"
  using evolves_inv evolves_frozen by blast

lemma not_running_unchanged:
  assumes "\<not> (\<exists>s\<in>all_steps db. st_id s = i \<and> st_status s = SRunning)"
  shows "complete_step adv i out db = Some (res, db') \<Longrightarrow> db' = db"
    and "fail_step adv i msg db = Some (res, db') \<Longrightarrow> db' = db"
proof -
  have "get_step db i \<noteq> Ok s" if "st_status s = SRunning" for s
    using assms that by (auto simp: get_step_def dest: find_where_Some split: option.splits)
  then show "complete_step adv i out db = Some (res, db') \<Longrightarrow> db' = db"
    "fail_step adv i msg db = Some (res, db') \<Longrightarrow> db' = db"
    unfolding complete_step_def fail_step_def by (auto split: sum.splits if_splits)
qed

lemma create_run_keeps:
  assumes inv: "loom_inv db" and c: "create_run (advance_run env n) req db = Some (res, db')"
  shows "loom_inv db' \<and> frozen db db'"
proof (cases "\<exists>w. chosen_workflow req db = Some w \<and> wf_steps w \<noteq> []")
  case False
  then have "db' = db" using create_run_rejects [of db req "advance_run env n"] inv c
    by (cases "chosen_workflow req db") (auto simp: loom_inv_def)
  with inv show ?thesis by (simp add: frozen_refl)
next
  case True
  have good: "good db" and wok: "workflows_ok db" using inv by (auto simp: loom_inv_def)
  from True obtain w where w: "chosen_workflow req db = Some w" "wf_steps w \<noteq> []" by blast
  have win: "w \<in> set (trows (loom_workflows db))" using chosen_workflow_in [OF w(1)] .
  then have graph: "valid_graph (wf_steps w)" using wok by (simp add: workflows_ok_def)
  from create_run_parts [OF good wok w] obtain rid db3 new r where
    p: "adds_run rid (wf_steps w) db db3 new r" "rn_workflow_id r = wf_id w" "loom_workflows db3 = loom_workflows db"
      "tseq (loom_runs db3) = rid" "tseq (loom_steps db) \<le> tseq (loom_steps db3)"
      "\<forall>s\<in>set new. tseq (loom_steps db) < st_id s"
    and e: "create_run (advance_run env n) req db = (case advance_run env n rid db3 of None \<Rightarrow> None
         | Some (_, db4) \<Rightarrow> Some (get_run db4 rid, db4))" by blast
  have inv3: "loom_inv db3" using adds_run_inv [OF inv p(1) graph p(3)] win p(2) by metis
  have fr: "frozen db db3" using adds_run_frozen [OF p(1,4-6)] .
  have has: "has_run db3 rid" using p(1) by (auto simp: adds_run_def has_run_def)
  from e c obtain res' where "advance_run env n rid db3 = Some (res', db')" by (auto split: option.splits)
  with advance_run_contract [OF _ has] inv3 have "good db' \<and> evolves rid db3 db'" by (auto simp: loom_inv_def)
  with evolves_keeps [OF inv3] fr frozen_trans show ?thesis by blast
qed

text \<open>A crash right after a run and its steps are inserted leaves a consistent state, and so does one
  right after a step is claimed.\<close>

lemma created_inv:
  assumes inv: "loom_inv db" and w: "chosen_workflow req db = Some w" "wf_steps w \<noteq> []"
    and c: "create_run (\<lambda>_ d. Some (Ok (), d)) req db = Some (res, db')"
  shows "loom_inv db'"
proof -
  have good: "good db" and wok: "workflows_ok db" using inv by (auto simp: loom_inv_def)
  have win: "w \<in> set (trows (loom_workflows db))" using chosen_workflow_in [OF w(1)] .
  from create_run_parts [OF good wok w] obtain rid db3 new r where
    p: "adds_run rid (wf_steps w) db db3 new r" "rn_workflow_id r = wf_id w" "loom_workflows db3 = loom_workflows db"
    and e: "create_run (\<lambda>_ d. Some (Ok (), d)) req db = Some (get_run db3 rid, db3)" by force
  have "valid_graph (wf_steps w)" using wok win by (simp add: workflows_ok_def)
  from adds_run_inv [OF inv p(1) this p(3)] win p(2) e c show ?thesis by auto
qed

lemma claimed_inv:
  assumes inv: "loom_inv db" and s: "s \<in> all_steps db" "st_id s = rs_id r" "st_status s = SPending" "st_depends_on s = []"
  shows "loom_inv (claim r db)"
proof -
  have "good db" using inv by (simp add: loom_inv_def)
  from claim_ok [OF this s(1,2) refl s(3)] s(4) show ?thesis using evolves_inv [OF inv] by auto
qed

lemma complete_step_keeps:
  assumes inv: "loom_inv db" and c: "complete_step (advance_run env n) i out db = Some (res, db')"
  shows "loom_inv db' \<and> frozen db db'"
proof (cases "\<exists>s\<in>all_steps db. st_id s = i \<and> st_status s = SRunning")
  case True
  then obtain s where s: "s \<in> all_steps db" "st_id s = i" "st_status s = SRunning" by blast
  have "good db" using inv by (simp add: loom_inv_def)
  from complete_step_contract [OF this s(1,3), of env n out res db'] c s(2) show ?thesis
    using evolves_keeps [OF inv] by blast
next
  case False
  with not_running_unchanged(1) [OF False c] inv show ?thesis by (simp add: frozen_refl)
qed

lemma fail_step_keeps:
  assumes inv: "loom_inv db" and c: "fail_step (advance_run env n) i msg db = Some (res, db')"
  shows "loom_inv db' \<and> frozen db db'"
proof (cases "\<exists>s\<in>all_steps db. st_id s = i \<and> st_status s = SRunning")
  case True
  then obtain s where s: "s \<in> all_steps db" "st_id s = i" "st_status s = SRunning" by blast
  have "good db" using inv by (simp add: loom_inv_def)
  from fail_step_contract [OF this s(1,3), of env n msg res db'] c s(2) show ?thesis
    using evolves_keeps [OF inv] by blast
next
  case False
  with not_running_unchanged(2) [OF False c] inv show ?thesis by (simp add: frozen_refl)
qed

lemma advance_run_keeps:
  assumes inv: "loom_inv db" and c: "advance_run env n i db = Some (res, db')"
  shows "loom_inv db' \<and> frozen db db'"
proof (cases "has_run db i")
  case True
  have "good db" using inv by (simp add: loom_inv_def)
  from advance_run_contract [OF this True c] evolves_keeps [OF inv] show ?thesis by blast
next
  case False
  then have "find_where (\<lambda>r. rn_id r = i) (loom_runs db) = None" by (auto simp: has_run_def find_where_None)
  with c have "db' = db" by (cases n) (auto simp: advance_body_def)
  with inv show ?thesis by (simp add: frozen_refl)
qed

lemma recover_keeps:
  assumes inv: "loom_inv db" and c: "recover_inflight_runs (advance_run env n) db = Some (res, db')"
  shows "loom_inv db' \<and> frozen db db'"
proof -
  let ?m = "max n (Suc (budget db + length (trows (loom_steps db))))"
  have "recover_inflight_runs (advance_run env ?m) db = Some (res, db')"
    using c advance_each_mono [OF advance_run_mono [of n ?m env]] by (simp add: recover_inflight_runs_def Let_def)
  with recover_ok [OF inv, of ?m env] show ?thesis by auto
qed

lemma time_keeps: "loom_inv db \<Longrightarrow> loom_inv (db\<lparr>now := t\<rparr>) \<and> frozen db (db\<lparr>now := t\<rparr>)"
  by (rule same_core_inv) (simp add: same_core_def)

lemma loom_step_keeps: "loom_step db db' \<Longrightarrow> loom_inv db \<Longrightarrow> loom_inv db' \<and> frozen db db'"
proof (induction rule: loom_step.induct)
  case (create_workflow env req db res db')
  show ?case by (rule create_workflow_ok [OF create_workflow(1,3,2)])
next
  case (update_workflow env i ureq db res db')
  show ?case by (rule update_workflow_ok [OF update_workflow(1,3,2)])
next
  case (delete_workflow i db del db')
  show ?case by (rule delete_workflow_ok [OF delete_workflow(2,1)])
next
  case (create_run env n rreq db rres db')
  show ?case by (rule create_run_keeps [OF create_run(2,1)])
next
  case (complete_step env n i out db sres db')
  show ?case by (rule complete_step_keeps [OF complete_step(2,1)])
next
  case (fail_step env n i msg db sres db')
  show ?case by (rule fail_step_keeps [OF fail_step(2,1)])
next
  case (advance env n i db ures db')
  show ?case by (rule advance_run_keeps [OF advance(2,1)])
next
  case (cancel i db bres db')
  show ?case by (rule cancel_run_ok [OF cancel(2,1)])
next
  case (recover env n db nres db')
  show ?case by (rule recover_keeps [OF recover(2,1)])
next
  case (time db t)
  show ?case by (rule time_keeps [OF time(2)])
qed

interpretation service: state_machine loom_step loom_inv
  by unfold_locales (use loom_step_keeps in blast)

end
