(* ===== verification/Loom_Properties.thy ===== *)
theory Loom_Properties
  imports Loom_Runs
begin

text \<open>
  The properties of the Loom service, over its operations as \<^verbatim>\<open>loom.rs\<close> has them, with one concrete
  database on which they are applied.
\<close>

section \<open>A small database\<close>

definition demo_env :: loom_env where
  "demo_env = \<lparr>display = (\<lambda>_. ''''), display_pretty = (\<lambda>_. ''''), from_str = (\<lambda>_. Inr JNull), f64_text = id,
     url_check = (\<lambda>_ _. Inr ()), http_send = (\<lambda>_ _. Inl ''refused''), hash_order = rev\<rparr>"

definition no_rows :: loom_db where
  "no_rows = \<lparr>now = 0, axon_events = empty_table, axon_channels = empty_table, axon_subscriptions = empty_table,
     axon_cursors = [], loom_workflows = empty_table, loom_runs = empty_table, loom_steps = empty_table,
     loom_run_logs = empty_table, net_calls = 0\<rparr>"

definition demo_workflow :: create_workflow_request where
  "demo_workflow = \<lparr>cw_name = ''w'', cw_description = None,
     cw_steps = [demo_step ''a'' [], demo_step ''b'' [''a'']]\<rparr>"

definition manual_workflow :: create_workflow_request where
  "manual_workflow = \<lparr>cw_name = ''m'', cw_description = None,
     cw_steps = [(demo_step ''ask'' [])\<lparr>sd_type := ''action''\<rparr>, demo_step ''b'' [''ask'']]\<rparr>"

definition demo_db :: loom_db where
  "demo_db = snd (create_workflow demo_env manual_workflow (snd (create_workflow demo_env demo_workflow no_rows)))"

definition run_request :: "int \<Rightarrow> create_run_request" where
  "run_request i = \<lparr>cr_workflow_id = i, cr_workflow_name = None, cr_input = None\<rparr>"

text \<open>The second workflow, started: its first step is claimed and waits for someone to complete it.\<close>

definition waiting_db :: loom_db where
  "waiting_db = snd (the (create_run (advance_run demo_env 9) (run_request 2) demo_db))"

lemma env_ok_demo: "env_ok demo_env"
  by (simp add: env_ok_def demo_env_def)

lemma loom_inv_no_rows: "loom_inv no_rows"
  by (simp add: loom_inv_def good_def workflows_ok_def run_graph_ok_def run_edges_def no_rows_def empty_table_def
      acyclic_def wf_table_def)

lemma demo_reachable: "loom_step\<^sup>*\<^sup>* no_rows demo_db"
proof -
  have "loom_step db (snd (create_workflow demo_env req db))" for db req
    using loom_step.create_workflow [OF env_ok_demo, of req db] by (simp add: prod_eq_iff)
  then show ?thesis unfolding demo_db_def
    by (meson converse_rtranclp_into_rtranclp rtranclp.rtrancl_refl)
qed

lemma waiting_step: "loom_step demo_db waiting_db"
proof -
  have "create_run (advance_run demo_env 9) (run_request 2) demo_db \<noteq> None" by code_simp
  then obtain res db' where c: "create_run (advance_run demo_env 9) (run_request 2) demo_db = Some (res, db')"
    by auto
  then have "waiting_db = db'" by (simp add: waiting_db_def)
  with loom_step.create_run [OF c] show ?thesis by simp
qed

lemma demo_inv: "loom_inv demo_db" "loom_inv waiting_db"
  using service.steps_keep [OF demo_reachable loom_inv_no_rows] loom_step_keeps [OF waiting_step] by auto

section \<open>Termination and progress\<close>

text \<open>
  Property C3. The re-entrant engine terminates: in a consistent database \<^verbatim>\<open>advance_run\<close> on an existing
  run returns success once the recursion depth exceeds the cost left in the step table, whatever the
  webhooks, the language model and the URL check answer. It leaves the tables consistent and nothing
  for the engine to do: the run is finished, or it has open steps of which none could be dispatched.
\<close>

theorem advance_run_terminates:
  assumes "loom_inv db" "has_run db rid" "budget db < n"
  shows "\<exists>db'. advance_run env n rid db = Some (Ok (), db') \<and> loom_inv db' \<and> quiescent db' rid"
proof -
  from engine.adv_ok [of db rid n env] assms obtain db' where
    "advance_run env n rid db = Some (Ok (), db')" "good db'" "evolves rid db db'" "quiescent db' rid"
    by (auto simp: loom_inv_def)
  with evolves_inv [OF assms(1)] show ?thesis by blast
qed

theorem advance_run_terminates_witness:
  "\<exists>db'. advance_run demo_env 30 1 waiting_db = Some (Ok (), db') \<and> loom_inv db' \<and> quiescent db' 1"
proof (rule advance_run_terminates [OF demo_inv(2)])
  show "has_run waiting_db 1" by code_simp
  show "budget waiting_db < 30" by code_simp
qed

text \<open>
  Property C1. A run of an automated workflow always finishes: creating a run of a stored workflow all of
  whose steps are transform, webhook or LLM steps returns a run that is already completed or failed,
  whatever the outside world answers; no step is left pending or in flight because a wake-up was lost.
  The depth needed is at most 22 per step on top of the cost of the steps already stored.
\<close>

theorem automated_run_finishes:
  assumes inv: "loom_inv db" and w: "chosen_workflow req db = Some w" "wf_steps w \<noteq> []"
    and auto: "\<forall>d\<in>set (wf_steps w). automated (sd_type d)"
    and fuel: "budget db + 22 * length (wf_steps w) < n"
  shows "\<exists>r db'. create_run (advance_run env n) req db = Some (Ok r, db') \<and> rn_workflow_id r = wf_id w
    \<and> rn_status r \<in> {RCompleted, RFailed} \<and> loom_inv db'"
proof -
  have good: "good db" and wok: "workflows_ok db" using inv by (auto simp: loom_inv_def)
  have win: "w \<in> set (trows (loom_workflows db))" using chosen_workflow_in [OF w(1)] .
  then have graph: "valid_graph (wf_steps w)" using wok by (simp add: workflows_ok_def)
  from create_run_parts [OF good wok w] obtain rid db3 new r where
    p: "adds_run rid (wf_steps w) db db3 new r" "rn_workflow_id r = wf_id w" "loom_workflows db3 = loom_workflows db"
    and e: "create_run (advance_run env n) req db = (case advance_run env n rid db3 of None \<Rightarrow> None
         | Some (_, db4) \<Rightarrow> Some (get_run db4 rid, db4))" by blast
  have inv3: "loom_inv db3" using adds_run_inv [OF inv p(1) graph p(3)] win p(2) by metis
  then have good3: "good db3" by (simp add: loom_inv_def)
  note new = adds_run_new [OF good p(1)]
  from engine.adv_ok [OF good3 new(1), of n env] adds_run_cost [OF p(1)] fuel obtain db4 where
    a: "advance_run env n rid db3 = Some (Ok (), db4)" "good db4" "evolves rid db3 db4" "quiescent db4 rid" "idle db4 rid"
    using new(2) by auto
  have inv4: "loom_inv db4" using evolves_inv [OF inv3 a(2,3)] .
  have "automated (st_type s)" if "s \<in> all_steps db4" "st_run_id s = rid" for s
    using evolves_types [OF a(3) that(1)] new(3) auto that(2) by force
  then have t: "run_terminal db4 rid"
    using quiescent_automated_terminal [OF a(2,4,5)] inv4 by (auto simp: loom_inv_def)
  from evolves_run [OF a(3) new(4)] obtain r' where r': "r' \<in> all_runs db4" "run_evolves rid r r'" by blast
  have "terminal (rn_status r')"
    using t good_unique_run [OF a(2) r'(1)] r'(2) new(5) by (auto simp: run_terminal_def run_evolves_def)
  with r' p(2) new(5,6) have "rn_id r' = rid" "rn_workflow_id r' = wf_id w" "rn_status r' \<in> {RCompleted, RFailed}"
    by (auto simp: run_evolves_def terminal_def)
  moreover have "get_run db4 rid = Ok r'" using good_find_run [OF a(2) r'(1)] calculation(1) by (simp add: get_run_def)
  ultimately show ?thesis using e a(1) inv4 by simp
qed

theorem automated_run_finishes_witness:
  "\<exists>r db'. create_run (advance_run demo_env 50) (run_request 1) demo_db = Some (Ok r, db')
    \<and> rn_workflow_id r = 1 \<and> rn_status r \<in> {RCompleted, RFailed} \<and> loom_inv db'"
proof -
  have "chosen_workflow (run_request 1) demo_db \<noteq> None" by code_simp
  then obtain w where w: "chosen_workflow (run_request 1) demo_db = Some w" by auto
  have "map_option wf_id (chosen_workflow (run_request 1) demo_db) = Some 1"
    "map_option wf_steps (chosen_workflow (run_request 1) demo_db) = Some (cw_steps demo_workflow)" by code_simp+
  then have e: "wf_id w = 1" "wf_steps w = cw_steps demo_workflow" by (auto simp: w)
  have "\<forall>d\<in>set (cw_steps demo_workflow). automated (sd_type d)" "cw_steps demo_workflow \<noteq> []"
    "budget demo_db + 22 * length (cw_steps demo_workflow) < 50" by code_simp+
  with automated_run_finishes [OF demo_inv(1) w, of 50 demo_env] show ?thesis by (simp add: e)
qed






section \<open>Safety in every reachable state\<close>

text \<open>
  Property C2. Dependency order: in every state reachable from the empty database by any sequence of
  calls, a step that is running, completed or failed has every dependency completed in the same run.
  So no step ever starts before what it depends on, and completed dependencies never revert.
\<close>

theorem steps_start_after_their_dependencies:
  assumes "loom_step\<^sup>*\<^sup>* no_rows db" "s \<in> all_steps db" "st_status s \<in> {SRunning, SCompleted, SFailed}"
    and "d \<in> set (st_depends_on s)"
  shows "\<exists>dep\<in>all_steps db. st_run_id dep = st_run_id s \<and> st_name dep = d \<and> st_status dep = SCompleted"
proof -
  have "good db" using service.steps_keep [OF assms(1) loom_inv_no_rows] by (simp add: loom_inv_def)
  from good_step_deps [OF this assms(2) _ assms(4)] assms(3) show ?thesis by (simp add: started_def dep_done_def)
qed

lemma finished_reachable:
  "loom_step\<^sup>*\<^sup>* no_rows (snd (the (create_run (advance_run demo_env 50) (run_request 1) demo_db)))"
proof -
  have "create_run (advance_run demo_env 50) (run_request 1) demo_db \<noteq> None" by code_simp
  then obtain res db' where c: "create_run (advance_run demo_env 50) (run_request 1) demo_db = Some (res, db')" by auto
  from rtranclp.rtrancl_into_rtrancl [OF demo_reachable loom_step.create_run [OF c]] c show ?thesis by simp
qed

definition finished_db :: loom_db where
  "finished_db = snd (the (create_run (advance_run demo_env 50) (run_request 1) demo_db))"

theorem steps_start_after_their_dependencies_witness:
  "\<exists>dep\<in>all_steps finished_db. st_run_id dep = 1 \<and> st_name dep = ''a'' \<and> st_status dep = SCompleted"
proof -
  let ?s = "trows (loom_steps finished_db) ! 1"
  have "1 < length (trows (loom_steps finished_db))" by code_simp
  then have "?s \<in> all_steps finished_db" by simp
  moreover have "st_status ?s = SCompleted" "''a'' \<in> set (st_depends_on ?s)" "st_run_id ?s = 1" by code_simp+
  ultimately show ?thesis
    using steps_start_after_their_dependencies [OF finished_reachable [folded finished_db_def], of ?s "''a''"] by simp
qed



text \<open>
  Retries are bounded: in every reachable state a step has been retried at most as often as
  it allows and no step allows more than ten retries, so \<^verbatim>\<open>fail_step\<close> cannot loop.
\<close>

lemma retries_are_bounded:
  assumes "loom_step\<^sup>*\<^sup>* no_rows db" "s \<in> all_steps db"
  shows "0 \<le> st_retry_count s \<and> st_retry_count s \<le> st_max_retries s \<and> st_max_retries s \<le> 10"
proof -
  have "good db" using service.steps_keep [OF assms(1) loom_inv_no_rows] by (simp add: loom_inv_def)
  from good_retry [OF this assms(2)] show ?thesis by (simp add: retry_ok_def MAX_STEP_RETRIES_def)
qed

lemma retries_are_bounded_witness:
  "0 \<le> st_retry_count (trows (loom_steps finished_db) ! 0) \<and> st_max_retries (trows (loom_steps finished_db) ! 0) \<le> 10"
proof -
  have "0 < length (trows (loom_steps finished_db))" by code_simp
  then have "trows (loom_steps finished_db) ! 0 \<in> all_steps finished_db" by simp
  from retries_are_bounded [OF finished_reachable [folded finished_db_def] this] show ?thesis by simp
qed

section \<open>Single operations\<close>

text \<open>
  The back-off before a retry is 50 ms doubled per earlier retry, at most a second: the 64-bit
  shift of the code never overflows, whatever the stored retry count is.
\<close>

lemma retry_backoff_exact:
  "unat (retry_backoff_ms c) = min (50 * 2 ^ min (nat c) 5) 1000
   \<and> 50 \<le> unat (retry_backoff_ms c) \<and> unat (retry_backoff_ms c) \<le> 1000"
proof -
  have "min (nat c) 5 \<in> {0, 1, 2, 3, 4, 5}" by auto
  then show ?thesis unfolding retry_backoff_ms_def
    by (elim insertE) (simp_all add: push_bit_eq_mult min_def word_le_nat_alt)
qed

text \<open>
  Property C40. Completing and failing a step is refused, with no effect on the database, unless the step
  exists and is running: a missing step is reported as such, any other status as invalid input. So a
  duplicate or late completion cannot overwrite a result or revive a skipped step.
\<close>

theorem only_running_steps_are_settled:
  assumes "loom_inv db"
  shows "((\<forall>s\<in>all_steps db. st_id s \<noteq> i) \<longrightarrow>
      complete_step adv i out db = Some (Err (NotFound (''step '' @ show_int i)), db)
      \<and> fail_step adv i msg db = Some (Err (NotFound (''step '' @ show_int i)), db))
    \<and> (\<forall>s\<in>all_steps db. st_id s = i \<and> st_status s \<noteq> SRunning \<longrightarrow>
      (\<exists>t. complete_step adv i out db = Some (Err (InvalidInput t), db))
      \<and> (\<exists>t. fail_step adv i msg db = Some (Err (InvalidInput t), db)))"
proof -
  have good: "good db" using assms by (simp add: loom_inv_def)
  have missing: "get_step db i = Err (NotFound (''step '' @ show_int i))" if "\<forall>s\<in>all_steps db. st_id s \<noteq> i"
    using that by (simp add: get_step_def find_where_None [THEN iffD2])
  have "(\<exists>t. complete_step adv i out db = Some (Err (InvalidInput t), db))
      \<and> (\<exists>t. fail_step adv i msg db = Some (Err (InvalidInput t), db))"
    if s: "s \<in> all_steps db" "st_id s = i" "st_status s \<noteq> SRunning" for s
  proof -
    from good_step_run [OF good s(1)] obtain r where "r \<in> all_runs db" "rn_id r = st_run_id s"
      by (auto simp: has_run_def)
    then have "get_run db (st_run_id s) = Ok r" using good_find_run [OF good, of r] by (simp add: get_run_def)
    moreover have "get_step db i = Ok s" using good_find_step [OF good s(1)] s(2) by (simp add: get_step_def)
    ultimately show ?thesis using s(3) by (simp add: complete_step_def fail_step_def)
  qed
  with missing show ?thesis by (simp add: complete_step_def fail_step_def)
qed

theorem only_running_steps_are_settled_witness:
  "\<exists>t. complete_step (advance_run demo_env 9) 2 JNull waiting_db = Some (Err (InvalidInput t), waiting_db)"
proof -
  let ?s = "trows (loom_steps waiting_db) ! 1"
  have "1 < length (trows (loom_steps waiting_db))" by code_simp
  then have "?s \<in> all_steps waiting_db" by simp
  moreover have "st_id ?s = 2" "st_status ?s = SPending" by code_simp+
  ultimately show ?thesis
    using only_running_steps_are_settled [OF demo_inv(2), of 2 "advance_run demo_env 9" JNull "''late''"] by auto
qed

text \<open>
  Cancelling an unfinished run succeeds, leaves the run cancelled and no step of it open, and
  changes no completed step and no other run; cancelling a finished run changes nothing and says so.
\<close>

lemma cancel_run_exact:
  assumes inv: "loom_inv db" and r: "r \<in> all_runs db"
  shows "if terminal (rn_status r) then cancel_run (rn_id r) db = Some (Ok False, db)
    else \<exists>db'. cancel_run (rn_id r) db = Some (Ok True, db') \<and> loom_inv db'
      \<and> (\<forall>r'\<in>all_runs db'. if rn_id r' = rn_id r then rn_status r' = RCancelled else r' \<in> all_runs db)
      \<and> (\<forall>s'\<in>all_steps db'. st_run_id s' = rn_id r \<longrightarrow> st_status s' \<in> {SCompleted, SSkipped})
      \<and> (\<forall>s\<in>all_steps db. st_run_id s \<noteq> rn_id r \<or> st_status s = SCompleted \<longrightarrow> s \<in> all_steps db')"
proof (cases "terminal (rn_status r)")
  case True
  have "good db" using inv by (simp add: loom_inv_def)
  with good_find_run [OF this r] True show ?thesis by (simp add: cancel_run_def get_run_def)
next
  case False
  from cancel_run_open [OF inv r refl False] obtain db' where
    c: "cancel_run (rn_id r) db = Some (Ok True, db')" "loom_inv db'"
      "all_runs db' = cancel_row (rn_id r) (now db) ` all_runs db" "all_steps db' = skip_row (rn_id r) ` all_steps db" by blast
  have runs: "\<forall>r'\<in>all_runs db'. if rn_id r' = rn_id r then rn_status r' = RCancelled else r' \<in> all_runs db"
    by (auto simp: c(3) cancel_row_def)
  have closed: "st_status s' \<in> {SCompleted, SSkipped}" if s': "s' \<in> all_steps db'" "st_run_id s' = rn_id r" for s'
  proof -
    have "good db'" using c(2) by (simp add: loom_inv_def)
    from good_step_run [OF this s'(1)] obtain r' where r': "r' \<in> all_runs db'" "rn_id r' = st_run_id s'"
      by (auto simp: has_run_def)
    with runs s' have "rn_status r' = RCancelled" by auto
    with good_agrees [OF \<open>good db'\<close> s'(1) r'] show ?thesis
      by (cases "st_status s'") (auto simp: step_agrees_def step_open_def)
  qed
  have "s \<in> all_steps db'" if "s \<in> all_steps db" "st_run_id s \<noteq> rn_id r \<or> st_status s = SCompleted" for s
    using that unfolding c(4) by (intro image_eqI [of _ _ s]) (auto simp: skip_row_def step_open_def)
  with False c runs closed show ?thesis by auto
qed

lemma cancel_run_exact_witness:
  "\<exists>db'. cancel_run 1 waiting_db = Some (Ok True, db')
     \<and> (\<forall>s'\<in>all_steps db'. st_run_id s' = 1 \<longrightarrow> st_status s' \<in> {SCompleted, SSkipped})"
proof -
  let ?r = "trows (loom_runs waiting_db) ! 0"
  have "0 < length (trows (loom_runs waiting_db))" by code_simp
  then have "?r \<in> all_runs waiting_db" by simp
  moreover have "rn_id ?r = 1" "\<not> terminal (rn_status ?r)" by code_simp+
  ultimately show ?thesis using cancel_run_exact [OF demo_inv(2), of ?r] by auto
qed

end
