(* ===== verification/Resilience.thy ===== *)
theory Resilience
  imports Kleos_Prelude Json_Values "HOL-Library.Multiset"
begin

text \<open>
  The resilience layer of \<^verbatim>\<open>kleos-lib/src/resilience\<close>: the circuit breaker with its three phases, the
  retry loop with back-off and jitter, the dead-letter table and the service guard that combines them.

  The breaker is shared by concurrent calls. A call takes the lock twice, to be admitted and to record
  its outcome, and a future that is dropped in between releases its probe slot; so the concurrent
  behaviour is the relation \<open>breaker_step\<close> whose steps are these critical sections. Instants are
  natural numbers of one clock unit, \<^verbatim>\<open>elapsed\<close> is subtraction. The guarded operation is a function of
  the number of the invocation, so it may succeed or fail differently each time.
\<close>

section \<open>circuit\_breaker.rs\<close>

datatype circuit_state = CClosed | COpen | CHalfOpen

fun circuit_state_text :: "circuit_state \<Rightarrow> string" where
  "circuit_state_text CClosed = ''closed''"
| "circuit_state_text COpen = ''open''"
| "circuit_state_text CHalfOpen = ''half_open''"

datatype breaker_state = Closed nat | Open nat | HalfOpen nat

record circuit_breaker =
  failure_threshold :: nat
  reset_timeout :: nat
  half_open_max_calls :: nat
  cb_state :: breaker_state

definition new_breaker :: "nat \<Rightarrow> nat \<Rightarrow> nat \<Rightarrow> circuit_breaker" where
  "new_breaker threshold timeout max_calls =
     \<lparr>failure_threshold = threshold, reset_timeout = timeout, half_open_max_calls = max_calls, cb_state = Closed 0\<rparr>"

definition breaker_snapshot :: "circuit_breaker \<Rightarrow> circuit_state" where
  "breaker_snapshot cb = (case cb_state cb of Closed _ \<Rightarrow> CClosed | Open _ \<Rightarrow> COpen | HalfOpen _ \<Rightarrow> CHalfOpen)"

text \<open>Phase 1: refuse, or admit the call and say whether it is a probe that holds a slot.\<close>

definition admit :: "nat \<Rightarrow> circuit_breaker \<Rightarrow> bool result \<times> circuit_breaker" where
  "admit t cb =
     (case cb_state cb of
        Open opened_at \<Rightarrow>
          if reset_timeout cb \<le> t - opened_at then (Ok True, cb\<lparr>cb_state := HalfOpen 1\<rparr>)
          else (Err (Internal ''circuit open''), cb)
      | HalfOpen in_flight \<Rightarrow>
          if half_open_max_calls cb \<le> in_flight then (Err (Internal ''circuit open''), cb)
          else (Ok True, cb\<lparr>cb_state := HalfOpen (in_flight + 1)\<rparr>)
      | Closed _ \<Rightarrow> (Ok False, cb))"

text \<open>Phase 3: record the outcome.\<close>

definition record_outcome :: "nat \<Rightarrow> bool \<Rightarrow> circuit_breaker \<Rightarrow> circuit_breaker" where
  "record_outcome t success cb =
     (if success then (case cb_state cb of Open _ \<Rightarrow> cb | _ \<Rightarrow> cb\<lparr>cb_state := Closed 0\<rparr>)
      else (case cb_state cb of
              HalfOpen _ \<Rightarrow> cb\<lparr>cb_state := Open t\<rparr>
            | Closed consecutive_failures \<Rightarrow>
                let new_failures = consecutive_failures + 1 in
                if failure_threshold cb \<le> new_failures then cb\<lparr>cb_state := Open t\<rparr>
                else cb\<lparr>cb_state := Closed new_failures\<rparr>
            | Open _ \<Rightarrow> cb))"

text \<open>Dropping an armed guard.\<close>

definition release_probe :: "circuit_breaker \<Rightarrow> circuit_breaker" where
  "release_probe cb =
     (case cb_state cb of HalfOpen in_flight \<Rightarrow> cb\<lparr>cb_state := HalfOpen (in_flight - 1)\<rparr> | _ \<Rightarrow> cb)"

text \<open>A call that runs alone from instant \<open>t\<close> and takes \<open>d\<close>; \<open>op\<close> is the outcome of running the operation.\<close>

definition breaker_call :: "nat \<Rightarrow> nat \<Rightarrow> 'a result \<Rightarrow> circuit_breaker \<Rightarrow> 'a result \<times> circuit_breaker" where
  "breaker_call t d outcome cb =
     (case admit t cb of
        (Inl e, cb1) \<Rightarrow> (Err e, cb1)
      | (Inr probe, cb1) \<Rightarrow>
          (outcome, record_outcome (t + d) (case outcome of Inr _ \<Rightarrow> True | Inl _ \<Rightarrow> False) cb1))"

record breaker_config =
  bc_failure_threshold :: nat
  bc_cooldown :: nat

definition default_breaker_config :: breaker_config where
  "default_breaker_config = \<lparr>bc_failure_threshold = 5, bc_cooldown = 30 * 1000\<rparr>"

datatype 'e circuit_error = CircuitOpen | Inner 'e

definition legacy_new :: "breaker_config \<Rightarrow> circuit_breaker" where
  "legacy_new config = new_breaker (bc_failure_threshold config) (bc_cooldown config) 1"

definition legacy_state :: "circuit_breaker \<Rightarrow> string" where
  "legacy_state cb = (case breaker_snapshot cb of CClosed \<Rightarrow> ''closed'' | COpen \<Rightarrow> ''open'' | CHalfOpen \<Rightarrow> ''half_open'')"

text \<open>The second copy of the phases, for operations with an error type of their own.\<close>

definition legacy_admit :: "nat \<Rightarrow> circuit_breaker \<Rightarrow> circuit_breaker option" where
  "legacy_admit t cb =
     (case cb_state cb of
        Open opened_at \<Rightarrow>
          if reset_timeout cb \<le> t - opened_at then Some (cb\<lparr>cb_state := HalfOpen 1\<rparr>) else None
      | HalfOpen in_flight \<Rightarrow>
          if half_open_max_calls cb \<le> in_flight then None
          else Some (cb\<lparr>cb_state := HalfOpen (in_flight + 1)\<rparr>)
      | Closed _ \<Rightarrow> Some cb)"

definition legacy_record :: "nat \<Rightarrow> 'e + 'a \<Rightarrow> circuit_breaker \<Rightarrow> circuit_breaker" where
  "legacy_record t result cb =
     (case result of
        Inr _ \<Rightarrow> (case cb_state cb of Open _ \<Rightarrow> cb | _ \<Rightarrow> cb\<lparr>cb_state := Closed 0\<rparr>)
      | Inl _ \<Rightarrow>
          (case cb_state cb of
             HalfOpen _ \<Rightarrow> cb\<lparr>cb_state := Open t\<rparr>
           | Closed consecutive_failures \<Rightarrow>
               let new_failures = consecutive_failures + 1 in
               if failure_threshold cb \<le> new_failures then cb\<lparr>cb_state := Open t\<rparr>
               else cb\<lparr>cb_state := Closed new_failures\<rparr>
           | Open _ \<Rightarrow> cb))"

definition legacy_call :: "nat \<Rightarrow> nat \<Rightarrow> 'e + 'a \<Rightarrow> circuit_breaker \<Rightarrow> ('e circuit_error + 'a) \<times> circuit_breaker" where
  "legacy_call t d result cb =
     (case legacy_admit t cb of
        None \<Rightarrow> (Inl CircuitOpen, cb)
      | Some cb1 \<Rightarrow> (map_sum Inner id result, legacy_record (t + d) result cb1))"

section \<open>retry.rs\<close>

definition U64_MAX :: nat where
  "U64_MAX = 2 ^ 64 - 1"

definition saturating_mul :: "nat \<Rightarrow> nat \<Rightarrow> nat" where
  "saturating_mul a b = min (a * b) U64_MAX"

definition saturating_add :: "nat \<Rightarrow> nat \<Rightarrow> nat" where
  "saturating_add a b = min (a + b) U64_MAX"

record retry_policy =
  max_attempts :: nat
  base_delay :: nat
  max_delay :: nat
  retry_on :: "eng_error \<Rightarrow> bool"

fun is_transient_error :: "eng_error \<Rightarrow> bool" where
  "is_transient_error (Internal _) = True"
| "is_transient_error (Database _) = True"
| "is_transient_error (DatabaseMessage _) = True"
| "is_transient_error _ = False"

definition default_transient :: retry_policy where
  "default_transient = \<lparr>max_attempts = 3, base_delay = 200, max_delay = 5 * 1000, retry_on = is_transient_error\<rparr>"

text \<open>The delay after a failed attempt, without and with jitter; the jitter percentage is drawn at random.\<close>

definition backoff_ms :: "nat \<Rightarrow> nat \<Rightarrow> nat \<Rightarrow> nat" where
  "backoff_ms base cap attempt = min (saturating_mul base (2 ^ min (attempt - 1) 30)) cap"

definition sleep_ms :: "retry_policy \<Rightarrow> nat \<Rightarrow> nat \<Rightarrow> nat" where
  "sleep_ms policy attempt percent =
     (let capped = backoff_ms (base_delay policy) (max_delay policy) attempt
      in saturating_add capped (saturating_mul (capped div 4) percent div 100))"

text \<open>The loop, entered with the attempts made so far; it returns the result and the delays slept.\<close>

function retry_loop :: "retry_policy \<Rightarrow> (nat \<Rightarrow> nat) \<Rightarrow> (nat \<Rightarrow> 'a result) \<Rightarrow> nat \<Rightarrow> 'a result \<times> nat list" where
  "retry_loop policy jitter run made =
     (let attempt = made + 1 in
      case run attempt of
        Inr v \<Rightarrow> (Ok v, [])
      | Inl e \<Rightarrow>
          if max_attempts policy \<le> attempt \<or> \<not> retry_on policy e then (Err e, [])
          else (case retry_loop policy jitter run attempt of
                  (r, sleeps) \<Rightarrow> (r, sleep_ms policy attempt (jitter attempt) # sleeps)))"
  by pat_completeness auto
termination
  by (relation "measure (\<lambda>(policy, _, _, made). max_attempts policy - made)") auto

declare retry_loop.simps [simp del]

definition with_retry :: "retry_policy \<Rightarrow> (nat \<Rightarrow> nat) \<Rightarrow> (nat \<Rightarrow> 'a result) \<Rightarrow> 'a result \<times> nat list" where
  "with_retry policy jitter run = retry_loop policy jitter run 0"

text \<open>The older helper: no predicate, no cap and no jitter; a delay saturates at \<^verbatim>\<open>Duration::MAX\<close>.\<close>

definition DURATION_MAX_MS :: nat where
  "DURATION_MAX_MS = (2 ^ 64 - 1) * 1000 + 999"

function backoff_loop :: "nat \<Rightarrow> nat \<Rightarrow> (nat \<Rightarrow> 'e + 'a) \<Rightarrow> nat \<Rightarrow> ('e + 'a) \<times> nat list" where
  "backoff_loop max_tries base run made =
     (let attempt = made + 1 in
      case run attempt of
        Inr v \<Rightarrow> (Inr v, [])
      | Inl e \<Rightarrow>
          if max max_tries 1 \<le> attempt then (Inl e, [])
          else (case backoff_loop max_tries base run attempt of
                  (r, sleeps) \<Rightarrow> (r, min (base * 2 ^ min (attempt - 1) 30) DURATION_MAX_MS # sleeps)))"
  by pat_completeness auto
termination
  by (relation "measure (\<lambda>(max_tries, _, _, made). max max_tries 1 - made)") auto

declare backoff_loop.simps [simp del]

definition retry_with_backoff :: "nat \<Rightarrow> nat \<Rightarrow> (nat \<Rightarrow> 'e + 'a) \<Rightarrow> ('e + 'a) \<times> nat list" where
  "retry_with_backoff max_tries base run = backoff_loop max_tries base run 0"

section \<open>dead\_letter.rs\<close>

record service_dead_letter =
  dl_id :: int
  dl_service :: string
  dl_operation :: string
  dl_payload_json :: "string option"
  dl_error :: "string option"
  dl_retry_count :: int
  dl_created_at :: int

record resilience_db = database +
  service_dead_letters :: "service_dead_letter table"

definition record_dead_letter ::
    "(json \<Rightarrow> string option) \<Rightarrow> string \<Rightarrow> string \<Rightarrow> json \<Rightarrow> string \<Rightarrow> nat \<Rightarrow> 'z resilience_db_scheme \<Rightarrow> 'z resilience_db_scheme" where
  "record_dead_letter to_string service operation payload err retry_count db =
     db\<lparr>service_dead_letters := snd (insert_rowid dl_id (\<lambda>i. \<lparr>dl_id = i, dl_service = service, dl_operation = operation,
         dl_payload_json = to_string payload, dl_error = Some err, dl_retry_count = int retry_count,
         dl_created_at = now db\<rparr>) (service_dead_letters db))\<rparr>"

definition list_dead_letters :: "'z resilience_db_scheme \<Rightarrow> string option \<Rightarrow> int \<Rightarrow> service_dead_letter list" where
  "list_dead_letters db service limit =
     sql_limit limit (sort_key (\<lambda>l. - dl_created_at l)
       (select_where (\<lambda>l. case service of None \<Rightarrow> True | Some s \<Rightarrow> dl_service l = s) (service_dead_letters db)))"

definition DEAD_LETTER_RETAIN_HOURS :: int where
  "DEAD_LETTER_RETAIN_HOURS = 720"

definition prune_dead_letters :: "int \<Rightarrow> 'z resilience_db_scheme \<Rightarrow> nat \<times> 'z resilience_db_scheme" where
  "prune_dead_letters retain_hours db =
     (let old = (\<lambda>l. before (Some (dl_created_at l)) (datetime_minus_hours (now db) retain_hours))
      in (count_where old (service_dead_letters db),
          db\<lparr>service_dead_letters := delete_where old (service_dead_letters db)\<rparr>))"

section \<open>mod.rs\<close>

record service_guard =
  sg_breaker :: circuit_breaker
  sg_retry :: retry_policy
  sg_service_name :: string

definition with_defaults :: "string \<Rightarrow> service_guard" where
  "with_defaults service_name =
     \<lparr>sg_breaker = new_breaker 5 (30 * 1000) 1, sg_retry = default_transient, sg_service_name = service_name\<rparr>"

definition write_dead_letter ::
    "(json \<Rightarrow> string option) \<Rightarrow> service_guard \<Rightarrow> string \<Rightarrow> json \<Rightarrow> string \<Rightarrow> nat \<Rightarrow> 'z resilience_db_scheme \<Rightarrow> 'z resilience_db_scheme" where
  "write_dead_letter to_string g operation payload err retry_count db =
     record_dead_letter to_string (sg_service_name g) operation payload err retry_count db"

text \<open>
  The loop of \<^verbatim>\<open>ServiceGuard::call\<close> for one caller, entered at instant \<open>t\<close> with \<open>made\<close> attempts behind it:
  attempt \<open>k\<close> of the operation gives \<open>fst (run k)\<close> after \<open>snd (run k)\<close> milliseconds, if the breaker lets
  it run. The third component counts the attempts made.
\<close>

function guard_loop ::
    "(json \<Rightarrow> string option) \<Rightarrow> string \<Rightarrow> json \<Rightarrow> (nat \<Rightarrow> 'a result \<times> nat) \<Rightarrow> nat \<Rightarrow> nat \<Rightarrow> service_guard
     \<Rightarrow> 'z resilience_db_scheme \<Rightarrow> 'a result \<times> service_guard \<times> nat \<times> 'z resilience_db_scheme" where
  "guard_loop to_string operation payload run made t g db =
     (let attempt = made + 1 in
      case breaker_call t (snd (run attempt)) (fst (run attempt)) (sg_breaker g) of (result, cb) \<Rightarrow>
        let g1 = g\<lparr>sg_breaker := cb\<rparr> in
        (case result of
           Inr v \<Rightarrow> (Ok v, g1, attempt, db)
         | Inl e \<Rightarrow>
             let circuit_now_open = (breaker_snapshot cb = COpen);
                 exhausted = (max_attempts (sg_retry g) \<le> attempt);
                 retryable = (retry_on (sg_retry g) e \<and> \<not> circuit_now_open)
             in if \<not> retryable \<or> exhausted
                then (Err e, g1, attempt, write_dead_letter to_string g operation payload (error_text e) attempt db)
                else guard_loop to_string operation payload run attempt
                       (t + snd (run attempt) + backoff_ms (base_delay (sg_retry g)) (max_delay (sg_retry g)) attempt)
                       g1 db))"
  by pat_completeness auto
termination
  by (relation "measure (\<lambda>(_, _, _, _, made, _, g, _). max_attempts (sg_retry g) - made)") auto

declare guard_loop.simps [simp del]

definition guard_call ::
    "(json \<Rightarrow> string option) \<Rightarrow> string \<Rightarrow> json \<Rightarrow> (nat \<Rightarrow> 'a result \<times> nat) \<Rightarrow> nat \<Rightarrow> service_guard
     \<Rightarrow> 'z resilience_db_scheme \<Rightarrow> 'a result \<times> service_guard \<times> nat \<times> 'z resilience_db_scheme" where
  "guard_call to_string operation payload run t g db = guard_loop to_string operation payload run 0 t g db"

section \<open>Concurrent use of one breaker\<close>

text \<open>
  The breaker between critical sections: the clock, and how many admitted calls are running, those that
  hold a probe slot and those admitted while the breaker was closed.
\<close>

record breaker_use =
  bu_breaker :: circuit_breaker
  bu_clock :: nat
  bu_probes :: nat
  bu_plain :: nat

inductive breaker_step :: "breaker_use \<Rightarrow> breaker_use \<Rightarrow> bool" where
  tick: "bu_clock u \<le> t \<Longrightarrow> breaker_step u (u\<lparr>bu_clock := t\<rparr>)"
| start_probe: "admit (bu_clock u) (bu_breaker u) = (Ok True, cb) \<Longrightarrow>
    breaker_step u (u\<lparr>bu_breaker := cb, bu_probes := bu_probes u + 1\<rparr>)"
| start_plain: "admit (bu_clock u) (bu_breaker u) = (Ok False, cb) \<Longrightarrow>
    breaker_step u (u\<lparr>bu_breaker := cb, bu_plain := bu_plain u + 1\<rparr>)"
| reject: "admit (bu_clock u) (bu_breaker u) = (Err e, cb) \<Longrightarrow> breaker_step u (u\<lparr>bu_breaker := cb\<rparr>)"
| finish_probe: "0 < bu_probes u \<Longrightarrow>
    breaker_step u (u\<lparr>bu_breaker := record_outcome (bu_clock u) success (bu_breaker u), bu_probes := bu_probes u - 1\<rparr>)"
| finish_plain: "0 < bu_plain u \<Longrightarrow>
    breaker_step u (u\<lparr>bu_breaker := record_outcome (bu_clock u) success (bu_breaker u), bu_plain := bu_plain u - 1\<rparr>)"
| drop_probe: "0 < bu_probes u \<Longrightarrow>
    breaker_step u (u\<lparr>bu_breaker := release_probe (bu_breaker u), bu_probes := bu_probes u - 1\<rparr>)"
| drop_plain: "0 < bu_plain u \<Longrightarrow> breaker_step u (u\<lparr>bu_plain := bu_plain u - 1\<rparr>)"

definition breaker_inv :: "breaker_use \<Rightarrow> bool" where
  "breaker_inv u \<longleftrightarrow>
     (case cb_state (bu_breaker u) of
        Closed n \<Rightarrow> n = 0 \<or> n < failure_threshold (bu_breaker u)
      | Open t \<Rightarrow> t \<le> bu_clock u
      | HalfOpen k \<Rightarrow> k \<le> bu_probes u \<and> k \<le> max 1 (half_open_max_calls (bu_breaker u)))"

lemma breaker_step_inv: "breaker_step u v \<Longrightarrow> breaker_inv u \<Longrightarrow> breaker_inv v"
  by (induction rule: breaker_step.induct)
     (auto simp: breaker_inv_def admit_def record_outcome_def release_probe_def Let_def
        split: breaker_state.splits if_splits)

interpretation breaker: state_machine breaker_step breaker_inv
  by unfold_locales (rule breaker_step_inv)

text \<open>The configuration is fixed and time does not run backwards.\<close>

lemma breaker_step_config:
  "breaker_step u v \<Longrightarrow> bu_clock u \<le> bu_clock v \<and> reset_timeout (bu_breaker v) = reset_timeout (bu_breaker u)
     \<and> half_open_max_calls (bu_breaker v) = half_open_max_calls (bu_breaker u)
     \<and> failure_threshold (bu_breaker v) = failure_threshold (bu_breaker u)"
  by (induction rule: breaker_step.induct)
     (auto simp: admit_def record_outcome_def release_probe_def Let_def split: breaker_state.splits if_splits)

lemma breaker_step_open:
  assumes "breaker_inv u" "breaker_step u v" "cb_state (bu_breaker u) = Open t0"
    and "bu_clock v < t0 + reset_timeout (bu_breaker u)"
  shows "cb_state (bu_breaker v) = Open t0"
  using assms(2,1,3,4)
  by (induction rule: breaker_step.induct)
     (auto simp: breaker_inv_def admit_def record_outcome_def release_probe_def split: if_splits)

lemma breaker_steps_config:
  "breaker_step\<^sup>*\<^sup>* u v \<Longrightarrow> bu_clock u \<le> bu_clock v \<and> reset_timeout (bu_breaker v) = reset_timeout (bu_breaker u)
     \<and> half_open_max_calls (bu_breaker v) = half_open_max_calls (bu_breaker u)
     \<and> failure_threshold (bu_breaker v) = failure_threshold (bu_breaker u)"
  by (induction rule: rtranclp_induct) (auto dest: breaker_step_config)

section \<open>Properties\<close>

text \<open>
  Property C10. The cool-down cannot be bypassed: once the breaker has opened at some instant, then however
  concurrent calls are admitted, rejected, finished or dropped, it stays open with the same opening time
  until the reset timeout has elapsed, and every call until then is refused and leaves it unchanged. A
  success that was in flight when it opened does not close it.
\<close>

theorem open_breaker_stays_open:
  assumes inv: "breaker_inv u" and steps: "breaker_step\<^sup>*\<^sup>* u v" and op: "cb_state (bu_breaker u) = Open t0"
    and time: "bu_clock v < t0 + reset_timeout (bu_breaker u)"
  shows "cb_state (bu_breaker v) = Open t0
    \<and> admit (bu_clock v) (bu_breaker v) = (Err (Internal ''circuit open''), bu_breaker v)"
proof -
  have "cb_state (bu_breaker v) = Open t0" using steps time
  proof (induction rule: rtranclp_induct)
    case (step v w)
    then have "cb_state (bu_breaker v) = Open t0" using breaker_step_config by fastforce
    moreover have "breaker_inv v" using breaker.steps_keep [OF step.hyps(1) inv] .
    ultimately show ?case using breaker_step_open [OF _ step.hyps(2)] step.prems breaker_steps_config [OF step.hyps(1)]
      by simp
  qed (simp add: op)
  moreover have "t0 \<le> bu_clock v" "reset_timeout (bu_breaker v) = reset_timeout (bu_breaker u)"
    using inv op breaker_steps_config [OF steps] by (auto simp: breaker_inv_def)
  ultimately show ?thesis using time by (simp add: admit_def)
qed

definition tripped :: breaker_use where
  "tripped = \<lparr>bu_breaker = (new_breaker 2 30 1)\<lparr>cb_state := Open 100\<rparr>, bu_clock = 100, bu_probes = 0, bu_plain = 1\<rparr>"

theorem open_breaker_stays_open_witness:
  "admit 110 (record_outcome 110 True (bu_breaker tripped)) = (Err (Internal ''circuit open''), bu_breaker tripped)"
proof -
  let ?v = "tripped\<lparr>bu_clock := 110\<rparr>"
  let ?w = "?v\<lparr>bu_breaker := record_outcome 110 True (bu_breaker ?v), bu_plain := bu_plain ?v - 1\<rparr>"
  have "breaker_step tripped ?v" by (rule breaker_step.tick) (simp add: tripped_def)
  moreover have "breaker_step ?v ?w" using breaker_step.finish_plain [of ?v True] by (simp add: tripped_def)
  ultimately have s: "breaker_step\<^sup>*\<^sup>* tripped ?w" by (meson rtranclp.rtrancl_into_rtrancl r_into_rtranclp)
  have i: "breaker_inv tripped" "cb_state (bu_breaker tripped) = Open 100"
    "bu_clock ?w < 100 + reset_timeout (bu_breaker tripped)"
    by (simp_all add: breaker_inv_def tripped_def new_breaker_def)
  have "bu_breaker ?w = bu_breaker tripped" by (simp add: tripped_def record_outcome_def)
  with open_breaker_stays_open [OF i(1) s i(2,3)] show ?thesis by (simp add: tripped_def)
qed

text \<open>
  Probe slots do not leak: in every state reached from a new breaker by any interleaving of
  calls, dropped ones included, in which no admitted probe is still running, a call made after the reset
  timeout is admitted (if at least one probe is allowed at all). So the breaker cannot lock itself up.
\<close>

lemma breaker_never_locks_up:
  assumes steps: "breaker_step\<^sup>*\<^sup>* \<lparr>bu_breaker = new_breaker k d m, bu_clock = t0, bu_probes = 0, bu_plain = 0\<rparr> u"
    and idle: "bu_probes u = 0" and m: "0 < m" and t: "bu_clock u + d \<le> t"
  shows "\<exists>probe cb. admit t (bu_breaker u) = (Ok probe, cb)"
proof -
  have "breaker_inv u" by (rule breaker.steps_keep [OF steps]) (simp add: breaker_inv_def new_breaker_def)
  moreover have "reset_timeout (bu_breaker u) = d" "half_open_max_calls (bu_breaker u) = m"
    using breaker_steps_config [OF steps] by (simp_all add: new_breaker_def)
  ultimately show ?thesis using idle m t
    by (auto simp: breaker_inv_def admit_def split: breaker_state.splits)
qed

lemma breaker_never_locks_up_witness:
  "\<exists>probe cb. admit 40 (new_breaker 2 30 1) = (Ok probe, cb)"
  using breaker_never_locks_up [where k = 2 and d = 30 and m = 1 and ?t0.0 = 0 and t = 40, OF rtranclp.rtrancl_refl]
  by simp

text \<open>
  The threshold is exact: calls that fail one after the other leave a new breaker closed, with
  their number counted, until the threshold is reached, and the failure that reaches it opens the breaker
  at that instant. The counter stays below the threshold, so its 32-bit increment cannot overflow.
\<close>

lemma breaker_trips_at_threshold:
  "fold (\<lambda>i. record_outcome (at i) False) [0..<n] (new_breaker (Suc k) d m) =
     (new_breaker (Suc k) d m)\<lparr>cb_state := if n \<le> k then Closed n else Open (at k)\<rparr>"
proof (induction n)
  case 0
  then show ?case by (simp add: new_breaker_def)
next
  case (Suc n)
  then show ?case by (auto simp: record_outcome_def new_breaker_def le_Suc_eq not_le less_Suc_eq_le)
qed

text \<open>
  The two copies of the phases agree: the legacy breaker admits, refuses and changes state
  exactly as the current one does, and only wraps the errors differently.
\<close>

lemma legacy_call_agrees:
  "snd (legacy_call t d (outcome :: 'a result) cb) = snd (breaker_call t d outcome cb)
   \<and> (case fst (legacy_call t d outcome cb) of
        Inr v \<Rightarrow> fst (breaker_call t d outcome cb) = Ok v
      | Inl CircuitOpen \<Rightarrow> fst (breaker_call t d outcome cb) = Err (Internal ''circuit open'')
      | Inl (Inner e) \<Rightarrow> fst (breaker_call t d outcome cb) = Err e)"
  by (cases outcome; cases "cb_state cb")
     (simp_all add: legacy_call_def legacy_admit_def legacy_record_def breaker_call_def admit_def record_outcome_def Let_def)

section \<open>Retrying\<close>

lemma retry_loop_spec:
  "\<exists>n. made < n \<and> n \<le> max (made + 1) (max_attempts p) \<and> fst (retry_loop p j run made) = run n
     \<and> (\<forall>k. made < k \<and> k < n \<longrightarrow> (\<exists>e. run k = Err e \<and> retry_on p e))
     \<and> (\<forall>e. run n = Err e \<longrightarrow> max_attempts p \<le> n \<or> \<not> retry_on p e)
     \<and> snd (retry_loop p j run made) = map (\<lambda>k. sleep_ms p k (j k)) [made + 1..<n]"
proof (induction p j run made rule: retry_loop.induct)
  case (1 p j run made)
  show ?case
  proof (cases "\<exists>e. run (made + 1) = Err e \<and> \<not> max_attempts p \<le> made + 1 \<and> retry_on p e")
    case False
    then have "retry_loop p j run made = (run (made + 1), [])"
      by (subst retry_loop.simps) (auto split: sum.splits)
    with False show ?thesis by (intro exI [of _ "made + 1"]) auto
  next
    case True
    then obtain e where e: "run (made + 1) = Err e" "\<not> max_attempts p \<le> made + 1" "retry_on p e" by blast
    from "1.IH" [OF refl e(1)] e(2,3) obtain n where
      n: "made + 1 < n" "n \<le> max (made + 2) (max_attempts p)" "fst (retry_loop p j run (made + 1)) = run n"
        "\<forall>k. made + 1 < k \<and> k < n \<longrightarrow> (\<exists>e. run k = Err e \<and> retry_on p e)"
        "\<forall>e. run n = Err e \<longrightarrow> max_attempts p \<le> n \<or> \<not> retry_on p e"
        "snd (retry_loop p j run (made + 1)) = map (\<lambda>k. sleep_ms p k (j k)) [made + 2..<n]" by auto
    have "retry_loop p j run made = (fst (retry_loop p j run (made + 1)),
        sleep_ms p (made + 1) (j (made + 1)) # snd (retry_loop p j run (made + 1)))"
      by (subst retry_loop.simps) (use e in \<open>simp add: case_prod_unfold\<close>)
    moreover have "[made + 1..<n] = (made + 1) # [made + 2..<n]" using n(1) by (simp add: upt_conv_Cons)
    moreover have "\<exists>e. run k = Err e \<and> retry_on p e" if "made < k" "k < n" for k
      using that n(4) e by (cases "k = made + 1") auto
    ultimately show ?thesis using n e(2) by (intro exI [of _ n]) auto
  qed
qed

lemma sleep_ms_bound: "percent \<le> 100 \<Longrightarrow> sleep_ms p k percent \<le> max_delay p + max_delay p div 4"
proof -
  assume "percent \<le> 100"
  let ?c = "backoff_ms (base_delay p) (max_delay p) k"
  have c: "?c \<le> max_delay p" by (simp add: backoff_ms_def)
  have "saturating_mul (?c div 4) percent \<le> (?c div 4) * 100"
    using mult_le_mono2 [OF \<open>percent \<le> 100\<close>, of "?c div 4"] by (simp add: saturating_mul_def min.coboundedI1)
  then have "saturating_mul (?c div 4) percent div 100 \<le> ?c div 4"
    by (metis div_le_mono nonzero_mult_div_cancel_right zero_neq_numeral)
  moreover have "?c div 4 \<le> max_delay p div 4" using c by (rule div_le_mono)
  ultimately show ?thesis using c by (simp add: sleep_ms_def Let_def saturating_add_def)
qed

text \<open>
  Property C16. What a retried call returns: it runs the operation at least once and at most as often as the
  policy allows, returns the outcome of the last run, and stops before the limit only for a success or an
  error that is not to be retried; it sleeps once between consecutive runs, never longer than the
  maximal delay plus a quarter, whatever jitter is drawn.
\<close>

theorem with_retry_exact:
  assumes jitter: "\<And>k. j k \<le> 100"
  shows "\<exists>n. 1 \<le> n \<and> n \<le> max 1 (max_attempts p) \<and> fst (with_retry p j run) = run n
     \<and> (\<forall>k. 1 \<le> k \<and> k < n \<longrightarrow> (\<exists>e. run k = Err e \<and> retry_on p e))
     \<and> (\<forall>e. run n = Err e \<longrightarrow> max_attempts p \<le> n \<or> \<not> retry_on p e)
     \<and> length (snd (with_retry p j run)) = n - 1
     \<and> (\<forall>s\<in>set (snd (with_retry p j run)). s \<le> max_delay p + max_delay p div 4)"
proof -
  from retry_loop_spec [of 0 p j run] obtain n where
    n: "0 < n" "n \<le> max 1 (max_attempts p)" "fst (with_retry p j run) = run n"
      "\<forall>k. 0 < k \<and> k < n \<longrightarrow> (\<exists>e. run k = Err e \<and> retry_on p e)"
      "\<forall>e. run n = Err e \<longrightarrow> max_attempts p \<le> n \<or> \<not> retry_on p e"
      "snd (with_retry p j run) = map (\<lambda>k. sleep_ms p k (j k)) [1..<n]" unfolding with_retry_def by auto
  then have "\<forall>s\<in>set (snd (with_retry p j run)). s \<le> max_delay p + max_delay p div 4"
    using sleep_ms_bound [OF jitter] by auto
  with n show ?thesis by (intro exI [of _ n]) auto
qed

definition flaky :: "nat \<Rightarrow> string result" where
  "flaky k = (if k < 3 then Err (Internal ''down'') else Ok ''up'')"

theorem with_retry_exact_witness:
  "fst (with_retry default_transient (\<lambda>_. 100) flaky) = Ok ''up''
   \<and> list_all (\<lambda>s. s \<le> 6250) (snd (with_retry default_transient (\<lambda>_. 100) flaky))"
proof -
  from with_retry_exact [of "\<lambda>_. 100" default_transient flaky] obtain n where
    n: "n \<le> 3" "fst (with_retry default_transient (\<lambda>_. 100) flaky) = flaky n"
      "\<forall>e. flaky n = Err e \<longrightarrow> 3 \<le> n \<or> \<not> is_transient_error e"
      "\<forall>s\<in>set (snd (with_retry default_transient (\<lambda>_. 100) flaky)). s \<le> 6250"
    by (auto simp: default_transient_def)
  then have "n = 3" by (cases "n < 3") (auto simp: flaky_def)
  with n show ?thesis by (simp add: flaky_def list_all_iff)
qed

section \<open>The guard\<close>

lemma guard_loop_spec:
  assumes "guard_loop ts opn payload run made t g db = (r, g', n, db')"
  shows "made < n \<and> n \<le> max (made + 1) (max_attempts (sg_retry g)) \<and> sg_retry g' = sg_retry g
    \<and> sg_service_name g' = sg_service_name g
    \<and> db' = (case r of Inr _ \<Rightarrow> db
       | Inl e \<Rightarrow> record_dead_letter ts (sg_service_name g) opn payload (error_text e) n db)
    \<and> (\<forall>e. r = Err e \<longrightarrow> max_attempts (sg_retry g) \<le> n \<or> \<not> retry_on (sg_retry g) e
         \<or> breaker_snapshot (sg_breaker g') = COpen)"
  using assms
proof (induction "max_attempts (sg_retry g) - made" arbitrary: made t g rule: less_induct)
  case less
  obtain res cb where c: "breaker_call t (snd (run (made + 1))) (fst (run (made + 1))) (sg_breaker g) = (res, cb)"
    by fastforce
  show ?case
  proof (cases "\<exists>e. res = Err e \<and> retry_on (sg_retry g) e \<and> breaker_snapshot cb \<noteq> COpen
      \<and> \<not> max_attempts (sg_retry g) \<le> made + 1")
    case False
    then show ?thesis using less.prems c
      by (subst (asm) guard_loop.simps) (auto simp: Let_def write_dead_letter_def split: sum.splits if_splits)
  next
    case True
    then obtain e where e: "res = Err e" "retry_on (sg_retry g) e" "breaker_snapshot cb \<noteq> COpen"
      "\<not> max_attempts (sg_retry g) \<le> made + 1" by blast
    let ?t = "t + snd (run (made + 1)) + backoff_ms (base_delay (sg_retry g)) (max_delay (sg_retry g)) (made + 1)"
    have "guard_loop ts opn payload run (made + 1) ?t (g\<lparr>sg_breaker := cb\<rparr>) db = (r, g', n, db')"
      using less.prems c e by (subst (asm) guard_loop.simps) (simp add: Let_def)
    moreover have "max_attempts (sg_retry (g\<lparr>sg_breaker := cb\<rparr>)) - (made + 1) < max_attempts (sg_retry g) - made"
      using e(4) by simp
    ultimately show ?thesis using less.hyps [of "g\<lparr>sg_breaker := cb\<rparr>" "made + 1" ?t] e(4) by (cases r) auto
  qed
qed

text \<open>
  Property C15. Dead letters: a guarded call that succeeds writes no row; one that returns an error appends
  exactly one row, with the service, the operation, the text of that error and the number of attempts,
  which is between one and the limit of the policy. It gives up before the limit only for an error that
  is not to be retried or when the breaker is open.
\<close>

theorem guard_call_dead_letters:
  assumes "guard_call ts opn payload run t g db = (r, g', n, db')"
  shows "1 \<le> n \<and> n \<le> max 1 (max_attempts (sg_retry g))
    \<and> (\<forall>v. r = Ok v \<longrightarrow> db' = db)
    \<and> (\<forall>e. r = Err e \<longrightarrow>
        (\<exists>l. trows (service_dead_letters db') = trows (service_dead_letters db) @ [l]
           \<and> dl_service l = sg_service_name g \<and> dl_operation l = opn \<and> dl_payload_json l = ts payload
           \<and> dl_error l = Some (error_text e) \<and> dl_retry_count l = int n)
        \<and> (max_attempts (sg_retry g) \<le> n \<or> \<not> retry_on (sg_retry g) e \<or> breaker_snapshot (sg_breaker g') = COpen))"
  using guard_loop_spec [OF assms [unfolded guard_call_def]]
  by (auto simp: record_dead_letter_def insert_rowid_def)

theorem guard_call_dead_letters_witness:
  "\<exists>g' n db'. guard_call (\<lambda>_. None) ''rerank'' JNull (\<lambda>_. (Err (Auth ''no key'') :: unit result, 5)) 0 (with_defaults ''reranker'')
      \<lparr>now = 7, service_dead_letters = empty_table\<rparr> = (Err (Auth ''no key''), g', n, db')
    \<and> length (trows (service_dead_letters db')) = 1"
proof -
  let ?c = "guard_call (\<lambda>_. None) ''rerank'' JNull (\<lambda>_. (Err (Auth ''no key'') :: unit result, 5)) 0 (with_defaults ''reranker'')
      \<lparr>now = 7, service_dead_letters = empty_table\<rparr>"
  obtain r g' n db' where c: "?c = (r, g', n, db')" by (cases ?c) auto
  have "fst ?c = Err (Auth ''no key'')" unfolding guard_call_def
    by (subst guard_loop.simps)
       (simp add: breaker_call_def admit_def with_defaults_def new_breaker_def default_transient_def record_outcome_def)
  with c have "r = Err (Auth ''no key'')" by simp
  with guard_call_dead_letters [OF c] c show ?thesis by (auto simp: empty_table_def)
qed

end
