(* ===== verification/Jobs.thy ===== *)
theory Jobs
  imports Kleos_Prelude Json_Values "HOL-Library.Product_Lexorder"
begin

text \<open>
  The durable job queue of \<^verbatim>\<open>kleos-lib/src/jobs/mod.rs\<close>: the jobs table and one definition per statement
  that reads or changes it, the worker step \<^verbatim>\<open>process_next_job\<close>, and the leases that several workers hold
  at the same time.

  Outside the code are: the registered handlers (a handler yields a value, an error or a panic, or runs
  into its time-out, and takes some seconds), JSON parsing of a payload, the environment variable behind
  the time-out of the deprovision job, and SQLite's Julian-day arithmetic, which is exact to a second.
  Attempts are \<^verbatim>\<open>i32\<close> in the code and grow by one per claim, so they are integers here.
\<close>

section \<open>types.rs\<close>

datatype job_status = Pending | Running | Completed | Failed

fun status_as_str :: "job_status \<Rightarrow> string" where
  "status_as_str Pending = ''pending''"
| "status_as_str Running = ''running''"
| "status_as_str Completed = ''completed''"
| "status_as_str Failed = ''failed''"

definition from_str_loose :: "string \<Rightarrow> job_status" where
  "from_str_loose s =
     (if s = ''running'' then Running else if s = ''completed'' then Completed
      else if s = ''failed'' then Failed else Pending)"

record job =
  jb_id :: int
  jb_type :: string
  jb_payload :: string
  jb_status :: job_status
  jb_attempts :: int
  jb_max_attempts :: int
  jb_error :: "string option"
  jb_created_at :: int
  jb_claimed_at :: "int option"
  jb_completed_at :: "int option"
  jb_next_retry_at :: "int option"

record job_stats =
  js_pending :: nat
  js_running :: nat
  js_completed :: nat
  js_failed :: nat

record jobs_db = database +
  jobs :: "job table"

section \<open>mod.rs\<close>

text \<open>The time-out of an attempt, in seconds; \<open>dep\<close> is the parsed environment variable.\<close>

definition deprovision_job_timeout :: "nat option \<Rightarrow> nat" where
  "deprovision_job_timeout dep = (case dep of None \<Rightarrow> 1800 | Some s \<Rightarrow> s)"

definition job_timeout_for :: "nat option \<Rightarrow> string \<Rightarrow> nat" where
  "job_timeout_for dep job_type =
     (if job_type = ''deprovision_teardown'' then deprovision_job_timeout dep else 120)"

definition enqueue_job :: "string \<Rightarrow> string \<Rightarrow> int \<Rightarrow> 'z jobs_db_scheme \<Rightarrow> int \<times> 'z jobs_db_scheme" where
  "enqueue_job job_type payload max_attempts db =
     (case insert_row (\<lambda>i. \<lparr>jb_id = i, jb_type = job_type, jb_payload = payload, jb_status = Pending,
         jb_attempts = 0, jb_max_attempts = max_attempts, jb_error = None, jb_created_at = now db,
         jb_claimed_at = None, jb_completed_at = None, jb_next_retry_at = None\<rparr>) (jobs db) of
        (i, t) \<Rightarrow> (i, db\<lparr>jobs := t\<rparr>))"

definition eligible :: "int \<Rightarrow> job \<Rightarrow> bool" where
  "eligible t j \<longleftrightarrow> jb_status j = Pending \<and> (case jb_next_retry_at j of None \<Rightarrow> True | Some r \<Rightarrow> r \<le> t)"

definition upd_job :: "(job \<Rightarrow> bool) \<Rightarrow> (job \<Rightarrow> job) \<Rightarrow> 'z jobs_db_scheme \<Rightarrow> 'z jobs_db_scheme" where
  "upd_job P f db = db\<lparr>jobs := update_where P f (jobs db)\<rparr>"

definition claim_next_job :: "'z jobs_db_scheme \<Rightarrow> job option \<times> 'z jobs_db_scheme" where
  "claim_next_job db =
     (case sort_key jb_created_at (select_where (eligible (now db)) (jobs db)) of
        [] \<Rightarrow> (None, db)
      | j # _ \<Rightarrow>
          (Some (j\<lparr>jb_status := Running, jb_attempts := jb_attempts j + 1, jb_error := None,
              jb_claimed_at := Some (now db), jb_completed_at := None\<rparr>),
           upd_job (\<lambda>x. jb_id x = jb_id j)
             (\<lambda>x. x\<lparr>jb_status := Running, jb_claimed_at := Some (now db), jb_attempts := jb_attempts x + 1\<rparr>) db))"

text \<open>The row a finaliser of the lease \<open>(i, c)\<close> may change.\<close>

definition held :: "int \<Rightarrow> int \<Rightarrow> job \<Rightarrow> bool" where
  "held i c j \<longleftrightarrow> jb_id j = i \<and> jb_status j = Running \<and> jb_claimed_at j = Some c"

definition complete_job :: "int \<Rightarrow> int \<Rightarrow> 'z jobs_db_scheme \<Rightarrow> 'z jobs_db_scheme" where
  "complete_job i claimed_at db =
     upd_job (held i claimed_at)
       (\<lambda>j. j\<lparr>jb_status := Completed, jb_completed_at := Some (now db), jb_error := None\<rparr>) db"

definition fail_job :: "int \<Rightarrow> int \<Rightarrow> string \<Rightarrow> 'z jobs_db_scheme \<Rightarrow> 'z jobs_db_scheme" where
  "fail_job i claimed_at err_msg db =
     upd_job (held i claimed_at)
       (\<lambda>j. j\<lparr>jb_status := Failed, jb_error := Some err_msg, jb_completed_at := Some (now db)\<rparr>) db"

definition retry_job :: "int \<Rightarrow> int \<Rightarrow> string \<Rightarrow> int \<Rightarrow> 'z jobs_db_scheme \<Rightarrow> 'z jobs_db_scheme" where
  "retry_job i claimed_at err_msg delay_sec db =
     upd_job (held i claimed_at)
       (\<lambda>j. j\<lparr>jb_status := Pending, jb_error := Some err_msg,
              jb_next_retry_at := datetime_plus_seconds (now db) delay_sec, jb_claimed_at := None\<rparr>) db"

definition get_job_stats :: "'z jobs_db_scheme \<Rightarrow> job_stats" where
  "get_job_stats db =
     \<lparr>js_pending = count_where (\<lambda>j. jb_status j = Pending) (jobs db),
      js_running = count_where (\<lambda>j. jb_status j = Running) (jobs db),
      js_completed = count_where (\<lambda>j. jb_status j = Completed) (jobs db),
      js_failed = count_where (\<lambda>j. jb_status j = Failed) (jobs db)\<rparr>"

text \<open>One batch of the clean-up, and the loop that repeats it until a batch removes nothing.\<close>

definition stale_completed :: "'z jobs_db_scheme \<Rightarrow> job \<Rightarrow> bool" where
  "stale_completed db j \<longleftrightarrow> jb_status j = Completed \<and> before (jb_completed_at j) (datetime_minus_hours (now db) 1)"

definition cleanup_batch :: "'z jobs_db_scheme \<Rightarrow> nat \<times> 'z jobs_db_scheme" where
  "cleanup_batch db =
     (let ids = take 100 (map jb_id (select_where (stale_completed db) (jobs db)))
      in (count_where (\<lambda>j. jb_id j \<in> set ids) (jobs db),
          db\<lparr>jobs := delete_where (\<lambda>j. jb_id j \<in> set ids) (jobs db)\<rparr>))"

lemma cleanup_batch_smaller:
  "cleanup_batch db = (n, db') \<Longrightarrow> length (trows (jobs db')) + n = length (trows (jobs db))"
  by (auto simp: cleanup_batch_def Let_def count_where_def delete_where_def sum_length_filter_compl add.commute)

function cleanup_loop :: "nat \<Rightarrow> 'z jobs_db_scheme \<Rightarrow> nat \<times> 'z jobs_db_scheme" where
  "cleanup_loop deleted db =
     (case cleanup_batch db of (n, db') \<Rightarrow>
        if n = 0 then (deleted + n, db') else cleanup_loop (deleted + n) db')"
  by pat_completeness auto
termination
  by (relation "measure (\<lambda>(_, db). length (trows (jobs db)))") (auto dest!: cleanup_batch_smaller [OF sym])

declare cleanup_loop.simps [simp del]

definition cleanup_completed_jobs :: "'z jobs_db_scheme \<Rightarrow> nat \<times> 'z jobs_db_scheme" where
  "cleanup_completed_jobs db = cleanup_loop 0 db"

definition purge_where :: "job_status \<Rightarrow> int \<Rightarrow> 'z jobs_db_scheme \<Rightarrow> nat \<times> 'z jobs_db_scheme" where
  "purge_where st older_than_days db =
     (let days = max older_than_days 0;
          old = (\<lambda>j. jb_status j = st \<and> before (jb_completed_at j) (datetime_minus_days (now db) days))
      in (count_where old (jobs db), db\<lparr>jobs := delete_where old (jobs db)\<rparr>))"

definition cleanup_jobs :: "int \<Rightarrow> 'z jobs_db_scheme \<Rightarrow> nat \<times> 'z jobs_db_scheme" where
  "cleanup_jobs older_than_days db = purge_where Completed older_than_days db"

definition purge_failed_jobs :: "int \<Rightarrow> 'z jobs_db_scheme \<Rightarrow> nat \<times> 'z jobs_db_scheme" where
  "purge_failed_jobs older_than_days db = purge_where Failed older_than_days db"

definition GRACE_SECS :: nat where
  "GRACE_SECS = 60"

text \<open>\<open>elapsed t c\<close> is the number of seconds SQLite computes from \<open>c\<close> to \<open>t\<close>.\<close>

definition abandoned :: "(int \<Rightarrow> int \<Rightarrow> int) \<Rightarrow> nat option \<Rightarrow> int \<Rightarrow> string \<times> int \<Rightarrow> bool" where
  "abandoned elapsed dep t = (\<lambda>(job_type, claimed).
     0 \<le> elapsed t claimed \<and> int (job_timeout_for dep job_type + GRACE_SECS) < elapsed t claimed)"

definition recover_row :: "int \<Rightarrow> nat \<times> 'z jobs_db_scheme \<Rightarrow> nat \<times> 'z jobs_db_scheme" where
  "recover_row i = (\<lambda>(recovered, db).
     (recovered + count_where (\<lambda>j. jb_id j = i \<and> jb_status j = Running) (jobs db),
      upd_job (\<lambda>j. jb_id j = i \<and> jb_status j = Running) (\<lambda>j. j\<lparr>jb_status := Pending, jb_claimed_at := None\<rparr>) db))"

definition running_claims :: "'z jobs_db_scheme \<Rightarrow> (int \<times> string \<times> int) list" where
  "running_claims db =
     map (\<lambda>j. (jb_id j, jb_type j, the (jb_claimed_at j)))
       (select_where (\<lambda>j. jb_status j = Running \<and> jb_claimed_at j \<noteq> None) (jobs db))"

definition recover_stuck_jobs ::
    "(int \<Rightarrow> int \<Rightarrow> int) \<Rightarrow> nat option \<Rightarrow> 'z jobs_db_scheme \<Rightarrow> nat \<times> 'z jobs_db_scheme" where
  "recover_stuck_jobs elapsed dep db =
     fold (\<lambda>(i, claim). if abandoned elapsed dep (now db) claim then recover_row i else id)
       (running_claims db) (0, db)"

definition list_failed_jobs :: "'z jobs_db_scheme \<Rightarrow> int \<Rightarrow> int \<Rightarrow> job list" where
  "list_failed_jobs db limit offset =
     sql_limit limit (sql_offset offset (map (\<lambda>j. j\<lparr>jb_claimed_at := None, jb_next_retry_at := None\<rparr>)
       (sort_key (\<lambda>j. case jb_completed_at j of None \<Rightarrow> (1, 0) | Some t \<Rightarrow> (0 :: int, - t))
         (select_where (\<lambda>j. jb_status j = Failed) (jobs db)))))"

definition list_pending_jobs :: "'z jobs_db_scheme \<Rightarrow> int \<Rightarrow> int \<Rightarrow> job list" where
  "list_pending_jobs db limit offset =
     sql_limit limit (sql_offset offset
       (map (\<lambda>j. j\<lparr>jb_error := None, jb_claimed_at := None, jb_completed_at := None\<rparr>)
         (sort_key jb_created_at (select_where (\<lambda>j. jb_status j = Pending) (jobs db)))))"

definition list_running_jobs :: "'z jobs_db_scheme \<Rightarrow> job list" where
  "list_running_jobs db =
     map (\<lambda>j. j\<lparr>jb_error := None, jb_completed_at := None, jb_next_retry_at := None\<rparr>)
       (sort_key (\<lambda>j. case jb_claimed_at j of None \<Rightarrow> (0 :: int, 0) | Some t \<Rightarrow> (1, t))
         (select_where (\<lambda>j. jb_status j = Running) (jobs db)))"

definition count_failed_jobs :: "'z jobs_db_scheme \<Rightarrow> nat" where
  "count_failed_jobs db = count_where (\<lambda>j. jb_status j = Failed) (jobs db)"

definition retry_failed_job :: "int \<Rightarrow> 'z jobs_db_scheme \<Rightarrow> bool \<times> 'z jobs_db_scheme" where
  "retry_failed_job i db =
     (let P = (\<lambda>j. jb_id j = i \<and> jb_status j = Failed)
      in (0 < count_where P (jobs db),
          upd_job P (\<lambda>j. j\<lparr>jb_status := Pending, jb_error := None, jb_attempts := 0, jb_next_retry_at := None\<rparr>) db))"

text \<open>Handlers, and one step of a worker.\<close>

datatype handler_outcome = HandlerOk | HandlerErr eng_error | HandlerPanic string | HandlerTimeout

type_synonym handlers = "(string \<times> (json \<Rightarrow> handler_outcome \<times> nat)) list"

definition register_job_handler :: "string \<Rightarrow> (json \<Rightarrow> handler_outcome \<times> nat) \<Rightarrow> handlers \<Rightarrow> handlers" where
  "register_job_handler job_type handler hs = (job_type, handler) # filter (\<lambda>(t, _). t \<noteq> job_type) hs"

definition settle_failure :: "job \<Rightarrow> int \<Rightarrow> string \<Rightarrow> 'z jobs_db_scheme \<Rightarrow> 'z jobs_db_scheme" where
  "settle_failure j claimed_at err_msg db =
     (if jb_max_attempts j \<le> jb_attempts j then fail_job (jb_id j) claimed_at err_msg db
      else retry_job (jb_id j) claimed_at err_msg (10 * jb_attempts j * jb_attempts j) db)"

definition process_next_job ::
    "(string \<Rightarrow> string + json) \<Rightarrow> nat option \<Rightarrow> handlers \<Rightarrow> 'z jobs_db_scheme \<Rightarrow> bool \<times> 'z jobs_db_scheme" where
  "process_next_job from_str dep hs db =
     (case claim_next_job db of
        (None, db1) \<Rightarrow> (False, db1)
      | (Some j, db1) \<Rightarrow>
          let claimed_at = (case jb_claimed_at j of Some c \<Rightarrow> c | None \<Rightarrow> 0) in
          (case map_of hs (jb_type j) of
             None \<Rightarrow> (True, settle_failure j claimed_at (''No handler registered for job type: '' @ jb_type j) db1)
           | Some handler \<Rightarrow>
               (case from_str (jb_payload j) of
                  Inl e \<Rightarrow> (True, fail_job (jb_id j) claimed_at (''invalid job payload JSON: '' @ e) db1)
                | Inr payload \<Rightarrow>
                    (case handler payload of (outcome, seconds) \<Rightarrow>
                       let db2 = db1\<lparr>now := now db1 + int seconds\<rparr> in
                       (True, (case outcome of
                          HandlerOk \<Rightarrow> complete_job (jb_id j) claimed_at db2
                        | HandlerErr e \<Rightarrow> settle_failure j claimed_at (error_text e) db2
                        | HandlerPanic reason \<Rightarrow> settle_failure j claimed_at (''job handler panicked: '' @ reason) db2
                        | HandlerTimeout \<Rightarrow> settle_failure j claimed_at
                            (''Job timed out after '' @ show_nat (1000 * job_timeout_for dep (jb_type j)) @ ''ms'') db2))))))"

section \<open>Claiming\<close>

abbreviation "all_jobs db \<equiv> set (trows (jobs db))"

lemma upd_job_simps [table_simps]:
  "trows (jobs (upd_job P f db)) = map (\<lambda>j. if P j then f j else j) (trows (jobs db))"
  "tseq (jobs (upd_job P f db)) = tseq (jobs db)" "now (upd_job P f db) = now db"
  by (simp_all add: upd_job_def table_simps)

lemma claim_next_job_cases:
  obtains (none) "claim_next_job db = (None, db)" "\<forall>j\<in>all_jobs db. \<not> eligible (now db) j"
  | (claimed) j where "j \<in> all_jobs db" "eligible (now db) j"
      "\<forall>x\<in>all_jobs db. eligible (now db) x \<longrightarrow> jb_created_at j \<le> jb_created_at x"
      "claim_next_job db = (Some (j\<lparr>jb_status := Running, jb_attempts := jb_attempts j + 1, jb_error := None,
              jb_claimed_at := Some (now db), jb_completed_at := None\<rparr>),
         upd_job (\<lambda>x. jb_id x = jb_id j)
           (\<lambda>x. x\<lparr>jb_status := Running, jb_claimed_at := Some (now db), jb_attempts := jb_attempts x + 1\<rparr>) db)"
proof (cases "sort_key jb_created_at (select_where (eligible (now db)) (jobs db))")
  case Nil
  then have "select_where (eligible (now db)) (jobs db) = []" by (metis length_0_conv length_sort)
  with Nil show ?thesis by (intro none) (auto simp: claim_next_job_def select_where_def filter_empty_conv)
next
  case (Cons j js)
  let ?s = "sort_key jb_created_at (select_where (eligible (now db)) (jobs db))"
  have set: "set ?s = {x \<in> all_jobs db. eligible (now db) x}" by (auto simp: select_where_def)
  have "sorted (map jb_created_at ?s)" by simp
  with Cons have "\<forall>x\<in>set ?s. jb_created_at j \<le> jb_created_at x" by auto
  moreover have "j \<in> set ?s" using Cons by simp
  ultimately show ?thesis using set Cons by (intro claimed [of j]) (auto simp: claim_next_job_def)
qed

text \<open>
  Claiming is fair: no job is handed out while an older one is ready. A claim returns nothing
  exactly when no pending job is due; otherwise it returns a due job with the earliest creation time, marks
  that row alone as running under the lease token it returns, and counts the attempt.
\<close>

lemma claim_next_job_oldest_first:
  assumes wf: "wf_table jb_id (jobs db)"
  shows "case claim_next_job db of
      (None, db') \<Rightarrow> db' = db \<and> (\<forall>j\<in>all_jobs db. \<not> eligible (now db) j)
    | (Some c, db') \<Rightarrow> (\<exists>j\<in>all_jobs db. eligible (now db) j
        \<and> (\<forall>x\<in>all_jobs db. eligible (now db) x \<longrightarrow> jb_created_at j \<le> jb_created_at x)
        \<and> jb_id c = jb_id j \<and> jb_attempts c = jb_attempts j + 1 \<and> jb_claimed_at c = Some (now db)
        \<and> (\<forall>x\<in>all_jobs db'. if jb_id x = jb_id j
             then x = j\<lparr>jb_status := Running, jb_claimed_at := Some (now db), jb_attempts := jb_attempts j + 1\<rparr>
             else x \<in> all_jobs db))"
proof (cases db rule: claim_next_job_cases)
  case none
  then show ?thesis by simp
next
  case (claimed j)
  have "x = j" if "x \<in> all_jobs db" "jb_id x = jb_id j" for x
    using wf_table_unique [OF wf that(1) claimed(1) that(2)] .
  with claimed show ?thesis by (auto simp: table_simps intro!: bexI [of _ j])
qed

definition demo_jobs :: jobs_db where
  "demo_jobs = snd (enqueue_job ''mail'' ''{}'' 3 ((snd (enqueue_job ''mail'' ''{}'' 3 \<lparr>now = 5, jobs = empty_table\<rparr>))\<lparr>now := 9\<rparr>))"

lemma demo_jobs_wf: "wf_table jb_id (jobs demo_jobs)"
  by (simp add: demo_jobs_def enqueue_job_def insert_row_def empty_table_def wf_table_def)

lemma claim_next_job_oldest_first_witness:
  "map_option jb_id (fst (claim_next_job demo_jobs)) = Some 1
   \<and> (\<exists>c db'. claim_next_job demo_jobs = (Some c, db') \<and> jb_claimed_at c = Some 9)"
proof -
  have f: "map_option jb_id (fst (claim_next_job demo_jobs)) = Some 1" by code_simp
  then obtain c db' where "claim_next_job demo_jobs = (Some c, db')" by (cases "claim_next_job demo_jobs") auto
  moreover have "now demo_jobs = 9" by (simp add: demo_jobs_def enqueue_job_def insert_row_def)
  ultimately show ?thesis using claim_next_job_oldest_first [OF demo_jobs_wf] f by auto
qed

section \<open>One step of a worker\<close>

text \<open>How often a pending job may still be attempted.\<close>

definition job_work :: "job \<Rightarrow> nat" where
  "job_work j = (if jb_status j = Pending then nat (max 1 (jb_max_attempts j - jb_attempts j)) else 0)"

definition queue_work :: "'z jobs_db_scheme \<Rightarrow> nat" where
  "queue_work db = sum_list (map job_work (trows (jobs db)))"

text \<open>What a worker step makes of the claimed job.\<close>

definition settled :: "int \<Rightarrow> job \<Rightarrow> job \<Rightarrow> bool" where
  "settled t j j' \<longleftrightarrow> jb_id j' = jb_id j \<and> jb_type j' = jb_type j \<and> jb_payload j' = jb_payload j
     \<and> jb_created_at j' = jb_created_at j \<and> jb_max_attempts j' = jb_max_attempts j
     \<and> jb_attempts j' = jb_attempts j + 1
     \<and> (jb_status j' = Completed \<or> jb_status j' = Failed
        \<or> jb_status j' = Pending \<and> jb_attempts j' < jb_max_attempts j
          \<and> jb_next_retry_at j' = Some (t + 10 * jb_attempts j' * jb_attempts j'))"

lemma after_claim:
  assumes "wf_table jb_id (jobs db)" "j \<in> all_jobs db" "j' = f (j\<lparr>jb_status := Running,
      jb_claimed_at := Some c, jb_attempts := jb_attempts j + 1\<rparr>)"
    and "jobs db1 = jobs (upd_job (\<lambda>x. jb_id x = jb_id j)
           (\<lambda>x. x\<lparr>jb_status := Running, jb_claimed_at := Some c, jb_attempts := jb_attempts x + 1\<rparr>) db)"
  shows "trows (jobs (upd_job (held (jb_id j) c) f db1)) = map (\<lambda>x. if x = j then j' else x) (trows (jobs db))"
proof -
  have "x = j" if "x \<in> all_jobs db" "jb_id x = jb_id j" for x
    using wf_table_unique [OF assms(1) that(1) assms(2) that(2)] .
  then show ?thesis using assms(3,4) by (auto simp: table_simps held_def)
qed

lemma settle_failure_row:
  assumes "wf_table jb_id (jobs db)" "j \<in> all_jobs db" "0 \<le> jb_attempts j"
    and "jobs db1 = jobs (upd_job (\<lambda>x. jb_id x = jb_id j)
           (\<lambda>x. x\<lparr>jb_status := Running, jb_claimed_at := Some c, jb_attempts := jb_attempts x + 1\<rparr>) db)"
    and "jb_id k = jb_id j" "jb_attempts k = jb_attempts j + 1" "jb_max_attempts k = jb_max_attempts j"
  shows "\<exists>j'. trows (jobs (settle_failure k c msg db1)) = map (\<lambda>x. if x = j then j' else x) (trows (jobs db))
     \<and> settled (now db1) j j' \<and> jb_status j' \<noteq> Completed \<and> jb_error j' = Some msg
     \<and> (jb_max_attempts j \<le> jb_attempts j + 1 \<longrightarrow> jb_status j' = Failed)"
proof (cases "jb_max_attempts j \<le> jb_attempts j + 1")
  case True
  have "settle_failure k c msg db1 = fail_job (jb_id j) c msg db1" using assms(5-7) True by (simp add: settle_failure_def)
  then show ?thesis unfolding fail_job_def using after_claim [OF assms(1,2) refl assms(4)] True
    by (intro exI conjI) (auto simp: settled_def)
next
  case False
  have "settle_failure k c msg db1 = retry_job (jb_id j) c msg (10 * (jb_attempts j + 1) * (jb_attempts j + 1)) db1"
    using assms(5-7) False by (simp add: settle_failure_def)
  moreover have "0 \<le> 10 * (jb_attempts j + 1) * (jb_attempts j + 1)" using assms(3) by simp
  ultimately show ?thesis unfolding retry_job_def using after_claim [OF assms(1,2) refl assms(4)] False
    by (intro exI conjI) (auto simp: settled_def datetime_plus_seconds_def)
qed

text \<open>Whether the job's handler is there, its payload parses and the handler succeeds.\<close>

definition handled :: "(string \<Rightarrow> string + json) \<Rightarrow> handlers \<Rightarrow> job \<Rightarrow> bool" where
  "handled from_str hs j \<longleftrightarrow>
     (case (map_of hs (jb_type j), from_str (jb_payload j)) of
        (Some h, Inr p) \<Rightarrow> fst (h p) = HandlerOk | _ \<Rightarrow> False)"

definition poison :: "(string \<Rightarrow> string + json) \<Rightarrow> handlers \<Rightarrow> job \<Rightarrow> bool" where
  "poison from_str hs j \<longleftrightarrow> map_of hs (jb_type j) \<noteq> None \<and> (\<exists>e. from_str (jb_payload j) = Inl e)"

lemma process_claimed:
  assumes wf: "wf_table jb_id (jobs db)" and j: "j \<in> all_jobs db" "0 \<le> jb_attempts j"
    and claim: "claim_next_job db = (Some (j\<lparr>jb_status := Running, jb_attempts := jb_attempts j + 1, jb_error := None,
              jb_claimed_at := Some (now db), jb_completed_at := None\<rparr>),
         upd_job (\<lambda>x. jb_id x = jb_id j)
           (\<lambda>x. x\<lparr>jb_status := Running, jb_claimed_at := Some (now db), jb_attempts := jb_attempts x + 1\<rparr>) db)"
  shows "\<exists>j' db'. process_next_job from_str dep hs db = (True, db')
    \<and> trows (jobs db') = map (\<lambda>x. if x = j then j' else x) (trows (jobs db)) \<and> now db \<le> now db'
    \<and> settled (now db') j j' \<and> (jb_status j' = Completed \<longleftrightarrow> handled from_str hs j)
    \<and> (poison from_str hs j \<or> \<not> handled from_str hs j \<and> jb_max_attempts j \<le> jb_attempts j + 1 \<longrightarrow> jb_status j' = Failed)"
proof -
  let ?k = "j\<lparr>jb_status := Running, jb_attempts := jb_attempts j + 1, jb_error := None,
              jb_claimed_at := Some (now db), jb_completed_at := None\<rparr>"
  let ?db1 = "upd_job (\<lambda>x. jb_id x = jb_id j)
           (\<lambda>x. x\<lparr>jb_status := Running, jb_claimed_at := Some (now db), jb_attempts := jb_attempts x + 1\<rparr>) db"
  note unf = process_next_job_def claim prod.case option.case Let_def
  have failing: "\<exists>j' db'. settle_failure ?k (now db) msg db2 = db'
      \<and> trows (jobs db') = map (\<lambda>x. if x = j then j' else x) (trows (jobs db)) \<and> now db' = now db2
      \<and> settled (now db') j j' \<and> jb_status j' \<noteq> Completed
      \<and> (jb_max_attempts j \<le> jb_attempts j + 1 \<longrightarrow> jb_status j' = Failed)"
    if "jobs db2 = jobs ?db1" for db2 :: "'a jobs_db_scheme" and msg
  proof -
    have "now (settle_failure ?k (now db) msg db2) = now db2"
      by (simp add: settle_failure_def fail_job_def retry_job_def table_simps)
    with settle_failure_row [OF wf j that, of ?k msg] show ?thesis by auto
  qed
  have failed: ?thesis
    if "process_next_job from_str dep hs db = (True, settle_failure ?k (now db) msg db2)"
      "\<not> handled from_str hs j" "\<not> poison from_str hs j" "jobs db2 = jobs ?db1" "now db \<le> now db2"
    for db2 :: "'a jobs_db_scheme" and msg
  proof -
    from failing [OF that(4), of msg] obtain j' db' where "settle_failure ?k (now db) msg db2 = db'"
      "trows (jobs db') = map (\<lambda>x. if x = j then j' else x) (trows (jobs db))" "now db' = now db2"
      "settled (now db') j j'" "jb_status j' \<noteq> Completed"
      "jb_max_attempts j \<le> jb_attempts j + 1 \<longrightarrow> jb_status j' = Failed" by blast
    with that show ?thesis by (intro exI [of _ j'] exI [of _ db']) simp
  qed
  let ?row = "j\<lparr>jb_status := Running, jb_claimed_at := Some (now db), jb_attempts := jb_attempts j + 1\<rparr>"
  have finished: ?thesis
    if "process_next_job from_str dep hs db = (True, upd_job (held (jb_id j) (now db)) f db2)"
      "jobs db2 = jobs ?db1" "now db \<le> now db2" "settled (now db2) j (f ?row)"
      "jb_status (f ?row) = Completed \<longleftrightarrow> handled from_str hs j"
      "poison from_str hs j \<or> \<not> handled from_str hs j \<longrightarrow> jb_status (f ?row) = Failed"
    for f and db2 :: "'a jobs_db_scheme"
    using that after_claim [OF wf j(1) refl that(2), of f]
    by (intro exI [of _ "f ?row"] exI [of _ "upd_job (held (jb_id j) (now db)) f db2"]) (simp add: table_simps)
  show ?thesis
  proof (cases "map_of hs (jb_type j)")
    case None
    then have "process_next_job from_str dep hs db
        = (True, settle_failure ?k (now db) (''No handler registered for job type: '' @ jb_type j) ?db1)"
      unfolding unf by simp
    moreover from None have "\<not> handled from_str hs j" "\<not> poison from_str hs j" by (simp_all add: handled_def poison_def)
    ultimately show ?thesis by (rule failed) (simp_all add: table_simps)
  next
    case (Some h)
    note h = Some
    show ?thesis
    proof (cases "from_str (jb_payload j)")
      case (Inl e)
      show ?thesis
        by (rule finished [of "\<lambda>j. j\<lparr>jb_status := Failed, jb_error := Some (''invalid job payload JSON: '' @ e),
              jb_completed_at := Some (now ?db1)\<rparr>" ?db1])
           (use h Inl in \<open>simp_all add: unf fail_job_def handled_def poison_def settled_def table_simps\<close>)
    next
      case (Inr p)
      obtain outcome secs where hp: "h p = (outcome, secs)" by fastforce
      let ?db2 = "?db1\<lparr>now := now ?db1 + int secs\<rparr>"
      have eq: "jobs ?db2 = jobs ?db1" "now db \<le> now ?db2" by (simp_all add: table_simps)
      show ?thesis
      proof (cases "outcome = HandlerOk")
        case True
        show ?thesis
          by (rule finished [of "\<lambda>j. j\<lparr>jb_status := Completed, jb_completed_at := Some (now ?db2), jb_error := None\<rparr>" ?db2])
             (use h Inr hp True in \<open>simp_all add: unf complete_job_def handled_def poison_def settled_def table_simps\<close>)
      next
        case False
        have nh: "\<not> handled from_str hs j" "\<not> poison from_str hs j" using h Inr hp False by (simp_all add: handled_def poison_def)
        have "\<exists>msg. process_next_job from_str dep hs db = (True, settle_failure ?k (now db) msg ?db2)"
          using h Inr hp False unfolding unf by (cases outcome) (simp_all, (rule exI, rule refl)+)
        then show ?thesis using failed [OF _ nh eq] by blast
      qed
    qed
  qed
qed



lemma settle_failure_seq: "tseq (jobs (settle_failure j c msg db)) = tseq (jobs db)"
  by (simp add: settle_failure_def fail_job_def retry_job_def table_simps)

lemma process_next_job_seq:
  "process_next_job from_str dep hs db = (b, db') \<Longrightarrow> tseq (jobs db') = tseq (jobs db)"
  by (cases db rule: claim_next_job_cases)
     (auto simp: process_next_job_def Let_def settle_failure_seq complete_job_def fail_job_def table_simps
        split: option.splits sum.splits prod.splits handler_outcome.splits)

text \<open>
  Property C19. A job cannot be retried for ever: every worker step that finds a job lowers the number of
  attempts the queue still allows, whatever the handler does and however much time passes. So between two
  changes of the queue from outside a worker runs at most that many jobs.
\<close>

theorem process_next_job_bounded_work:
  assumes wf: "wf_table jb_id (jobs db)" and att: "\<forall>j\<in>all_jobs db. 0 \<le> jb_attempts j"
    and run: "process_next_job from_str dep hs db = (True, db')"
  shows "queue_work db' < queue_work db \<and> wf_table jb_id (jobs db') \<and> (\<forall>j\<in>all_jobs db'. 0 \<le> jb_attempts j)"
proof (cases db rule: claim_next_job_cases)
  case none
  then show ?thesis using run by (simp add: process_next_job_def)
next
  case (claimed j)
  have "0 \<le> jb_attempts j" using att claimed(1) by blast
  from process_claimed [OF wf claimed(1) this claimed(4), of from_str dep hs] run obtain j' where
    rows: "trows (jobs db') = map (\<lambda>x. if x = j then j' else x) (trows (jobs db))" and s: "settled (now db') j j'"
    and seq: "tseq (jobs db') = tseq (jobs db)" using process_next_job_seq [OF run] by auto
  have less: "job_work j' < job_work j"
    using s claimed(2) by (auto simp: settled_def job_work_def eligible_def max_def)
  have "queue_work db' = sum_list (map (\<lambda>x. job_work (if x = j then j' else x)) (trows (jobs db)))"
    by (simp add: queue_work_def rows comp_def)
  also have "\<dots> < queue_work db" unfolding queue_work_def
    by (rule sum_list_mono_strict [OF _ claimed(1)]) (use less in auto)
  finally have "queue_work db' < queue_work db" .
  moreover have "wf_table jb_id (jobs db')"
    by (rule wf_table_map_in [OF wf rows seq]) (use s in \<open>simp add: settled_def\<close>)
  moreover have "\<forall>x\<in>all_jobs db'. 0 \<le> jb_attempts x"
    using att s \<open>0 \<le> jb_attempts j\<close> by (auto simp: rows settled_def)
  ultimately show ?thesis by blast
qed

theorem process_next_job_bounded_work_witness:
  "queue_work (snd (process_next_job (\<lambda>_. Inr JNull) None [(''mail'', \<lambda>_. (HandlerTimeout, 2))] demo_jobs)) < queue_work demo_jobs"
proof -
  let ?p = "process_next_job (\<lambda>_. Inr JNull) None [(''mail'', \<lambda>_. (HandlerTimeout, 2))] demo_jobs"
  have att: "\<forall>j\<in>all_jobs demo_jobs. 0 \<le> jb_attempts j" by code_simp
  have "fst ?p"
    by (simp add: process_next_job_def claim_next_job_def demo_jobs_def enqueue_job_def insert_row_def empty_table_def
        select_where_def eligible_def)
  then obtain db' where p: "?p = (True, db')" by (cases ?p) auto
  from process_next_job_bounded_work [OF demo_jobs_wf att p] p show ?thesis by simp
qed

section \<open>Cleaning up\<close>

lemma filter_not_take: "distinct xs \<Longrightarrow> filter (\<lambda>x. x \<notin> set (take n xs)) xs = drop n xs"
proof -
  assume d: "distinct xs"
  let ?P = "\<lambda>x. x \<notin> set (take n xs)"
  have "filter ?P (take n xs) = []" by (simp add: filter_empty_conv)
  moreover have "filter ?P (drop n xs) = drop n xs"
    using set_take_disj_set_drop_if_distinct [OF d, of n n] by (auto simp: filter_id_conv)
  ultimately show ?thesis by (metis append_Nil append_take_drop_id filter_append)
qed

lemma cleanup_batch_rows:
  assumes "wf_table jb_id (jobs db)"
  shows "cleanup_batch db = (min 100 (count_where (stale_completed db) (jobs db)),
     db\<lparr>jobs := (jobs db)\<lparr>trows := filter (\<lambda>j. jb_id j \<notin> jb_id ` set (take 100 (filter (stale_completed db) (trows (jobs db)))))
       (trows (jobs db))\<rparr>\<rparr>)"
proof -
  let ?F = "filter (stale_completed db) (trows (jobs db))"
  let ?ids = "jb_id ` set (take 100 ?F)"
  have inj: "inj_on jb_id (all_jobs db)" using wf_table_distinct [OF assms] by (simp add: distinct_map)
  have dist: "distinct (trows (jobs db))" using wf_table_distinct [OF assms] by (simp add: distinct_map)
  have sub: "set (take 100 ?F) \<subseteq> all_jobs db" using set_take_subset [of 100 ?F] by auto
  have "{j \<in> all_jobs db. jb_id j \<in> ?ids} = set (take 100 ?F)" using sub inj by (auto dest: inj_onD)
  then have "set (filter (\<lambda>j. jb_id j \<in> ?ids) (trows (jobs db))) = set (take 100 ?F)" by simp
  then have "length (filter (\<lambda>j. jb_id j \<in> ?ids) (trows (jobs db))) = length (take 100 ?F)"
    using dist by (metis distinct_card distinct_filter distinct_take)
  then show ?thesis
    by (simp add: cleanup_batch_def Let_def select_where_def count_where_def delete_where_def take_map min.commute)
qed

lemma cleanup_completed_jobs_rows:
  assumes "wf_table jb_id (jobs db)"
  shows "cleanup_completed_jobs db =
    (count_where (stale_completed db) (jobs db), db\<lparr>jobs := delete_where (stale_completed db) (jobs db)\<rparr>)"
proof -
  have "cleanup_loop n db = (n + count_where (stale_completed db) (jobs db),
      db\<lparr>jobs := delete_where (stale_completed db) (jobs db)\<rparr>)" for n
    using assms
  proof (induction "length (trows (jobs db))" arbitrary: n db rule: less_induct)
    case less
    let ?F = "filter (stale_completed db) (trows (jobs db))"
    let ?B = "take 100 ?F"
    let ?db = "db\<lparr>jobs := (jobs db)\<lparr>trows := filter (\<lambda>j. jb_id j \<notin> jb_id ` set ?B) (trows (jobs db))\<rparr>\<rparr>"
    have b: "cleanup_batch db = (min 100 (length ?F), ?db)"
      using cleanup_batch_rows [OF less.prems] by (simp add: count_where_def)
    show ?case
    proof (cases "?F = []")
      case True
      then show ?thesis unfolding cleanup_loop.simps [of n db] b
        by (simp add: count_where_def delete_where_def filter_empty_conv)
    next
      case False
      have smaller: "length (trows (jobs ?db)) + min 100 (length ?F) = length (trows (jobs db))"
        using cleanup_batch_smaller [OF b] .
      then have "length (trows (jobs ?db)) < length (trows (jobs db))" using False by (cases ?F) auto
      moreover have "wf_table jb_id (jobs ?db)"
        using wf_delete_where [OF less.prems, of "\<lambda>j. jb_id j \<in> jb_id ` set ?B"] by (simp add: delete_where_def)
      ultimately have ih: "cleanup_loop (n + min 100 (length ?F)) ?db =
          (n + min 100 (length ?F) + count_where (stale_completed ?db) (jobs ?db),
           ?db\<lparr>jobs := delete_where (stale_completed ?db) (jobs ?db)\<rparr>)" by (rule less.hyps)
      have st: "stale_completed ?db = stale_completed db" by (simp add: fun_eq_iff stale_completed_def)
      have "inj_on jb_id (all_jobs db)" "distinct (trows (jobs db))"
        using wf_table_distinct [OF less.prems] by (auto simp: distinct_map)
      moreover have B: "set ?B \<subseteq> set ?F" by (rule set_take_subset)
      ultimately have rows: "trows (jobs ?db) = filter (\<lambda>j. j \<notin> set ?B) (trows (jobs db))" and dist: "distinct ?F"
        by (auto intro!: filter_cong dest: inj_onD)
      have "filter (stale_completed db) (trows (jobs ?db)) = filter (\<lambda>j. j \<notin> set ?B) ?F"
        unfolding rows by (simp add: conj_commute)
      also have "\<dots> = drop 100 ?F" using filter_not_take [OF dist] .
      finally have "count_where (stale_completed db) (jobs ?db) = length ?F - 100" by (simp add: count_where_def)
      moreover have "filter (\<lambda>j. \<not> stale_completed db j) (trows (jobs ?db)) = filter (\<lambda>j. \<not> stale_completed db j) (trows (jobs db))"
        unfolding rows using B by (auto intro!: filter_cong)
      ultimately show ?thesis unfolding cleanup_loop.simps [of n db] b
        using False ih st by (simp add: count_where_def delete_where_def)
    qed
  qed
  then show ?thesis by (simp add: cleanup_completed_jobs_def)
qed

text \<open>
  Cleaning up in batches of a hundred is the same as deleting once: the loop ends, removes
  exactly the jobs completed more than an hour ago, returns how many they were and changes nothing else.
\<close>

lemma cleanup_completed_jobs_exact:
  assumes "wf_table jb_id (jobs db)"
  shows "cleanup_completed_jobs db =
    (count_where (stale_completed db) (jobs db), db\<lparr>jobs := delete_where (stale_completed db) (jobs db)\<rparr>)"
  by (rule cleanup_completed_jobs_rows [OF assms])

definition aged_jobs :: jobs_db where
  "aged_jobs = (complete_job 1 9 (snd (claim_next_job demo_jobs)))\<lparr>now := 4000\<rparr>"

lemma cleanup_completed_jobs_exact_witness:
  "fst (cleanup_completed_jobs aged_jobs) = 1
   \<and> map jb_id (trows (jobs (snd (cleanup_completed_jobs aged_jobs)))) = [2]"
proof -
  have "jobs aged_jobs = jobs (complete_job 1 9 (upd_job (\<lambda>x. jb_id x = 1)
      (\<lambda>x. x\<lparr>jb_status := Running, jb_claimed_at := Some (now demo_jobs), jb_attempts := jb_attempts x + 1\<rparr>) demo_jobs))"
    by code_simp
  then have "wf_table jb_id (jobs aged_jobs)"
    using demo_jobs_wf by (simp add: complete_job_def upd_job_def wf_update_where)
  from cleanup_completed_jobs_exact [OF this]
  have e: "cleanup_completed_jobs aged_jobs = (count_where (stale_completed aged_jobs) (jobs aged_jobs),
      aged_jobs\<lparr>jobs := delete_where (stale_completed aged_jobs) (jobs aged_jobs)\<rparr>)" .
  have "count_where (stale_completed aged_jobs) (jobs aged_jobs) = 1"
    "map jb_id (trows (delete_where (stale_completed aged_jobs) (jobs aged_jobs))) = [2]" by code_simp+
  with e show ?thesis by simp
qed

end
