(* ===== verification/Job_Leases.thy ===== *)
theory Job_Leases
  imports Jobs
begin

text \<open>
  Several workers on one job queue. A claim gives a worker a lease on a job, named by the time stamp of the
  claim, which has a resolution of one second; the finalisers compare it with the row. Workers may die,
  and \<^verbatim>\<open>recover_stuck_jobs\<close> takes the job of a worker that is only slow. The ghost state numbers the claims
  and remembers which one of each job came last, so that a stale lease is one that is not the last.
\<close>

section \<open>The machine\<close>

record lease_use =
  lu_db :: jobs_db
  lu_leases :: "(nat \<times> int \<times> int) set"
  lu_last :: "int \<Rightarrow> nat option"
  lu_serial :: nat

text \<open>SQLite's difference of two Julian days, in seconds, is off by at most one.\<close>

definition elapsed_ok :: "(int \<Rightarrow> int \<Rightarrow> int) \<Rightarrow> bool" where
  "elapsed_ok elapsed \<longleftrightarrow> (\<forall>t c. t - c - 1 \<le> elapsed t c \<and> elapsed t c \<le> t - c + 1)"

inductive lease_step :: "lease_use \<Rightarrow> lease_use \<Rightarrow> bool" where
  enqueue: "lease_step u (u\<lparr>lu_db := snd (enqueue_job ty payload attempts (lu_db u))\<rparr>)"
| claim: "claim_next_job (lu_db u) = (Some j, db) \<Longrightarrow> jb_claimed_at j = Some c \<Longrightarrow>
    lease_step u (u\<lparr>lu_db := db, lu_leases := insert (lu_serial u, jb_id j, c) (lu_leases u),
      lu_last := (lu_last u)(jb_id j \<mapsto> lu_serial u), lu_serial := lu_serial u + 1\<rparr>)"
| complete: "(k, i, c) \<in> lu_leases u \<Longrightarrow>
    lease_step u (u\<lparr>lu_db := complete_job i c (lu_db u), lu_leases := lu_leases u - {(k, i, c)}\<rparr>)"
| fail: "(k, i, c) \<in> lu_leases u \<Longrightarrow>
    lease_step u (u\<lparr>lu_db := fail_job i c msg (lu_db u), lu_leases := lu_leases u - {(k, i, c)}\<rparr>)"
| retry: "(k, i, c) \<in> lu_leases u \<Longrightarrow>
    lease_step u (u\<lparr>lu_db := retry_job i c msg delay (lu_db u), lu_leases := lu_leases u - {(k, i, c)}\<rparr>)"
| die: "lease_step u (u\<lparr>lu_leases := lu_leases u - {l}\<rparr>)"
| recover: "elapsed_ok elapsed \<Longrightarrow> lease_step u (u\<lparr>lu_db := snd (recover_stuck_jobs elapsed dep (lu_db u))\<rparr>)"
| manual: "lease_step u (u\<lparr>lu_db := snd (retry_failed_job i (lu_db u))\<rparr>)"
| cleanup: "lease_step u (u\<lparr>lu_db := snd (cleanup_completed_jobs (lu_db u))\<rparr>)"
| cleanup_days: "lease_step u (u\<lparr>lu_db := snd (cleanup_jobs days (lu_db u))\<rparr>)"
| purge: "lease_step u (u\<lparr>lu_db := snd (purge_failed_jobs days (lu_db u))\<rparr>)"
| time: "now (lu_db u) \<le> t \<Longrightarrow> lease_step u (u\<lparr>lu_db := (lu_db u)\<lparr>now := t\<rparr>\<rparr>)"

definition no_jobs :: "int \<Rightarrow> lease_use" where
  "no_jobs t = \<lparr>lu_db = \<lparr>now = t, jobs = empty_table\<rparr>, lu_leases = {}, lu_last = (\<lambda>_. None), lu_serial = 0\<rparr>"

section \<open>The invariant\<close>

text \<open>How a row and the leases on its job agree at time \<open>t\<close>.\<close>

definition row_ok :: "int \<Rightarrow> (nat \<times> int \<times> int) set \<Rightarrow> (int \<Rightarrow> nat option) \<Rightarrow> job \<Rightarrow> bool" where
  "row_ok t L latest j \<longleftrightarrow>
     (if jb_status j = Running
      then \<exists>c. jb_claimed_at j = Some c \<and> c \<le> t
        \<and> (\<forall>k c'. (k, jb_id j, c') \<in> L \<longrightarrow> c' < c \<or> c' = c \<and> latest (jb_id j) = Some k)
      else \<forall>k c'. (k, jb_id j, c') \<in> L \<longrightarrow> c' < t)"

definition leases_ok :: "int \<Rightarrow> int \<Rightarrow> nat \<Rightarrow> (nat \<times> int \<times> int) set \<Rightarrow> bool" where
  "leases_ok t seq serial L \<longleftrightarrow>
     (\<forall>k i c. (k, i, c) \<in> L \<longrightarrow> c \<le> t \<and> i \<le> seq \<and> k < serial)
     \<and> (\<forall>k i c i' c'. (k, i, c) \<in> L \<longrightarrow> (k, i', c') \<in> L \<longrightarrow> i = i' \<and> c = c')"

lemma leases_ok_mono:
  "leases_ok t seq serial L \<Longrightarrow> t \<le> t' \<Longrightarrow> seq \<le> seq' \<Longrightarrow> L' \<subseteq> L \<Longrightarrow> leases_ok t' seq' serial L'"
  unfolding leases_ok_def by (meson order_trans subsetD)

lemma leases_ok_insert:
  "leases_ok t seq serial L \<Longrightarrow> i \<le> seq \<Longrightarrow> leases_ok t seq (serial + 1) (insert (serial, i, t) L)"
  by (auto simp: leases_ok_def less_Suc_eq)

definition lease_inv :: "lease_use \<Rightarrow> bool" where
  "lease_inv u \<longleftrightarrow> wf_table jb_id (jobs (lu_db u))
     \<and> leases_ok (now (lu_db u)) (tseq (jobs (lu_db u))) (lu_serial u) (lu_leases u)
     \<and> (\<forall>j\<in>all_jobs (lu_db u). row_ok (now (lu_db u)) (lu_leases u) (lu_last u) j)"

text \<open>Steps that keep the claims and change rows one by one, or delete them.\<close>

lemma lease_inv_rows:
  assumes inv: "lease_inv u" and wf: "wf_table jb_id (jobs db)"
    and same: "now (lu_db u) \<le> now db" "tseq (jobs (lu_db u)) \<le> tseq (jobs db)"
    and sub: "L \<subseteq> lu_leases u"
    and rows: "\<And>j. j \<in> all_jobs db \<Longrightarrow> row_ok (now db) L (lu_last u) j"
  shows "lease_inv (u\<lparr>lu_db := db, lu_leases := L\<rparr>)"
proof -
  have "leases_ok (now db) (tseq (jobs db)) (lu_serial u) L"
    using inv leases_ok_mono [OF _ same sub] by (simp add: lease_inv_def)
  with wf rows show ?thesis by (simp add: lease_inv_def)
qed

lemma row_ok_mono: "row_ok t L latest j \<Longrightarrow> t \<le> t' \<Longrightarrow> L' \<subseteq> L \<Longrightarrow> row_ok t' L' latest j"
  by (fastforce simp: row_ok_def split: if_splits)

lemma lease_inv_delete:
  assumes inv: "lease_inv u" and rows: "jobs db = delete_where P (jobs (lu_db u))" "now db = now (lu_db u)"
  shows "lease_inv (u\<lparr>lu_db := db\<rparr>)"
proof -
  have "lease_inv (u\<lparr>lu_db := db, lu_leases := lu_leases u\<rparr>)"
    by (rule lease_inv_rows [OF inv]) (use inv rows in \<open>auto simp: lease_inv_def table_simps wf_delete_where\<close>)
  then show ?thesis by simp
qed

text \<open>A finaliser settles the row its lease holds, if it still holds one.\<close>

lemma lease_inv_finish:
  assumes inv: "lease_inv u" and l: "(k, i, c) \<in> lu_leases u"
    and f: "\<And>j. jb_id (f j) = jb_id j \<and> jb_status (f j) \<noteq> Running"
  shows "lease_inv (u\<lparr>lu_db := upd_job (held i c) f (lu_db u), lu_leases := lu_leases u - {(k, i, c)}\<rparr>)"
proof (rule lease_inv_rows [OF inv])
  have wf: "wf_table jb_id (jobs (lu_db u))" using inv by (simp add: lease_inv_def)
  then show "wf_table jb_id (jobs (upd_job (held i c) f (lu_db u)))"
    using f by (simp add: upd_job_def wf_update_where)
  fix j assume "j \<in> all_jobs (upd_job (held i c) f (lu_db u))"
  then obtain x where x: "x \<in> all_jobs (lu_db u)" "j = (if held i c x then f x else x)"
    by (auto simp: table_simps)
  have rx: "row_ok (now (lu_db u)) (lu_leases u) (lu_last u) x" using inv x(1) by (simp add: lease_inv_def)
  show "row_ok (now (upd_job (held i c) f (lu_db u))) (lu_leases u - {(k, i, c)}) (lu_last u) j"
  proof (cases "held i c x")
    case True
    then have h: "jb_status x = Running" "jb_claimed_at x = Some c" "jb_id x = i" by (auto simp: held_def)
    with rx l have lst: "lu_last u i = Some k" "c \<le> now (lu_db u)" by (auto simp: row_ok_def)
    have "c' < now (lu_db u)" if "(k', i, c') \<in> lu_leases u - {(k, i, c)}" for k' c'
    proof -
      have "c' < c \<or> c' = c \<and> lu_last u i = Some k'" using rx h that by (auto simp: row_ok_def)
      with that lst show ?thesis by auto
    qed
    with True x(2) f h show ?thesis by (auto simp: row_ok_def table_simps)
  next
    case False
    with x(2) rx show ?thesis by (auto simp: table_simps intro: row_ok_mono)
  qed
qed (auto simp: table_simps)

section \<open>Every step keeps the invariant\<close>

text \<open>A row that stops running, or was not, is in order when every lease on its job is from before now.\<close>

lemma row_ok_idle: "jb_status j \<noteq> Running \<Longrightarrow> row_ok t L latest j \<longleftrightarrow> (\<forall>k c. (k, jb_id j, c) \<in> L \<longrightarrow> c < t)"
  by (simp add: row_ok_def)

lemma lease_inv_upd:
  assumes inv: "lease_inv u" and f: "\<And>j. jb_id (f j) = jb_id j"
    and ok: "\<And>j. j \<in> all_jobs (lu_db u) \<Longrightarrow> P j \<Longrightarrow> row_ok (now (lu_db u)) (lu_leases u) (lu_last u) j \<Longrightarrow>
        row_ok (now (lu_db u)) (lu_leases u) (lu_last u) (f j)"
  shows "lease_inv (u\<lparr>lu_db := upd_job P f (lu_db u)\<rparr>)"
proof -
  have wf: "wf_table jb_id (jobs (lu_db u))" using inv by (simp add: lease_inv_def)
  have "lease_inv (u\<lparr>lu_db := upd_job P f (lu_db u), lu_leases := lu_leases u\<rparr>)"
  proof (rule lease_inv_rows [OF inv])
    show "wf_table jb_id (jobs (upd_job P f (lu_db u)))" using wf f by (simp add: upd_job_def wf_update_where)
    fix j assume "j \<in> all_jobs (upd_job P f (lu_db u))"
    then obtain x where "x \<in> all_jobs (lu_db u)" "j = (if P x then f x else x)" by (auto simp: table_simps)
    then show "row_ok (now (upd_job P f (lu_db u))) (lu_leases u) (lu_last u) j"
      using inv ok by (auto simp: lease_inv_def table_simps)
  qed (simp_all add: table_simps)
  then show ?thesis by simp
qed

lemma lease_inv_manual: "lease_inv u \<Longrightarrow> lease_inv (u\<lparr>lu_db := snd (retry_failed_job i (lu_db u))\<rparr>)"
  by (simp add: retry_failed_job_def Let_def) (rule lease_inv_upd, auto simp: row_ok_def)

lemma lease_inv_enqueue: "lease_inv u \<Longrightarrow> lease_inv (u\<lparr>lu_db := snd (enqueue_job ty payload attempts (lu_db u))\<rparr>)"
proof -
  assume inv: "lease_inv u"
  let ?db = "snd (enqueue_job ty payload attempts (lu_db u))"
  have e: "trows (jobs ?db) = trows (jobs (lu_db u)) @ [\<lparr>jb_id = tseq (jobs (lu_db u)) + 1, jb_type = ty, jb_payload = payload,
      jb_status = Pending, jb_attempts = 0, jb_max_attempts = attempts, jb_error = None, jb_created_at = now (lu_db u),
      jb_claimed_at = None, jb_completed_at = None, jb_next_retry_at = None\<rparr>]"
    "tseq (jobs ?db) = tseq (jobs (lu_db u)) + 1" "now ?db = now (lu_db u)"
    by (simp_all add: enqueue_job_def insert_row_def)
  have wf: "wf_table jb_id (jobs ?db)"
    using inv by (auto simp: lease_inv_def enqueue_job_def split_beta intro!: wf_insert_row)
  have fresh: "i \<le> tseq (jobs (lu_db u))" if "(k, i, c) \<in> lu_leases u" for k i c
    using inv that by (auto simp: lease_inv_def leases_ok_def)
  have "lease_inv (u\<lparr>lu_db := ?db, lu_leases := lu_leases u\<rparr>)"
    by (rule lease_inv_rows [OF inv wf]) (use inv fresh in \<open>fastforce simp: e lease_inv_def row_ok_def\<close>)+
  then show ?thesis by simp
qed

text \<open>Claiming gives out the only lease of this second.\<close>

lemma lease_inv_claim:
  assumes inv: "lease_inv u" and claim: "claim_next_job (lu_db u) = (Some r, db)" "jb_claimed_at r = Some c"
  shows "lease_inv (u\<lparr>lu_db := db, lu_leases := insert (lu_serial u, jb_id r, c) (lu_leases u),
      lu_last := (lu_last u)(jb_id r \<mapsto> lu_serial u), lu_serial := lu_serial u + 1\<rparr>)"
proof (cases "lu_db u" rule: claim_next_job_cases)
  case none
  with claim show ?thesis by simp
next
  case (claimed j)
  let ?f = "\<lambda>x. x\<lparr>jb_status := Running, jb_claimed_at := Some (now (lu_db u)), jb_attempts := jb_attempts x + 1\<rparr>"
  let ?P = "\<lambda>x. jb_id x = jb_id j"
  have e: "db = upd_job ?P ?f (lu_db u)" "c = now (lu_db u)" "jb_id r = jb_id j" using claim claimed(4) by auto
  have wf: "wf_table jb_id (jobs (lu_db u))" and L: "leases_ok (now (lu_db u)) (tseq (jobs (lu_db u))) (lu_serial u) (lu_leases u)"
    and rows: "\<And>x. x \<in> all_jobs (lu_db u) \<Longrightarrow> row_ok (now (lu_db u)) (lu_leases u) (lu_last u) x"
    using inv by (auto simp: lease_inv_def)
  have "leases_ok (now (lu_db u)) (tseq (jobs (lu_db u))) (lu_serial u + 1) (insert (lu_serial u, jb_id j, now (lu_db u)) (lu_leases u))"
    by (rule leases_ok_insert [OF L]) (use wf claimed(1) in \<open>simp add: wf_table_def\<close>)
  moreover have "wf_table jb_id (jobs db)" using wf by (simp add: e upd_job_def wf_update_where)
  moreover have okx: "row_ok (now (lu_db u)) (insert (lu_serial u, jb_id j, now (lu_db u)) (lu_leases u))
      ((lu_last u)(jb_id j \<mapsto> lu_serial u)) (if ?P x then ?f x else x)" if x: "x \<in> all_jobs (lu_db u)" for x
  proof (cases "jb_id x = jb_id j")
    case True
    have "x = j" using wf_table_unique [OF wf x claimed(1) True] .
    moreover have "jb_status j \<noteq> Running" using claimed(2) by (simp add: eligible_def)
    ultimately show ?thesis using rows [OF x] by (auto simp: row_ok_def)
  next
    case False
    then show ?thesis using rows [OF x] by (auto simp: row_ok_def)
  qed
  moreover have "row_ok (now (lu_db u)) (insert (lu_serial u, jb_id j, now (lu_db u)) (lu_leases u))
      ((lu_last u)(jb_id j \<mapsto> lu_serial u)) y" if "y \<in> all_jobs db" for y
  proof -
    from that obtain x where "x \<in> all_jobs (lu_db u)" "y = (if ?P x then ?f x else x)" by (auto simp: e table_simps)
    with okx show ?thesis by simp
  qed
  ultimately show ?thesis using e by (simp add: lease_inv_def upd_job_simps(2,3))
qed

text \<open>Recovery requeues exactly the running jobs with an abandoned claim, each of them once.\<close>

definition requeue :: "(int \<Rightarrow> bool) \<Rightarrow> job \<Rightarrow> job" where
  "requeue I j = (if I (jb_id j) \<and> jb_status j = Running then j\<lparr>jb_status := Pending, jb_claimed_at := None\<rparr> else j)"

lemma requeue_simps [simp]: "jb_id (requeue I j) = jb_id j" "requeue (\<lambda>_. False) = (\<lambda>j. j)"
  by (auto simp: requeue_def)

lemma requeue_twice: "requeue I (requeue (\<lambda>x. x = i) j) = requeue (\<lambda>x. x = i \<or> I x) j"
  by (auto simp: requeue_def)

lemma recover_fold_rows:
  "snd (fold (\<lambda>(i, cl). if A cl then recover_row i else id) xs (n, db))
   = db\<lparr>jobs := (jobs db)\<lparr>trows := map (requeue (\<lambda>i. \<exists>cl. (i, cl) \<in> set xs \<and> A cl)) (trows (jobs db))\<rparr>\<rparr>"
proof (induction xs arbitrary: n db)
  case (Cons x xs)
  obtain i cl where x: "x = (i, cl)" by fastforce
  show ?case
  proof (cases "A cl")
    case True
    have "upd_job (\<lambda>j. jb_id j = i \<and> jb_status j = Running) (\<lambda>j. j\<lparr>jb_status := Pending, jb_claimed_at := None\<rparr>) db
        = db\<lparr>jobs := (jobs db)\<lparr>trows := map (requeue (\<lambda>x. x = i)) (trows (jobs db))\<rparr>\<rparr>"
      by (simp add: upd_job_def update_where_def requeue_def cong: map_cong)
    moreover have "(\<lambda>k. k = i \<or> (\<exists>cl. (k, cl) \<in> set xs \<and> A cl)) = (\<lambda>k. \<exists>c. ((k, c) = (i, cl) \<or> (k, c) \<in> set xs) \<and> A c)"
      using True by (auto simp: fun_eq_iff)
    ultimately show ?thesis using True by (simp add: x recover_row_def Cons.IH requeue_twice comp_def)
  next
    case False
    then have "(\<lambda>k. \<exists>c. (k, c) \<in> set xs \<and> A c) = (\<lambda>k. \<exists>c. ((k, c) = (i, cl) \<or> (k, c) \<in> set xs) \<and> A c)"
      by (auto simp: fun_eq_iff)
    with False show ?thesis by (simp add: x Cons.IH)
  qed
qed simp

lemma recover_stuck_jobs_rows:
  "snd (recover_stuck_jobs elapsed dep db) = db\<lparr>jobs := (jobs db)\<lparr>trows :=
     map (requeue (\<lambda>i. \<exists>cl. (i, cl) \<in> set (running_claims db) \<and> abandoned elapsed dep (now db) cl)) (trows (jobs db))\<rparr>\<rparr>"
  unfolding recover_stuck_jobs_def by (rule recover_fold_rows)

lemma lease_inv_recover:
  assumes inv: "lease_inv u" and el: "elapsed_ok elapsed"
  shows "lease_inv (u\<lparr>lu_db := snd (recover_stuck_jobs elapsed dep (lu_db u))\<rparr>)"
proof -
  let ?I = "\<lambda>i. \<exists>cl. (i, cl) \<in> set (running_claims (lu_db u)) \<and> abandoned elapsed dep (now (lu_db u)) cl"
  have wf: "wf_table jb_id (jobs (lu_db u))" using inv by (simp add: lease_inv_def)
  have eq: "snd (recover_stuck_jobs elapsed dep (lu_db u)) = upd_job (\<lambda>j. ?I (jb_id j) \<and> jb_status j = Running)
      (\<lambda>j. j\<lparr>jb_status := Pending, jb_claimed_at := None\<rparr>) (lu_db u)"
    unfolding recover_stuck_jobs_rows upd_job_def update_where_def requeue_def by simp
  show ?thesis unfolding eq
  proof (rule lease_inv_upd [OF inv])
    fix j assume j: "j \<in> all_jobs (lu_db u)" "?I (jb_id j) \<and> jb_status j = Running"
      and ok: "row_ok (now (lu_db u)) (lu_leases u) (lu_last u) j"
    then obtain x where x: "x \<in> all_jobs (lu_db u)" "jb_id x = jb_id j"
        "abandoned elapsed dep (now (lu_db u)) (jb_type x, the (jb_claimed_at x))"
      by (auto simp: running_claims_def select_where_def)
    have "x = j" using wf_table_unique [OF wf x(1) j(1) x(2)] .
    with x(3) have "60 < elapsed (now (lu_db u)) (the (jb_claimed_at j))" by (simp add: abandoned_def GRACE_SECS_def)
    moreover have "elapsed (now (lu_db u)) (the (jb_claimed_at j)) \<le> now (lu_db u) - the (jb_claimed_at j) + 1"
      using el by (simp add: elapsed_ok_def)
    ultimately have "the (jb_claimed_at j) < now (lu_db u)" by simp
    then show "row_ok (now (lu_db u)) (lu_leases u) (lu_last u) (j\<lparr>jb_status := Pending, jb_claimed_at := None\<rparr>)"
      using ok j(2) by (fastforce simp: row_ok_def)
  qed simp
qed

lemma lease_inv_time: "lease_inv u \<Longrightarrow> now (lu_db u) \<le> t \<Longrightarrow> lease_inv (u\<lparr>lu_db := (lu_db u)\<lparr>now := t\<rparr>\<rparr>)"
  by (auto simp: lease_inv_def intro: leases_ok_mono row_ok_mono)

lemma lease_inv_die: "lease_inv u \<Longrightarrow> lease_inv (u\<lparr>lu_leases := lu_leases u - {l}\<rparr>)"
  by (auto simp: lease_inv_def intro: leases_ok_mono row_ok_mono)

lemmas lease_inv_steps =
  lease_inv_enqueue lease_inv_recover lease_inv_manual lease_inv_time lease_inv_die

interpretation leases: state_machine lease_step lease_inv
proof (unfold_locales, goal_cases)
  case (1 u u')
  from 1(2,1) show ?case
  proof cases
    case cleanup
    have "wf_table jb_id (jobs (lu_db u))" using 1(1) by (simp add: lease_inv_def)
    from cleanup_completed_jobs_rows [OF this] show ?thesis
      unfolding cleanup by (intro lease_inv_delete [OF 1(1)]) simp_all
  next
    case (claim j db c)
    show ?thesis unfolding claim(1) by (rule lease_inv_claim [OF 1(1) claim(2,3)])
  qed (use 1(1) in \<open>auto simp: complete_job_def fail_job_def retry_job_def cleanup_jobs_def purge_failed_jobs_def
      purge_where_def Let_def intro: lease_inv_steps lease_inv_finish lease_inv_delete\<close>)
qed

section \<open>Property\<close>

text \<open>
  Property C18. A stale worker cannot finalise a job. In every history of claims, results, crashes,
  recoveries, manual retries and clean-ups, a worker whose lease is not the last one given out for its job
  (recovery took the job from it and somebody claimed it again) changes nothing, whichever finaliser it
  calls: the claim times of two leases on one job always differ, although they are whole seconds, because
  recovery waits out a grace period.
\<close>

theorem stale_worker_cannot_finalize:
  assumes history: "lease_step\<^sup>*\<^sup>* (no_jobs t) u" and lease: "(k, i, c) \<in> lu_leases u"
    and stale: "lu_last u i \<noteq> Some k"
  shows "complete_job i c (lu_db u) = lu_db u \<and> fail_job i c msg (lu_db u) = lu_db u
    \<and> retry_job i c msg delay (lu_db u) = lu_db u"
proof -
  have "lease_inv (no_jobs t)" by (simp add: lease_inv_def no_jobs_def leases_ok_def empty_table_def wf_table_def)
  then have "lease_inv u" using leases.steps_keep [OF history] by blast
  then have "\<not> held i c j" if "j \<in> all_jobs (lu_db u)" for j
    using that lease stale by (fastforce simp: lease_inv_def row_ok_def held_def)
  then have "upd_job (held i c) f (lu_db u) = lu_db u" for f
    by (simp add: upd_job_def update_where_def cong: map_cong)
  then show ?thesis by (simp add: complete_job_def fail_job_def retry_job_def)
qed

text \<open>Job 1 is claimed at time 0, recovered at time 300 and claimed again.\<close>

definition mail_row :: "job_status \<Rightarrow> int \<Rightarrow> int option \<Rightarrow> job" where
  "mail_row st n c = \<lparr>jb_id = 1, jb_type = ''mail'', jb_payload = ''{}'', jb_status = st, jb_attempts = n,
     jb_max_attempts = 3, jb_error = None, jb_created_at = 0, jb_claimed_at = c, jb_completed_at = None,
     jb_next_retry_at = None\<rparr>"

definition mail_state :: "int \<Rightarrow> job \<Rightarrow> (nat \<times> int \<times> int) set \<Rightarrow> nat option \<Rightarrow> nat \<Rightarrow> lease_use" where
  "mail_state t j L k n = \<lparr>lu_db = \<lparr>now = t, jobs = \<lparr>trows = [j], tseq = 1\<rparr>\<rparr>, lu_leases = L,
     lu_last = (\<lambda>_. None)(1 := k), lu_serial = n\<rparr>"

lemmas mail_defs = mail_state_def mail_row_def

lemma stale_history:
  "lease_step\<^sup>*\<^sup>* (no_jobs 0) (mail_state 300 (mail_row Running 2 (Some 300)) {(0, 1, 0), (1, 1, 300)} (Some 1) 2)"
proof -
  have "lease_step\<^sup>*\<^sup>* (no_jobs 0) (no_jobs 0)" by simp
  also have "lease_step \<dots> (mail_state 0 (mail_row Pending 0 None) {} None 0)"
    using lease_step.enqueue [of "no_jobs 0" "''mail''" "''{}''" 3]
    by (simp add: mail_defs no_jobs_def enqueue_job_def insert_row_def empty_table_def)
  also (rtranclp.rtrancl_into_rtrancl) have "lease_step \<dots> (mail_state 0 (mail_row Running 1 (Some 0)) {(0, 1, 0)} (Some 0) 1)"
    using lease_step.claim [of "mail_state 0 (mail_row Pending 0 None) {} None 0"
        "mail_row Running 1 (Some 0)" "lu_db (mail_state 0 (mail_row Running 1 (Some 0)) {} None 0)" 0]
    by (simp add: mail_defs claim_next_job_def select_where_def eligible_def upd_job_def update_where_def)
  also (rtranclp.rtrancl_into_rtrancl) have "lease_step \<dots> (mail_state 300 (mail_row Running 1 (Some 0)) {(0, 1, 0)} (Some 0) 1)"
    using lease_step.time [of "mail_state 0 (mail_row Running 1 (Some 0)) {(0, 1, 0)} (Some 0) 1" 300]
    by (simp add: mail_defs)
  also (rtranclp.rtrancl_into_rtrancl) have "lease_step \<dots> (mail_state 300 (mail_row Pending 1 None) {(0, 1, 0)} (Some 0) 1)"
    using lease_step.recover [of "\<lambda>t c. t - c" "mail_state 300 (mail_row Running 1 (Some 0)) {(0, 1, 0)} (Some 0) 1" None]
    by (simp add: mail_defs elapsed_ok_def recover_stuck_jobs_rows running_claims_def select_where_def requeue_def
        abandoned_def GRACE_SECS_def job_timeout_for_def)
  also (rtranclp.rtrancl_into_rtrancl) have "lease_step \<dots> (mail_state 300 (mail_row Running 2 (Some 300)) {(0, 1, 0), (1, 1, 300)} (Some 1) 2)"
    using lease_step.claim [of "mail_state 300 (mail_row Pending 1 None) {(0, 1, 0)} (Some 0) 1"
        "mail_row Running 2 (Some 300)" "lu_db (mail_state 300 (mail_row Running 2 (Some 300)) {} None 0)" 300]
    by (simp add: mail_defs claim_next_job_def select_where_def eligible_def upd_job_def update_where_def insert_commute numeral_2_eq_2)
  finally (rtranclp.rtrancl_into_rtrancl) show ?thesis .
qed

theorem stale_worker_cannot_finalize_witness:
  "complete_job 1 0 (lu_db (mail_state 300 (mail_row Running 2 (Some 300)) {(0, 1, 0), (1, 1, 300)} (Some 1) 2))
   = lu_db (mail_state 300 (mail_row Running 2 (Some 300)) {(0, 1, 0), (1, 1, 300)} (Some 1) 2)"
  using stale_worker_cannot_finalize [OF stale_history, of 0 1 0] by (simp add: mail_state_def)

end
