(* ===== verification/Chiasm.thy ===== *)
theory Chiasm
  imports Axon "HOL-Library.Product_Lexorder"
begin

text \<open>
  Chiasm, the coordination of tasks among agents (\<^verbatim>\<open>kleos-lib/src/services/chiasm\<close>): tasks with their history,
  dependencies between tasks, claims on file paths, heartbeats, a work queue, bearer keys, and the request
  handlers of \<^verbatim>\<open>kleos-server/src/routes/tasks/mod.rs\<close> that change them. The state extends that of the event
  bus, because every change is announced there.

  SQLite enforces foreign keys here: deleting a task deletes its history, edges and claims, and a row for a
  task that does not exist is refused. Parameters are the comparison of Julian days, which SQLite makes in
  floating point, the hash of a key, the random bytes of a new key, environment variables, prompt files and
  the answer of the language model.
\<close>

section \<open>Data\<close>

record task =
  tk_id :: int
  tk_agent :: string
  tk_project :: string
  tk_title :: string
  tk_status :: string
  tk_summary :: "string option"
  tk_expected_output :: "string option"
  tk_output_format :: "string option"
  tk_output :: "string option"
  tk_condition :: "string option"
  tk_guardrail_url :: "string option"
  tk_guardrail_retries :: int
  tk_plan :: "string option"
  tk_feedback :: "string option"
  tk_last_heartbeat :: "int option"
  tk_heartbeat_interval :: int
  tk_assigned :: bool
  tk_created_at :: int
  tk_updated_at :: int
  tk_user_id :: int

record task_update =
  tu_id :: int
  tu_task_id :: int
  tu_agent :: string
  tu_status :: string
  tu_summary :: "string option"
  tu_created_at :: int

record create_task_request =
  ct_agent :: string
  ct_project :: string
  ct_title :: string
  ct_status :: "string option"
  ct_summary :: "string option"
  ct_user_id :: "int option"
  ct_expected_output :: "string option"
  ct_output_format :: "string option"
  ct_condition :: "string option"
  ct_guardrail_url :: "string option"
  ct_heartbeat_interval :: "int option"

record update_task_request =
  ut_title :: "string option"
  ut_status :: "string option"
  ut_summary :: "string option"
  ut_agent :: "string option"

record chiasm_stats =
  xs_total :: nat
  xs_by_status :: "(string \<times> nat) list"

record feed_item =
  fi_id :: int
  fi_agent :: string
  fi_project :: string
  fi_title :: string
  fi_status :: string
  fi_summary :: "string option"
  fi_updated_at :: int
  fi_created_at :: int

record dep_row =
  dp_id :: int
  dp_task_id :: int
  dp_depends_on :: int
  dp_created_at :: int

record dependency =
  dy_row :: dep_row
  dy_title :: "string option"
  dy_status :: "string option"

record path_claim =
  pc_id :: int
  pc_task_id :: int
  pc_agent :: string
  pc_project :: string
  pc_path :: string
  pc_claimed_at :: int
  pc_expires_at :: int
  pc_released :: bool

record path_conflict =
  pf_path :: string
  pf_agent :: string
  pf_task :: int
  pf_expires_at :: int

record agent_key_row =
  ak_id :: int
  ak_agent :: string
  ak_key_hash :: string
  ak_key_prefix :: string
  ak_created_at :: int
  ak_last_used_at :: "int option"
  ak_revoked :: bool

record created_key =
  ck_id :: int
  ck_agent :: string
  ck_key :: string
  ck_prefix :: string
  ck_created_at :: int
  ck_warning :: string

record chiasm_db = axon_db +
  chiasm_tasks :: "task table"
  chiasm_task_updates :: "task_update table"
  chiasm_task_dependencies :: "dep_row table"
  chiasm_path_claims :: "path_claim table"
  chiasm_agent_keys :: "agent_key_row table"

section \<open>mod.rs\<close>

definition emit_chiasm_event :: "string \<Rightarrow> json \<Rightarrow> chiasm_db \<Rightarrow> chiasm_db" where
  "emit_chiasm_event action payload db =
     snd (publish_and_fanout \<lparr>pr_channel = ''tasks'', pr_action = action, pr_payload = Some payload,
       pr_source = Some ''chiasm'', pr_agent = None, pr_user_id = Some 1\<rparr> db)"

abbreviation JInt :: "int \<Rightarrow> json" where
  "JInt i \<equiv> JNum (show_int i)"

section \<open>tasks.rs\<close>

definition VALID_STATUSES :: "string list" where
  "VALID_STATUSES =
     [''active'', ''paused'', ''blocked'', ''completed'', ''blocked_on_human'', ''stale'', ''queued'']"

definition validate_status :: "string \<Rightarrow> unit result" where
  "validate_status status =
     (if status \<in> set VALID_STATUSES then Ok ()
      else Err (InvalidInput (''invalid chiasm status '' @ quoted status @ '', must be one of: ''
        @ join '', '' VALID_STATUSES)))"

definition row_to_task :: "task \<Rightarrow> int \<Rightarrow> task" where
  "row_to_task row owner = row\<lparr>tk_user_id := owner\<rparr>"

definition get_task :: "chiasm_db \<Rightarrow> int \<Rightarrow> int \<Rightarrow> task result" where
  "get_task db i user =
     (case find_where (\<lambda>t. tk_id t = i \<and> tk_user_id t = user) (chiasm_tasks db) of
        None \<Rightarrow> Err (NotFound (''task '' @ show_int i))
      | Some row \<Rightarrow> Ok (row_to_task row user))"

definition create_task :: "create_task_request \<Rightarrow> chiasm_db \<Rightarrow> task result \<times> chiasm_db" where
  "create_task req db =
     (let status = (case ct_status req of Some s \<Rightarrow> s | None \<Rightarrow> ''active'') in
      case validate_status status of
        Inl e \<Rightarrow> (Err e, db)
      | Inr _ \<Rightarrow>
          (case ct_user_id req of
             None \<Rightarrow> (Err (InvalidInput ''user_id required''), db)
           | Some user \<Rightarrow>
               (case insert_row (\<lambda>i. \<lparr>tk_id = i, tk_agent = ct_agent req, tk_project = ct_project req,
                   tk_title = ct_title req, tk_status = status, tk_summary = ct_summary req,
                   tk_expected_output = ct_expected_output req,
                   tk_output_format = Some (case ct_output_format req of Some f \<Rightarrow> f | None \<Rightarrow> ''raw''),
                   tk_output = None, tk_condition = ct_condition req, tk_guardrail_url = ct_guardrail_url req,
                   tk_guardrail_retries = 0, tk_plan = None, tk_feedback = None, tk_last_heartbeat = None,
                   tk_heartbeat_interval = (case ct_heartbeat_interval req of Some h \<Rightarrow> h | None \<Rightarrow> 300),
                   tk_assigned = True, tk_created_at = now db, tk_updated_at = now db, tk_user_id = user\<rparr>)
                   (chiasm_tasks db) of
                  (i, ts) \<Rightarrow>
                    (let db1 = db\<lparr>chiasm_tasks := ts\<rparr> in
                     case get_task db1 i user of
                       Inl e \<Rightarrow> (Err e, db1)
                     | Inr t \<Rightarrow> (Ok t, emit_chiasm_event ''task.created''
                         (JObj [(''agent'', JStr (tk_agent t)), (''project'', JStr (tk_project t)),
                            (''task_id'', JInt (tk_id t)), (''title'', JStr (tk_title t))]) db1)))))"

definition list_tasks ::
    "chiasm_db \<Rightarrow> int \<Rightarrow> string option \<Rightarrow> string option \<Rightarrow> string option \<Rightarrow> 64 word \<Rightarrow> 64 word \<Rightarrow> task list" where
  "list_tasks db user status agent project limit offset =
     map (\<lambda>r. row_to_task r user)
       (sql_limit (usize_as_i64 limit) (sql_offset (usize_as_i64 offset)
         (sort_key (\<lambda>t. (- tk_updated_at t, - tk_id t))
           (select_where (\<lambda>t. tk_user_id t = user \<and> matches_opt status (tk_status t)
              \<and> matches_opt agent (tk_agent t) \<and> matches_opt project (tk_project t)) (chiasm_tasks db)))))"

definition add_history :: "int \<Rightarrow> string \<Rightarrow> string \<Rightarrow> string option \<Rightarrow> chiasm_db \<Rightarrow> chiasm_db" where
  "add_history task_id agent status summary db =
     db\<lparr>chiasm_task_updates := snd (insert_row (\<lambda>i. \<lparr>tu_id = i, tu_task_id = task_id, tu_agent = agent,
       tu_status = status, tu_summary = summary, tu_created_at = now db\<rparr>) (chiasm_task_updates db))\<rparr>"

text \<open>An update of the row of one task, if the user owns it.\<close>

definition owned :: "int \<Rightarrow> int \<Rightarrow> task \<Rightarrow> bool" where
  "owned i user t \<longleftrightarrow> tk_id t = i \<and> tk_user_id t = user"

definition upd_task :: "(task \<Rightarrow> bool) \<Rightarrow> (task \<Rightarrow> task) \<Rightarrow> chiasm_db \<Rightarrow> chiasm_db" where
  "upd_task P f db = db\<lparr>chiasm_tasks := update_where P f (chiasm_tasks db)\<rparr>"

text \<open>The columns an update sets: those the request gives, and the time.\<close>

definition apply_update :: "update_task_request \<Rightarrow> int \<Rightarrow> task \<Rightarrow> task" where
  "apply_update req at t = t\<lparr>
     tk_title := (case ut_title req of Some s \<Rightarrow> s | None \<Rightarrow> tk_title t),
     tk_status := (case ut_status req of Some s \<Rightarrow> s | None \<Rightarrow> tk_status t),
     tk_summary := (case ut_summary req of Some s \<Rightarrow> Some s | None \<Rightarrow> tk_summary t),
     tk_agent := (case ut_agent req of Some a \<Rightarrow> a | None \<Rightarrow> tk_agent t),
     tk_updated_at := at\<rparr>"

definition update_task :: "int \<Rightarrow> update_task_request \<Rightarrow> int \<Rightarrow> chiasm_db \<Rightarrow> task result \<times> chiasm_db" where
  "update_task i req user db =
     (case (case ut_status req of None \<Rightarrow> Ok () | Some s \<Rightarrow> validate_status s) of
        Inl e \<Rightarrow> (Err e, db)
      | Inr _ \<Rightarrow>
          (case find_where (owned i user) (chiasm_tasks db) of
             None \<Rightarrow> (Err (NotFound (''task '' @ show_int i)), db)
           | Some cur \<Rightarrow>
               (let new_status = (case ut_status req of Some s \<Rightarrow> s | None \<Rightarrow> tk_status cur);
                    new_summary = (case ut_summary req of Some s \<Rightarrow> Some s | None \<Rightarrow> tk_summary cur);
                    new_agent = (case ut_agent req of Some a \<Rightarrow> a | None \<Rightarrow> tk_agent cur);
                    db1 = upd_task (owned i user) (apply_update req (now db)) db;
                    db2 = add_history i new_agent new_status new_summary db1
                in case get_task db2 i user of
                     Inl e \<Rightarrow> (Err e, db2)
                   | Inr t \<Rightarrow> (Ok t, emit_chiasm_event
                       (if tk_status t = ''completed'' then ''task.completed'' else ''task.updated'')
                       (JObj [(''agent'', JStr (tk_agent t)), (''status'', JStr (tk_status t)),
                          (''task_id'', JInt (tk_id t))]) db2))))"

text \<open>Deleting a task; SQLite deletes what refers to it.\<close>

definition delete_task :: "int \<Rightarrow> int \<Rightarrow> chiasm_db \<Rightarrow> chiasm_db" where
  "delete_task i user db =
     (if count_where (owned i user) (chiasm_tasks db) = 0 then db
      else db\<lparr>chiasm_tasks := delete_where (owned i user) (chiasm_tasks db),
        chiasm_task_updates := delete_where (\<lambda>h. tu_task_id h = i) (chiasm_task_updates db),
        chiasm_task_dependencies := delete_where (\<lambda>d. dp_task_id d = i \<or> dp_depends_on d = i) (chiasm_task_dependencies db),
        chiasm_path_claims := delete_where (\<lambda>c. pc_task_id c = i) (chiasm_path_claims db)\<rparr>)"

definition list_task_history :: "chiasm_db \<Rightarrow> int \<Rightarrow> int \<Rightarrow> 64 word \<Rightarrow> task_update list" where
  "list_task_history db task_id user limit =
     sql_limit (usize_as_i64 limit)
       (rev (select_where (\<lambda>h. tu_task_id h = task_id
          \<and> (\<exists>t\<in>set (trows (chiasm_tasks db)). tk_id t = task_id \<and> tk_user_id t = user)) (chiasm_task_updates db)))"

definition get_stats :: "chiasm_db \<Rightarrow> int \<Rightarrow> chiasm_stats" where
  "get_stats db user =
     (let ts = select_where (\<lambda>t. tk_user_id t = user) (chiasm_tasks db);
          groups = map (\<lambda>s. (s, length (filter (\<lambda>t. tk_status t = s) ts))) (sort (remdups (map tk_status ts)))
      in \<lparr>xs_total = sum_list (map snd groups), xs_by_status = groups\<rparr>)"

definition get_feed :: "chiasm_db \<Rightarrow> int \<Rightarrow> 64 word \<Rightarrow> 64 word \<Rightarrow> feed_item list" where
  "get_feed db user limit offset =
     map (\<lambda>t. \<lparr>fi_id = tk_id t, fi_agent = tk_agent t, fi_project = tk_project t, fi_title = tk_title t,
         fi_status = tk_status t, fi_summary = tk_summary t, fi_updated_at = tk_updated_at t,
         fi_created_at = tk_created_at t\<rparr>)
       (sql_limit (usize_as_i64 limit) (sql_offset (usize_as_i64 offset)
         (sort_key (\<lambda>t. (- tk_updated_at t, - tk_id t)) (select_where (\<lambda>t. tk_user_id t = user) (chiasm_tasks db)))))"

text \<open>The common part of the updates of one field: \<^verbatim>\<open>UPDATE\<close>, the check of the count, and the read back.\<close>

definition set_field ::
    "(task \<Rightarrow> task) \<Rightarrow> int \<Rightarrow> int \<Rightarrow> string \<Rightarrow> json \<Rightarrow> chiasm_db \<Rightarrow> task result \<times> chiasm_db" where
  "set_field f i user action payload db =
     (if count_where (owned i user) (chiasm_tasks db) = 0 then (Err (NotFound (''task '' @ show_int i)), db)
      else let db1 = upd_task (owned i user) f db in
        (case get_task db1 i user of
           Inl e \<Rightarrow> (Err e, db1)
         | Inr t \<Rightarrow> (Ok t, emit_chiasm_event action payload db1)))"

definition submit_output :: "int \<Rightarrow> string \<Rightarrow> int \<Rightarrow> chiasm_db \<Rightarrow> task result \<times> chiasm_db" where
  "submit_output i output user db =
     set_field (\<lambda>t. t\<lparr>tk_output := Some output, tk_updated_at := now db\<rparr>) i user ''task.output''
       (JObj [(''task_id'', JInt i)]) db"

definition submit_feedback :: "int \<Rightarrow> string \<Rightarrow> int \<Rightarrow> chiasm_db \<Rightarrow> task result \<times> chiasm_db" where
  "submit_feedback i feedback user db =
     set_field (\<lambda>t. t\<lparr>tk_feedback := Some feedback, tk_status := ''active'', tk_updated_at := now db\<rparr>)
       i user ''task.feedback'' (JObj [(''task_id'', JInt i)]) db"

section \<open>dependencies.rs\<close>

definition deps_of :: "dep_row list \<Rightarrow> int \<Rightarrow> int list" where
  "deps_of es c = map dp_depends_on (filter (\<lambda>d. dp_task_id d = c) es)"

text \<open>The search: \<open>visited\<close> and the queue are the two containers of the loop.\<close>

function circular_loop :: "dep_row list \<Rightarrow> int \<Rightarrow> int list \<Rightarrow> int list \<Rightarrow> bool" where
  "circular_loop es tid visited [] = False"
| "circular_loop es tid visited (current # queue) =
     (if current = tid then True
      else if current \<in> set visited then circular_loop es tid visited queue
      else circular_loop es tid (current # visited) (queue @ deps_of es current))"
  by pat_completeness auto
termination
proof (relation "measures [\<lambda>(es, tid, visited, queue). card (dp_task_id ` set es - set visited),
    \<lambda>(es, tid, visited, queue). length queue]")
  fix es :: "dep_row list" and tid current :: int and visited queue :: "int list"
  assume new: "current \<noteq> tid" "current \<notin> set visited"
  show "((es, tid, current # visited, queue @ deps_of es current), es, tid, visited, current # queue)
    \<in> measures [\<lambda>(es, tid, visited, queue). card (dp_task_id ` set es - set visited),
        \<lambda>(es, tid, visited, queue). length queue]"
  proof (cases "current \<in> dp_task_id ` set es")
    case True
    then have "dp_task_id ` set es - set (current # visited) \<subset> dp_task_id ` set es - set visited" using new by auto
    then have "card (dp_task_id ` set es - set (current # visited)) < card (dp_task_id ` set es - set visited)"
      by (intro psubset_card_mono) auto
    then show ?thesis by simp
  next
    case False
    then have "deps_of es current = []" by (auto simp: deps_of_def filter_empty_conv)
    moreover have "dp_task_id ` set es - set (current # visited) = dp_task_id ` set es - set visited"
      using False by auto
    ultimately show ?thesis by simp
  qed
qed auto

definition has_circular_dependency :: "chiasm_db \<Rightarrow> int \<Rightarrow> int \<Rightarrow> bool" where
  "has_circular_dependency db task_id target_id =
     circular_loop (trows (chiasm_task_dependencies db)) task_id [] [target_id]"

fun check_dependencies :: "chiasm_db \<Rightarrow> int \<Rightarrow> int list \<Rightarrow> int \<Rightarrow> unit result" where
  "check_dependencies db task_id [] user = Ok ()"
| "check_dependencies db task_id (dep_id # ds) user =
     (if dep_id = task_id then Err (InvalidInput ''task cannot depend on itself'')
      else if find_where (owned dep_id user) (chiasm_tasks db) = None
        then Err (NotFound (''dependency target task '' @ show_int dep_id @ '' not found''))
      else if has_circular_dependency db task_id dep_id
        then Err (InvalidInput (''circular dependency: '' @ show_int task_id @ '' -> '' @ show_int dep_id @ '' creates a cycle''))
      else check_dependencies db task_id ds user)"

text \<open>
  \<^verbatim>\<open>INSERT OR IGNORE\<close> skips an edge that is there; an edge with a missing end violates a foreign key, and the
  edges written before it stay, because the write is not a transaction.
\<close>

definition has_edge :: "chiasm_db \<Rightarrow> int \<Rightarrow> int \<Rightarrow> bool" where
  "has_edge db task_id dep_id \<longleftrightarrow>
     (\<exists>d\<in>set (trows (chiasm_task_dependencies db)). dp_task_id d = task_id \<and> dp_depends_on d = dep_id)"

definition task_exists :: "chiasm_db \<Rightarrow> int \<Rightarrow> bool" where
  "task_exists db i \<longleftrightarrow> (\<exists>t\<in>set (trows (chiasm_tasks db)). tk_id t = i)"

definition insert_edge :: "int \<Rightarrow> int \<Rightarrow> chiasm_db \<Rightarrow> chiasm_db" where
  "insert_edge task_id dep_id db =
     (if has_edge db task_id dep_id then db
      else db\<lparr>chiasm_task_dependencies := snd (insert_row (\<lambda>i. \<lparr>dp_id = i, dp_task_id = task_id,
        dp_depends_on = dep_id, dp_created_at = now db\<rparr>) (chiasm_task_dependencies db))\<rparr>)"

fun write_dependencies :: "int \<Rightarrow> int list \<Rightarrow> chiasm_db \<Rightarrow> unit result \<times> chiasm_db" where
  "write_dependencies task_id [] db = (Ok (), db)"
| "write_dependencies task_id (dep_id # ds) db =
     (if has_edge db task_id dep_id \<or> task_exists db task_id \<and> task_exists db dep_id
      then write_dependencies task_id ds (insert_edge task_id dep_id db)
      else (Err (Database ''FOREIGN KEY constraint failed''), db))"

definition add_dependencies :: "int \<Rightarrow> int list \<Rightarrow> int \<Rightarrow> chiasm_db \<Rightarrow> unit result \<times> chiasm_db" where
  "add_dependencies task_id ds user db =
     (case check_dependencies db task_id ds user of
        Inl e \<Rightarrow> (Err e, db)
      | Inr _ \<Rightarrow> write_dependencies task_id ds db)"

definition get_dependencies :: "chiasm_db \<Rightarrow> int \<Rightarrow> dependency list" where
  "get_dependencies db task_id =
     map (\<lambda>d. let t = find_where (\<lambda>t. tk_id t = dp_depends_on d) (chiasm_tasks db) in
         \<lparr>dy_row = d, dy_title = map_option tk_title t, dy_status = map_option tk_status t\<rparr>)
       (select_where (\<lambda>d. dp_task_id d = task_id) (chiasm_task_dependencies db))"

definition remove_dependency :: "int \<Rightarrow> int \<Rightarrow> chiasm_db \<Rightarrow> bool \<times> chiasm_db" where
  "remove_dependency task_id dep_id db =
     (let P = (\<lambda>d. dp_task_id d = task_id \<and> dp_depends_on d = dep_id) in
      (0 < count_where P (chiasm_task_dependencies db),
       db\<lparr>chiasm_task_dependencies := delete_where P (chiasm_task_dependencies db)\<rparr>))"

text \<open>The tasks with an edge to the completed one, with their owners, each once.\<close>

definition dependents :: "chiasm_db \<Rightarrow> int \<Rightarrow> (int \<times> int) list" where
  "dependents db completed =
     remdups (concat (map (\<lambda>d. map (\<lambda>t. (dp_task_id d, tk_user_id t))
         (select_where (\<lambda>t. tk_id t = dp_task_id d) (chiasm_tasks db)))
       (select_where (\<lambda>d. dp_depends_on d = completed) (chiasm_task_dependencies db))))"

definition others_complete :: "chiasm_db \<Rightarrow> int \<Rightarrow> int \<Rightarrow> bool" where
  "others_complete db task_id completed \<longleftrightarrow>
     (\<forall>d\<in>set (trows (chiasm_task_dependencies db)). \<forall>t\<in>set (trows (chiasm_tasks db)).
        tk_id t = dp_depends_on d \<and> dp_task_id d = task_id \<and> dp_depends_on d \<noteq> completed \<longrightarrow> tk_status t = ''completed'')"

fun unblock_loop :: "int \<Rightarrow> (int \<times> int) list \<Rightarrow> task list \<Rightarrow> chiasm_db \<Rightarrow> task list result \<times> chiasm_db" where
  "unblock_loop completed [] unblocked db = (Ok unblocked, db)"
| "unblock_loop completed ((task_id, owner) # ds) unblocked db =
     (if others_complete db task_id completed then
        (case update_task task_id \<lparr>ut_title = None, ut_status = Some ''active'',
            ut_summary = Some ''auto-unblocked: all dependencies completed'', ut_agent = None\<rparr> owner db of
           (Inl e, db1) \<Rightarrow> (Err e, db1)
         | (Inr t, db1) \<Rightarrow> unblock_loop completed ds (unblocked @ [t])
             (emit_chiasm_event ''task.unblocked''
               (JObj [(''completed_dependency'', JInt completed), (''task_id'', JInt (tk_id t))]) db1))
      else unblock_loop completed ds unblocked db)"

definition check_and_unblock :: "int \<Rightarrow> chiasm_db \<Rightarrow> task list result \<times> chiasm_db" where
  "check_and_unblock completed db = unblock_loop completed (dependents db completed) [] db"

section \<open>claims.rs\<close>

definition get_claim :: "chiasm_db \<Rightarrow> int \<Rightarrow> path_claim result" where
  "get_claim db i =
     (case find_where (\<lambda>c. pc_id c = i) (chiasm_path_claims db) of
        None \<Rightarrow> Err (NotFound (''path claim '' @ show_int i)) | Some c \<Rightarrow> Ok c)"

text \<open>
  The loop over the paths. A negative time to live makes a modifier SQLite does not accept, and the column
  refuses the resulting \<^verbatim>\<open>NULL\<close>.
\<close>

fun insert_claims ::
    "int \<Rightarrow> string \<Rightarrow> string \<Rightarrow> string list \<Rightarrow> int \<Rightarrow> int list \<Rightarrow> chiasm_db \<Rightarrow> int list result \<times> chiasm_db" where
  "insert_claims task_id agent project [] ttl ids db = (Ok ids, db)"
| "insert_claims task_id agent project (path # paths) ttl ids db =
     (case datetime_plus_seconds (now db) ttl of
        None \<Rightarrow> (Err (Database ''NOT NULL constraint failed: chiasm_path_claims.expires_at''), db)
      | Some expires \<Rightarrow>
          if \<not> task_exists db task_id then (Err (Database ''FOREIGN KEY constraint failed''), db)
          else (case insert_row (\<lambda>i. \<lparr>pc_id = i, pc_task_id = task_id, pc_agent = agent, pc_project = project,
                  pc_path = path, pc_claimed_at = now db, pc_expires_at = expires, pc_released = False\<rparr>)
                  (chiasm_path_claims db) of
                  (i, cs) \<Rightarrow> insert_claims task_id agent project paths ttl (ids @ [i]) (db\<lparr>chiasm_path_claims := cs\<rparr>)))"

fun read_claims :: "chiasm_db \<Rightarrow> int list \<Rightarrow> path_claim list result" where
  "read_claims db [] = Ok []"
| "read_claims db (i # ids) =
     (case get_claim db i of
        Inl e \<Rightarrow> Err e
      | Inr c \<Rightarrow> (case read_claims db ids of Inl e \<Rightarrow> Err e | Inr cs \<Rightarrow> Ok (c # cs)))"

definition create_claims ::
    "int \<Rightarrow> string \<Rightarrow> string \<Rightarrow> string list \<Rightarrow> int \<Rightarrow> chiasm_db \<Rightarrow> path_claim list result \<times> chiasm_db" where
  "create_claims task_id agent project paths ttl db =
     (case insert_claims task_id agent project paths ttl [] db of
        (Inl e, db1) \<Rightarrow> (Err e, db1)
      | (Inr ids, db1) \<Rightarrow>
          (case read_claims db1 ids of
             Inl e \<Rightarrow> (Err e, db1)
           | Inr cs \<Rightarrow> (Ok cs, emit_chiasm_event ''claim.created''
               (JObj [(''count'', JNum (show_nat (length cs))), (''task_id'', JInt task_id)]) db1)))"

definition active_claim :: "chiasm_db \<Rightarrow> path_claim \<Rightarrow> bool" where
  "active_claim db c \<longleftrightarrow> \<not> pc_released c \<and> now db < pc_expires_at c"

definition owns_task :: "chiasm_db \<Rightarrow> int \<Rightarrow> int \<Rightarrow> bool" where
  "owns_task db user i \<longleftrightarrow> (\<exists>t\<in>set (trows (chiasm_tasks db)). tk_user_id t = user \<and> tk_id t = i)"

definition check_conflicts ::
    "chiasm_db \<Rightarrow> string \<Rightarrow> string list \<Rightarrow> int option \<Rightarrow> int \<Rightarrow> path_conflict list" where
  "check_conflicts db project paths exclude user =
     concat (map (\<lambda>path.
       map (\<lambda>c. \<lparr>pf_path = path, pf_agent = pc_agent c, pf_task = pc_task_id c, pf_expires_at = pc_expires_at c\<rparr>)
         (select_where (\<lambda>c. pc_project c = project \<and> pc_path c = path \<and> active_claim db c
            \<and> owns_task db user (pc_task_id c) \<and> (case exclude of None \<Rightarrow> True | Some e \<Rightarrow> pc_task_id c \<noteq> e))
           (chiasm_path_claims db))) paths)"

definition get_claims_for_task :: "chiasm_db \<Rightarrow> int \<Rightarrow> path_claim list" where
  "get_claims_for_task db task_id =
     select_where (\<lambda>c. pc_task_id c = task_id \<and> active_claim db c) (chiasm_path_claims db)"

definition get_claims_for_project :: "chiasm_db \<Rightarrow> string \<Rightarrow> int \<Rightarrow> path_claim list" where
  "get_claims_for_project db project user =
     select_where (\<lambda>c. pc_project c = project \<and> active_claim db c \<and> owns_task db user (pc_task_id c)) (chiasm_path_claims db)"

definition release_claims :: "int \<Rightarrow> chiasm_db \<Rightarrow> nat \<times> chiasm_db" where
  "release_claims task_id db =
     (count_where (\<lambda>c. pc_task_id c = task_id) (chiasm_path_claims db),
      emit_chiasm_event ''claim.released'' (JObj [(''task_id'', JInt task_id)])
        (db\<lparr>chiasm_path_claims := update_where (\<lambda>c. pc_task_id c = task_id) (\<lambda>c. c\<lparr>pc_released := True\<rparr>)
          (chiasm_path_claims db)\<rparr>))"

section \<open>heartbeat.rs\<close>

definition record_heartbeat :: "int \<Rightarrow> int \<Rightarrow> chiasm_db \<Rightarrow> unit result \<times> chiasm_db" where
  "record_heartbeat i user db =
     (if count_where (owned i user) (chiasm_tasks db) = 0 then (Err (NotFound (''task '' @ show_int i)), db)
      else (Ok (), let db1 = upd_task (owned i user)
          (\<lambda>t. t\<lparr>tk_last_heartbeat := Some (now db), tk_updated_at := now db\<rparr>) db in
        db1\<lparr>chiasm_path_claims := update_where (\<lambda>c. pc_task_id c = i \<and> \<not> pc_released c)
          (\<lambda>c. c\<lparr>pc_expires_at := now db + 600\<rparr>) (chiasm_path_claims db1)\<rparr>))"

text \<open>
  \<open>late t0 t s\<close> is SQLite's comparison of the days from \<open>t0\<close> to \<open>t\<close> with the window of \<open>s\<close> seconds; for a
  heartbeat the window is scaled by the grace multiplier first.
\<close>

definition is_stale :: "(int \<Rightarrow> int \<Rightarrow> int \<Rightarrow> bool) \<Rightarrow> (int \<Rightarrow> int \<Rightarrow> int \<Rightarrow> bool) \<Rightarrow> int \<Rightarrow> int \<Rightarrow> task \<Rightarrow> bool" where
  "is_stale late_graced late idle_secs t tk \<longleftrightarrow>
     (tk_status tk = ''active'' \<or> tk_status tk = ''paused'')
     \<and> (case tk_last_heartbeat tk of
          Some h \<Rightarrow> late_graced h t (tk_heartbeat_interval tk)
        | None \<Rightarrow> late (tk_updated_at tk) t idle_secs)"

definition stale_summary :: "task \<Rightarrow> string" where
  "stale_summary tk =
     (if tk_last_heartbeat tk = None then ''marked stale: idle, no heartbeat'' else ''marked stale: heartbeat overdue'')"

text \<open>The changes for one task: its row, its history, its claims, and the event.\<close>

definition stale_one :: "(task \<Rightarrow> bool) \<Rightarrow> int \<Rightarrow> string \<Rightarrow> chiasm_db \<Rightarrow> chiasm_db" where
  "stale_one P task_id summary db =
     emit_chiasm_event ''task.stale'' (JObj [(''task_id'', JInt task_id)])
       (snd (release_claims task_id
         (add_history task_id ''system'' ''stale'' (Some summary)
           (upd_task P (\<lambda>t. t\<lparr>tk_status := ''stale'', tk_summary := Some summary, tk_updated_at := now db\<rparr>) db))))"

fun stale_loop :: "(int \<Rightarrow> task \<Rightarrow> bool) \<Rightarrow> (int \<times> int \<times> string) list \<Rightarrow> task list \<Rightarrow> chiasm_db
    \<Rightarrow> task list \<times> chiasm_db" where
  "stale_loop st [] acc db = (acc, db)"
| "stale_loop st ((task_id, owner, summary) # ids) acc db =
     (let P = (\<lambda>t. tk_id t = task_id \<and> st (now db) t) in
      if count_where P (chiasm_tasks db) = 0 then stale_loop st ids acc db
      else let db2 = stale_one P task_id summary db
        in case get_task db2 task_id owner of
             Inl _ \<Rightarrow> stale_loop st ids acc db2
           | Inr t \<Rightarrow> stale_loop st ids (acc @ [t]) db2)"

definition mark_stale_tasks ::
    "(int \<Rightarrow> int \<Rightarrow> int \<Rightarrow> bool) \<Rightarrow> (int \<Rightarrow> int \<Rightarrow> int \<Rightarrow> bool) \<Rightarrow> int \<Rightarrow> chiasm_db \<Rightarrow> task list \<times> chiasm_db" where
  "mark_stale_tasks late_graced late idle_secs db =
     stale_loop (is_stale late_graced late idle_secs)
       (map (\<lambda>t. (tk_id t, tk_user_id t, stale_summary t))
         (select_where (is_stale late_graced late idle_secs (now db)) (chiasm_tasks db))) [] db"

section \<open>queue.rs\<close>

definition enqueue_task :: "string \<Rightarrow> string \<Rightarrow> string option \<Rightarrow> int \<Rightarrow> chiasm_db \<Rightarrow> task result \<times> chiasm_db" where
  "enqueue_task project title summary user db =
     (case insert_row (\<lambda>i. \<lparr>tk_id = i, tk_agent = ''unassigned'', tk_project = project, tk_title = title,
         tk_status = ''queued'', tk_summary = summary, tk_expected_output = None, tk_output_format = Some ''raw'',
         tk_output = None, tk_condition = None, tk_guardrail_url = None, tk_guardrail_retries = 0, tk_plan = None,
         tk_feedback = None, tk_last_heartbeat = None, tk_heartbeat_interval = 300, tk_assigned = False,
         tk_created_at = now db, tk_updated_at = now db, tk_user_id = user\<rparr>) (chiasm_tasks db) of
        (i, ts) \<Rightarrow>
          (let db1 = db\<lparr>chiasm_tasks := ts\<rparr> in
           case get_task db1 i user of
             Inl e \<Rightarrow> (Err e, db1)
           | Inr t \<Rightarrow> (Ok t, emit_chiasm_event ''task.queued''
               (JObj [(''project'', JStr (tk_project t)), (''task_id'', JInt (tk_id t))]) db1)))"

definition claimable :: "string option \<Rightarrow> int \<Rightarrow> task \<Rightarrow> bool" where
  "claimable project user t \<longleftrightarrow>
     tk_status t = ''queued'' \<and> \<not> tk_assigned t \<and> tk_user_id t = user \<and> matches_opt project (tk_project t)"

definition claim_next_task ::
    "string \<Rightarrow> string option \<Rightarrow> int \<Rightarrow> chiasm_db \<Rightarrow> task option result \<times> chiasm_db" where
  "claim_next_task agent project user db =
     (case sort_key tk_created_at (select_where (claimable project user) (chiasm_tasks db)) of
        [] \<Rightarrow> (Ok None, db)
      | c # _ \<Rightarrow>
          (let db1 = upd_task (owned (tk_id c) user) (\<lambda>t. t\<lparr>tk_agent := agent, tk_status := ''active'',
                tk_assigned := True, tk_last_heartbeat := Some (now db), tk_updated_at := now db\<rparr>) db in
           case get_task db1 (tk_id c) user of
             Inl e \<Rightarrow> (Err e, db1)
           | Inr t \<Rightarrow> (Ok (Some t), emit_chiasm_event ''task.claimed''
               (JObj [(''agent'', JStr (tk_agent t)), (''task_id'', JInt (tk_id t))]) db1)))"

end
