(* ===== verification/Chiasm_Service.thy ===== *)
theory Chiasm_Service
  imports Chiasm
begin

text \<open>
  The rest of Chiasm: planning with a language model, the bearer keys of agents, and the request handlers
  that guard operations on rows without an owner of their own. Then the machine of all requests, of all
  users, in any order, and its invariant: tables in order, known statuses, edges and claims that refer to
  tasks, edges inside one tenant, and an acyclic dependency graph.
\<close>

section \<open>Plans\<close>

definition has_text :: "string \<Rightarrow> string \<Rightarrow> bool" where
  "has_text s p \<longleftrightarrow> find_sub p s \<noteq> None"

definition non_empty_var :: "(string \<Rightarrow> string option) \<Rightarrow> string \<Rightarrow> string \<Rightarrow> string option" where
  "non_empty_var env a b =
     (case (case env a of Some v \<Rightarrow> Some v | None \<Rightarrow> env b) of
        None \<Rightarrow> None | Some v \<Rightarrow> if v = [] then None else Some v)"

definition chiasm_llm_url :: "(string \<Rightarrow> string option) \<Rightarrow> string option" where
  "chiasm_llm_url env = non_empty_var env ''CHIASM_LLM_URL'' ''LLM_URL''"

definition chiasm_llm_api_key :: "(string \<Rightarrow> string option) \<Rightarrow> string option" where
  "chiasm_llm_api_key env = non_empty_var env ''CHIASM_LLM_API_KEY'' ''LLM_API_KEY''"

definition chiasm_llm_model :: "(string \<Rightarrow> string option) \<Rightarrow> string" where
  "chiasm_llm_model env =
     (case env ''CHIASM_LLM_MODEL'' of Some m \<Rightarrow> m
      | None \<Rightarrow> (case env ''LLM_MODEL'' of Some m \<Rightarrow> m | None \<Rightarrow> ''qwen2.5:14b''))"

definition trim_end_slashes :: "string \<Rightarrow> string" where
  "trim_end_slashes s = rev (dropWhile (\<lambda>c. c = CHR ''/'') (rev s))"

definition plan_block :: "string \<Rightarrow> string option \<Rightarrow> string" where
  "plan_block label v = (case v of None \<Rightarrow> [] | Some e \<Rightarrow> label @ e @ [CHR 0x0A])"

definition plan_prompt :: "(json \<Rightarrow> string) \<Rightarrow> string \<Rightarrow> task \<Rightarrow> string" where
  "plan_prompt display user_template t =
     interpolate display user_template (JObj [(''agent'', JStr (tk_agent t)),
       (''expected_block'', JStr (plan_block ''Expected output: '' (tk_expected_output t))),
       (''project'', JStr (tk_project t)),
       (''summary_block'', JStr (plan_block ''Context: '' (tk_summary t))),
       (''title'', JStr (tk_title t))])"

definition plan_openai_compat :: "string \<Rightarrow> bool" where
  "plan_openai_compat url \<longleftrightarrow> has_text url ''11434'' \<or> has_text url ''ollama'' \<or> has_text url ''/v1/chat''
     \<or> has_text url ''/chat/completions''"

text \<open>The address and the body of the request to the model.\<close>

definition plan_request :: "string \<Rightarrow> string \<Rightarrow> string \<Rightarrow> string \<Rightarrow> string \<times> json" where
  "plan_request url model system user_prompt =
     (if plan_openai_compat url
      then (if has_text url ''/chat/completions'' then url else trim_end_slashes url @ ''/v1/chat/completions'',
        JObj [(''messages'', JArr [JObj [(''content'', JStr system), (''role'', JStr ''system'')],
               JObj [(''content'', JStr user_prompt), (''role'', JStr ''user'')]]),
          (''model'', JStr model), (''stream'', JBool False), (''temperature'', JNum ''0.3'')])
      else (url, JObj [(''model'', JStr model), (''prompt'', JStr user_prompt), (''system'', JStr system)]))"

text \<open>\<open>call\<close> is the HTTP call of \<^verbatim>\<open>broca::call_llm_endpoint\<close>; \<open>system\<close> and \<open>template\<close> are the loaded prompts.\<close>

definition generate_plan ::
    "(json \<Rightarrow> string) \<Rightarrow> (string \<Rightarrow> string option) \<Rightarrow> string \<Rightarrow> string
      \<Rightarrow> (string \<Rightarrow> json \<Rightarrow> string option \<Rightarrow> string + string) \<Rightarrow> int \<Rightarrow> int \<Rightarrow> chiasm_db \<Rightarrow> task result \<times> chiasm_db" where
  "generate_plan display env system template call i user db =
     (case get_task db i user of
        Inl e \<Rightarrow> (Err e, db)
      | Inr t \<Rightarrow>
          (case chiasm_llm_url env of
             None \<Rightarrow> (Err (InvalidInput ''CHIASM_LLM_URL/LLM_URL not configured; cannot generate plan''), db)
           | Some url \<Rightarrow>
               (case plan_request url (chiasm_llm_model env) system (plan_prompt display template t) of
                  (target, body) \<Rightarrow>
                    (case call target body (chiasm_llm_api_key env) of
                       Inl e \<Rightarrow> (Err (Internal (''plan generation failed: '' @ e)), db)
                     | Inr plan \<Rightarrow>
                         (let plan_trimmed = trim plan in
                          if plan_trimmed = [] then (Err (Internal ''plan generation returned empty content''), db)
                          else set_field (\<lambda>t. t\<lparr>tk_plan := Some plan_trimmed, tk_updated_at := now db\<rparr>) i user ''task.plan''
                            (JObj [(''plan_len'', JNum (show_nat (length plan_trimmed))), (''task_id'', JInt i)]) db)))))"

section \<open>keys.rs\<close>

text \<open>\<open>hash\<close> is \<^verbatim>\<open>hash_key\<close>, SHA-256 in hexadecimal; \<open>raw\<close> is the key minted from random bytes.\<close>

definition create_key :: "(string \<Rightarrow> string) \<Rightarrow> string \<Rightarrow> string \<Rightarrow> chiasm_db \<Rightarrow> created_key result \<times> chiasm_db" where
  "create_key hash raw agent db =
     (let agent = trim agent; prefix = take 11 raw in
      if agent = [] then (Err (InvalidInput ''agent must not be empty''), db)
      else if \<exists>k\<in>set (trows (chiasm_agent_keys db)). ak_key_hash k = hash raw
        then (Err (Database ''UNIQUE constraint failed: chiasm_agent_keys.key_hash''), db)
      else (case insert_row (\<lambda>i. \<lparr>ak_id = i, ak_agent = agent, ak_key_hash = hash raw, ak_key_prefix = prefix,
              ak_created_at = now db, ak_last_used_at = None, ak_revoked = False\<rparr>) (chiasm_agent_keys db) of
              (i, ks) \<Rightarrow> (Ok \<lparr>ck_id = i, ck_agent = agent, ck_key = raw, ck_prefix = prefix, ck_created_at = now db,
                  ck_warning = ''Store this key now. It cannot be retrieved again.''\<rparr>, db\<lparr>chiasm_agent_keys := ks\<rparr>)))"

definition list_keys :: "chiasm_db \<Rightarrow> agent_key_row list" where
  "list_keys db = map (\<lambda>k. k\<lparr>ak_key_hash := []\<rparr>) (trows (chiasm_agent_keys db))"

definition revoke_key :: "int \<Rightarrow> chiasm_db \<Rightarrow> bool \<times> chiasm_db" where
  "revoke_key i db =
     (let P = (\<lambda>k. ak_id k = i \<and> \<not> ak_revoked k) in
      (0 < count_where P (chiasm_agent_keys db),
       db\<lparr>chiasm_agent_keys := update_where P (\<lambda>k. k\<lparr>ak_revoked := True\<rparr>) (chiasm_agent_keys db)\<rparr>))"

definition verify_bearer :: "(string \<Rightarrow> string) \<Rightarrow> string \<Rightarrow> chiasm_db \<Rightarrow> agent_key_row option \<times> chiasm_db" where
  "verify_bearer hash token db =
     (case find_where (\<lambda>k. ak_key_hash k = hash token \<and> \<not> ak_revoked k) (chiasm_agent_keys db) of
        None \<Rightarrow> (None, db)
      | Some k \<Rightarrow> (Some (k\<lparr>ak_key_hash := []\<rparr>),
          db\<lparr>chiasm_agent_keys := update_where (\<lambda>x. ak_id x = ak_id k) (\<lambda>x. x\<lparr>ak_last_used_at := Some (now db)\<rparr>)
            (chiasm_agent_keys db)\<rparr>))"

section \<open>routes/tasks/mod.rs\<close>

text \<open>The handlers with a guard of their own; the others only pass the caller's id on.\<close>

definition add_deps_handler :: "int \<Rightarrow> int \<Rightarrow> int list \<Rightarrow> chiasm_db \<Rightarrow> dependency list result \<times> chiasm_db" where
  "add_deps_handler user i ds db =
     (case get_task db i user of
        Inl e \<Rightarrow> (Err e, db)
      | Inr _ \<Rightarrow>
          (case add_dependencies i ds user db of
             (Inl e, db1) \<Rightarrow> (Err e, db1)
           | (Inr _, db1) \<Rightarrow> (Ok (get_dependencies db1 i), db1)))"

definition list_deps_handler :: "int \<Rightarrow> int \<Rightarrow> chiasm_db \<Rightarrow> dependency list result" where
  "list_deps_handler user i db =
     (case get_task db i user of Inl e \<Rightarrow> Err e | Inr _ \<Rightarrow> Ok (get_dependencies db i))"

definition remove_dep_handler :: "int \<Rightarrow> int \<Rightarrow> int \<Rightarrow> chiasm_db \<Rightarrow> bool result \<times> chiasm_db" where
  "remove_dep_handler user i dep_id db =
     (case get_task db i user of
        Inl e \<Rightarrow> (Err e, db)
      | Inr _ \<Rightarrow> (case remove_dependency i dep_id db of (b, db1) \<Rightarrow> (Ok b, db1)))"

definition create_claims_handler ::
    "int \<Rightarrow> int \<Rightarrow> string \<Rightarrow> string \<Rightarrow> string list \<Rightarrow> int option \<Rightarrow> chiasm_db \<Rightarrow> path_claim list result \<times> chiasm_db" where
  "create_claims_handler user i agent project paths ttl db =
     (case get_task db i user of
        Inl e \<Rightarrow> (Err e, db)
      | Inr _ \<Rightarrow> create_claims i agent project paths (case ttl of Some s \<Rightarrow> s | None \<Rightarrow> 1800) db)"

definition list_task_claims_handler :: "int \<Rightarrow> int \<Rightarrow> chiasm_db \<Rightarrow> path_claim list result" where
  "list_task_claims_handler user i db =
     (case get_task db i user of Inl e \<Rightarrow> Err e | Inr _ \<Rightarrow> Ok (get_claims_for_task db i))"

definition release_claims_handler :: "int \<Rightarrow> int \<Rightarrow> chiasm_db \<Rightarrow> nat result \<times> chiasm_db" where
  "release_claims_handler user i db =
     (case get_task db i user of
        Inl e \<Rightarrow> (Err e, db)
      | Inr _ \<Rightarrow> (case release_claims i db of (n, db1) \<Rightarrow> (Ok n, db1)))"

definition get_task_history_handler :: "int \<Rightarrow> int \<Rightarrow> 64 word option \<Rightarrow> chiasm_db \<Rightarrow> task_update list result" where
  "get_task_history_handler user i limit db =
     (case get_task db i user of
        Inl e \<Rightarrow> Err e
      | Inr _ \<Rightarrow> Ok (list_task_history db i user (min (case limit of Some l \<Rightarrow> l | None \<Rightarrow> 100) 1000)))"

definition list_tasks_handler ::
    "int \<Rightarrow> string option \<Rightarrow> string option \<Rightarrow> string option \<Rightarrow> 64 word option \<Rightarrow> 64 word option \<Rightarrow> chiasm_db \<Rightarrow> task list" where
  "list_tasks_handler user status agent project limit offset db =
     list_tasks db user status agent project (min (case limit of Some l \<Rightarrow> l | None \<Rightarrow> 500) 1000)
       (case offset of Some off \<Rightarrow> off | None \<Rightarrow> 0)"

definition create_task_handler :: "int \<Rightarrow> create_task_request \<Rightarrow> chiasm_db \<Rightarrow> task result \<times> chiasm_db" where
  "create_task_handler user body db = create_task (body\<lparr>ct_user_id := Some user\<rparr>) db"

definition revoke_agent_key_handler :: "bool \<Rightarrow> int \<Rightarrow> chiasm_db \<Rightarrow> unit result \<times> chiasm_db" where
  "revoke_agent_key_handler admin i db =
     (if \<not> admin then (Err (Auth ''admin scope required''), db)
      else case revoke_key i db of
        (False, db1) \<Rightarrow> (Err (NotFound (''key '' @ show_int i)), db1)
      | (True, db1) \<Rightarrow> (Ok (), db1))"

definition create_agent_key_handler ::
    "(string \<Rightarrow> string) \<Rightarrow> string \<Rightarrow> bool \<Rightarrow> string \<Rightarrow> chiasm_db \<Rightarrow> created_key result \<times> chiasm_db" where
  "create_agent_key_handler hash raw admin agent db =
     (if \<not> admin then (Err (Auth ''admin scope required''), db) else create_key hash raw agent db)"

section \<open>The cycle check\<close>

abbreviation edge_of :: "dep_row \<Rightarrow> int \<times> int" where
  "edge_of d \<equiv> (dp_task_id d, dp_depends_on d)"

definition edges :: "chiasm_db \<Rightarrow> (int \<times> int) set" where
  "edges db = edge_of ` set (trows (chiasm_task_dependencies db))"

lemma deps_of_edges: "set (deps_of es c) = {b. (c, b) \<in> edge_of ` set es}"
  by (auto simp: deps_of_def)

text \<open>
  What the loop searches: the nodes reachable from the queue, when everything a visited node leads to is
  visited or queued and the target is not among the visited.
\<close>

lemma circular_loop_reach:
  assumes "set vs \<subseteq> {a. \<forall>b. (a, b) \<in> E \<longrightarrow> b \<in> set vs \<union> set q}" "tid \<notin> set vs"
    and E: "E = edge_of ` set es"
  shows "circular_loop es tid vs q \<longleftrightarrow> (\<exists>a\<in>set vs \<union> set q. (a, tid) \<in> E\<^sup>*)"
  using assms
proof (induction es tid vs q rule: circular_loop.induct)
  case (1 es tid visited)
  have "b \<in> set visited" if "(a, b) \<in> E\<^sup>*" "a \<in> set visited" for a b
    using that 1(1) by (induction rule: rtrancl_induct) auto
  then show ?case using 1(2) by auto
next
  case (2 es tid visited current queue)
  show ?case
  proof (cases "current = tid")
    case False
    then show ?thesis
    proof (cases "current \<in> set visited")
      case True
      with 2 False show ?thesis by (auto simp: insert_absorb)
    next
      case new: False
      have deps: "set (deps_of es current) \<subseteq> {b. (current, b) \<in> E}"
        "\<And>b. (current, b) \<in> E \<Longrightarrow> b \<in> set (deps_of es current)" using 2(5) by (auto simp: deps_of_edges)
      have "circular_loop es tid (current # visited) (queue @ deps_of es current)
          \<longleftrightarrow> (\<exists>a\<in>set (current # visited) \<union> set (queue @ deps_of es current). (a, tid) \<in> E\<^sup>*)"
        using 2(3-5) False new deps by (intro 2(2)) auto
      moreover have "(current, tid) \<in> E\<^sup>*" if "b \<in> set (deps_of es current)" "(b, tid) \<in> E\<^sup>*" for b
        using that(2) by (rule converse_rtrancl_into_rtrancl [rotated]) (use that(1) deps in auto)
      then have "(\<exists>a\<in>set (current # visited) \<union> set (queue @ deps_of es current). (a, tid) \<in> E\<^sup>*)
          \<longleftrightarrow> (\<exists>a\<in>set visited \<union> set (current # queue). (a, tid) \<in> E\<^sup>*)" by auto
      ultimately show ?thesis using False new by simp
    qed
  qed auto
qed

lemma has_circular_dependency_reach: "has_circular_dependency db task target \<longleftrightarrow> (target, task) \<in> (edges db)\<^sup>*"
  using circular_loop_reach [of "[]" "edges db" "[target]" task "trows (chiasm_task_dependencies db)"]
  by (simp add: has_circular_dependency_def edges_def)

lemma edges_insert: "edges (insert_edge task dep db) = insert (task, dep) (edges db)"
  by (auto simp: insert_edge_def has_edge_def edges_def table_simps)

lemma insert_edge_keeps:
  "chiasm_tasks (insert_edge task dep db) = chiasm_tasks db" "now (insert_edge task dep db) = now db"
  "chiasm_path_claims (insert_edge task dep db) = chiasm_path_claims db"
  "chiasm_task_updates (insert_edge task dep db) = chiasm_task_updates db"
  by (simp_all add: insert_edge_def)

text \<open>New edges that all leave one node make no cycle when none of their ends led to it before.\<close>

lemma acyclic_fan:
  assumes "acyclic E" and "\<And>b. b \<in> B \<Longrightarrow> (b, a) \<notin> E\<^sup>*"
  shows "acyclic (E \<union> {a} \<times> B)"
proof (rule acyclicI, rule allI)
  fix x
  let ?R = "E \<union> {a} \<times> B"
  have path: "(u, v) \<in> E\<^sup>* \<or> (\<exists>b\<in>B. (u, a) \<in> E\<^sup>* \<and> (b, v) \<in> E\<^sup>*)" if "(u, v) \<in> ?R\<^sup>*" for u v
    using that
  proof (induction rule: rtrancl_induct)
    case (step y z)
    then show ?case using assms(2) by (auto intro: rtrancl_into_rtrancl)
  qed simp
  show "(x, x) \<notin> ?R\<^sup>+"
  proof
    assume "(x, x) \<in> ?R\<^sup>+"
    then obtain y where y: "(x, y) \<in> ?R" "(y, x) \<in> ?R\<^sup>*" by (blast dest: tranclD)
    from y(1) consider "(x, y) \<in> E" | "x = a" "y \<in> B" by auto
    then show False
    proof cases
      case 1
      from path [OF y(2)] show ?thesis
      proof
        assume "(y, x) \<in> E\<^sup>*"
        with 1 have "(x, x) \<in> E\<^sup>+" by (rule rtrancl_into_trancl2)
        with assms(1) show False by (simp add: acyclic_def)
      next
        assume "\<exists>b\<in>B. (y, a) \<in> E\<^sup>* \<and> (b, x) \<in> E\<^sup>*"
        then obtain b where "b \<in> B" "(y, a) \<in> E\<^sup>*" "(b, x) \<in> E\<^sup>*" by blast
        moreover have "(b, y) \<in> E\<^sup>*" using \<open>(b, x) \<in> E\<^sup>*\<close> 1 by (rule rtrancl_into_rtrancl)
        ultimately have "(b, a) \<in> E\<^sup>*" by (blast intro: rtrancl_trans)
        with assms(2) \<open>b \<in> B\<close> show False by blast
      qed
    next
      case 2
      with path [OF y(2)] assms(2) show ?thesis by auto
    qed
  qed
qed

section \<open>The invariant\<close>

definition chiasm_inv :: "chiasm_db \<Rightarrow> bool" where
  "chiasm_inv db \<longleftrightarrow>
     wf_table tk_id (chiasm_tasks db)
     \<and> (\<forall>t\<in>set (trows (chiasm_tasks db)). tk_status t \<in> set VALID_STATUSES)
     \<and> (\<forall>a b. (a, b) \<in> edges db \<longrightarrow> (\<exists>u. owns_task db u a \<and> owns_task db u b))
     \<and> (\<forall>c\<in>set (trows (chiasm_path_claims db)). task_exists db (pc_task_id c))
     \<and> acyclic (edges db)"

lemma chiasm_invD:
  assumes "chiasm_inv db"
  shows "wf_table tk_id (chiasm_tasks db)"
    and "\<And>t. t \<in> set (trows (chiasm_tasks db)) \<Longrightarrow> tk_status t \<in> set VALID_STATUSES"
    and "\<And>a b. (a, b) \<in> edges db \<Longrightarrow> \<exists>u. owns_task db u a \<and> owns_task db u b"
    and "\<And>c. c \<in> set (trows (chiasm_path_claims db)) \<Longrightarrow> task_exists db (pc_task_id c)"
    and "acyclic (edges db)"
  using assms unfolding chiasm_inv_def by blast+

lemma chiasm_invI:
  assumes "wf_table tk_id (chiasm_tasks db)"
    and "\<And>t. t \<in> set (trows (chiasm_tasks db)) \<Longrightarrow> tk_status t \<in> set VALID_STATUSES"
    and "\<And>a b. (a, b) \<in> edges db \<Longrightarrow> \<exists>u. owns_task db u a \<and> owns_task db u b"
    and "\<And>c. c \<in> set (trows (chiasm_path_claims db)) \<Longrightarrow> task_exists db (pc_task_id c)"
    and "acyclic (edges db)"
  shows "chiasm_inv db"
  using assms unfolding chiasm_inv_def by blast

text \<open>Events, history and keys are not part of it.\<close>

definition core :: "chiasm_db \<Rightarrow> task table \<times> dep_row table \<times> path_claim table" where
  "core db = (chiasm_tasks db, chiasm_task_dependencies db, chiasm_path_claims db)"

lemma chiasm_inv_core: "core db' = core db \<Longrightarrow> chiasm_inv db \<Longrightarrow> chiasm_inv db'"
  by (simp add: core_def chiasm_inv_def edges_def owns_task_def task_exists_def)

lemma emit_keeps [table_simps]:
  "chiasm_tasks (emit_chiasm_event a p db) = chiasm_tasks db"
  "chiasm_task_dependencies (emit_chiasm_event a p db) = chiasm_task_dependencies db"
  "chiasm_path_claims (emit_chiasm_event a p db) = chiasm_path_claims db"
  "chiasm_task_updates (emit_chiasm_event a p db) = chiasm_task_updates db"
  "now (emit_chiasm_event a p db) = now db"
  by (simp_all add: emit_chiasm_event_def publish_and_fanout_def publish_event_def Let_def insert_row_def
      split: sum.split prod.split)

lemma history_keeps [table_simps]:
  "chiasm_tasks (add_history i a s m db) = chiasm_tasks db"
  "chiasm_task_dependencies (add_history i a s m db) = chiasm_task_dependencies db"
  "chiasm_path_claims (add_history i a s m db) = chiasm_path_claims db"
  "now (add_history i a s m db) = now db"
  by (simp_all add: add_history_def)

lemma upd_task_keeps [table_simps]:
  "chiasm_tasks (upd_task P f db) = update_where P f (chiasm_tasks db)"
  "chiasm_task_dependencies (upd_task P f db) = chiasm_task_dependencies db"
  "chiasm_path_claims (upd_task P f db) = chiasm_path_claims db"
  "chiasm_task_updates (upd_task P f db) = chiasm_task_updates db"
  "now (upd_task P f db) = now db"
  by (simp_all add: upd_task_def)

lemma core_emit [simp]: "core (emit_chiasm_event a p db) = core db"
  and core_history [simp]: "core (add_history i ag s m db) = core db"
  by (simp_all add: core_def table_simps)

lemma inv_emit [step_inv]: "chiasm_inv db \<Longrightarrow> chiasm_inv (emit_chiasm_event a p db)"
  and inv_history [step_inv]: "chiasm_inv db \<Longrightarrow> chiasm_inv (add_history i ag s m db)"
  by (rule chiasm_inv_core [rotated], assumption, simp)+

text \<open>Tasks: an update of rows that keeps ids and owners, a new row, and deletion.\<close>

lemma owns_upd:
  assumes "\<And>t. tk_id (f t) = tk_id t \<and> tk_user_id (f t) = tk_user_id t"
  shows "owns_task (upd_task P f db) u i = owns_task db u i" "task_exists (upd_task P f db) i = task_exists db i"
  using assms by (auto simp: owns_task_def task_exists_def table_simps)

lemma inv_upd_task [step_inv]:
  assumes inv: "chiasm_inv db" and f: "\<And>t. tk_id (f t) = tk_id t \<and> tk_user_id (f t) = tk_user_id t"
    and st: "\<And>t. tk_status t \<in> set VALID_STATUSES \<Longrightarrow> tk_status (f t) \<in> set VALID_STATUSES"
  shows "chiasm_inv (upd_task P f db)"
proof -
  have "wf_table tk_id (chiasm_tasks (upd_task P f db))"
    using inv f by (simp add: chiasm_inv_def table_simps wf_update_where)
  moreover have "\<forall>t\<in>set (trows (chiasm_tasks (upd_task P f db))). tk_status t \<in> set VALID_STATUSES"
    using inv st by (auto simp: chiasm_inv_def table_simps)
  moreover have "edges (upd_task P f db) = edges db" by (simp add: edges_def table_simps)
  ultimately show ?thesis using inv by (simp add: chiasm_inv_def owns_upd [OF f] table_simps)
qed

lemma inv_insert_task:
  assumes inv: "chiasm_inv db" and mk: "\<And>i. tk_id (mk i) = i \<and> tk_status (mk i) \<in> set VALID_STATUSES"
  shows "chiasm_inv (db\<lparr>chiasm_tasks := snd (insert_row mk (chiasm_tasks db))\<rparr>)" (is "chiasm_inv ?db")
proof (rule chiasm_invI)
  note D = chiasm_invD [OF inv]
  have own: "owns_task ?db u i" if "owns_task db u i" for u i using that by (auto simp: owns_task_def table_simps)
  have e: "edges ?db = edges db" by (simp add: edges_def)
  show "wf_table tk_id (chiasm_tasks ?db)" using D(1) mk by (auto intro!: wf_insert_row)
  show "tk_status t \<in> set VALID_STATUSES" if "t \<in> set (trows (chiasm_tasks ?db))" for t
    using that D(2) mk by (auto simp: table_simps)
  show "\<exists>u. owns_task ?db u a \<and> owns_task ?db u b" if "(a, b) \<in> edges ?db" for a b
    using D(3) [of a b] that own unfolding e by blast
  show "task_exists ?db (pc_task_id c)" if "c \<in> set (trows (chiasm_path_claims ?db))" for c
    using D(4) [of c] that by (auto simp: task_exists_def table_simps)
  show "acyclic (edges ?db)" using D(5) by (simp add: e)
qed

lemma inv_delete_task [step_inv]:
  assumes inv: "chiasm_inv db"
  shows "chiasm_inv (delete_task i user db)" (is "chiasm_inv ?db")
proof (cases "count_where (owned i user) (chiasm_tasks db) = 0")
  case True
  then show ?thesis using inv by (simp add: delete_task_def)
next
  case False
  note D = chiasm_invD [OF inv]
  have e: "edges ?db = {(a, b) \<in> edges db. a \<noteq> i \<and> b \<noteq> i}"
    using False by (auto simp: delete_task_def edges_def table_simps)
  have own: "owns_task ?db u j" if "owns_task db u j" "j \<noteq> i" for u j
    using that by (auto simp: delete_task_def owns_task_def owned_def table_simps)
  show ?thesis
  proof (rule chiasm_invI)
    show "wf_table tk_id (chiasm_tasks ?db)" using D(1) by (simp add: delete_task_def wf_delete_where)
    show "tk_status t \<in> set VALID_STATUSES" if "t \<in> set (trows (chiasm_tasks ?db))" for t
      using that D(2) False by (auto simp: delete_task_def table_simps)
    show "\<exists>u. owns_task ?db u a \<and> owns_task ?db u b" if "(a, b) \<in> edges ?db" for a b
      using that D(3) [of a b] own unfolding e by blast
    show "task_exists ?db (pc_task_id c)" if "c \<in> set (trows (chiasm_path_claims ?db))" for c
      using that D(4) [of c] False by (auto simp: delete_task_def task_exists_def owned_def table_simps)
    show "acyclic (edges ?db)" using D(5) by (auto simp: e intro: acyclic_subset)
  qed
qed

text \<open>Edges: none is added without the check, which is made for the same state.\<close>

lemma check_dependencies_ok:
  "check_dependencies db task ds user = Ok () \<Longrightarrow>
     \<forall>d\<in>set ds. owns_task db user d \<and> d \<noteq> task \<and> (d, task) \<notin> (edges db)\<^sup>*"
  by (induction ds)
     (auto simp: has_circular_dependency_reach owns_task_def owned_def find_where_None split: if_splits)

lemma write_dependencies_edges:
  assumes "\<forall>d\<in>set ds. task_exists db d" "task_exists db task"
  shows "\<exists>db'. write_dependencies task ds db = (Ok (), db') \<and> edges db' = edges db \<union> {task} \<times> set ds
    \<and> chiasm_tasks db' = chiasm_tasks db \<and> chiasm_path_claims db' = chiasm_path_claims db
    \<and> chiasm_task_updates db' = chiasm_task_updates db"
  using assms
proof (induction ds arbitrary: db)
  case (Cons d ds)
  have same: "task_exists (insert_edge task d db) = task_exists db"
    by (simp add: fun_eq_iff task_exists_def insert_edge_keeps)
  obtain db' where "write_dependencies task ds (insert_edge task d db) = (Ok (), db')"
      "edges db' = edges (insert_edge task d db) \<union> {task} \<times> set ds"
      "chiasm_tasks db' = chiasm_tasks (insert_edge task d db)"
      "chiasm_path_claims db' = chiasm_path_claims (insert_edge task d db)"
      "chiasm_task_updates db' = chiasm_task_updates (insert_edge task d db)"
    using Cons.IH [of "insert_edge task d db"] Cons.prems by (auto simp: same)
  with Cons.prems show ?case by (auto simp: edges_insert insert_edge_keeps)
qed simp

lemma owns_task_exists: "owns_task db u i \<Longrightarrow> task_exists db i"
  by (auto simp: owns_task_def task_exists_def)

lemma get_task_owns: "get_task db i user = Ok t \<Longrightarrow> owns_task db user i"
  by (auto simp: get_task_def owns_task_def split: option.splits dest!: find_where_Some)

lemma add_dependencies_cases:
  assumes "owns_task db user task"
  obtains (refused) e where "add_dependencies task ds user db = (Err e, db)"
      "\<exists>d\<in>set ds. d = task \<or> \<not> owns_task db user d \<or> (d, task) \<in> (edges db)\<^sup>*"
  | (added) db' where "add_dependencies task ds user db = (Ok (), db')"
      "\<forall>d\<in>set ds. owns_task db user d \<and> d \<noteq> task \<and> (d, task) \<notin> (edges db)\<^sup>*"
      "edges db' = edges db \<union> {task} \<times> set ds" "chiasm_tasks db' = chiasm_tasks db"
      "chiasm_path_claims db' = chiasm_path_claims db" "chiasm_task_updates db' = chiasm_task_updates db"
proof (cases "check_dependencies db task ds user")
  case (Inl e)
  then have "\<exists>d\<in>set ds. d = task \<or> \<not> owns_task db user d \<or> (d, task) \<in> (edges db)\<^sup>*"
    by (induction ds) (auto simp: has_circular_dependency_reach owns_task_def owned_def find_where_None split: if_splits)
  with Inl show ?thesis by (intro refused [of e]) (auto simp: add_dependencies_def)
next
  case (Inr x)
  then have ok: "\<forall>d\<in>set ds. owns_task db user d \<and> d \<noteq> task \<and> (d, task) \<notin> (edges db)\<^sup>*"
    using check_dependencies_ok by simp
  moreover have "\<forall>d\<in>set ds. task_exists db d" "task_exists db task"
    using ok assms owns_task_exists by blast+
  ultimately show ?thesis using write_dependencies_edges [of ds db task] Inr added
    by (auto simp: add_dependencies_def)
qed

lemma inv_add_deps [step_inv]:
  assumes inv: "chiasm_inv db"
  shows "chiasm_inv (snd (add_deps_handler user i ds db))"
proof (cases "get_task db i user")
  case (Inl e)
  then show ?thesis using inv by (simp add: add_deps_handler_def)
next
  case (Inr t)
  then have own: "owns_task db user i" by (rule get_task_owns)
  note D = chiasm_invD [OF inv]
  from own show ?thesis
  proof (cases rule: add_dependencies_cases [of db user i ds])
    case (refused e)
    then show ?thesis using Inr inv by (simp add: add_deps_handler_def)
  next
    case (added db')
    have same: "owns_task db' = owns_task db" "task_exists db' = task_exists db"
      using added(4) by (simp_all add: owns_task_def task_exists_def fun_eq_iff)
    have "chiasm_inv db'"
    proof (rule chiasm_invI)
      show "acyclic (edges db')" unfolding added(3) using D(5) added(2) by (intro acyclic_fan) auto
      show "\<exists>u. owns_task db' u a \<and> owns_task db' u b" if "(a, b) \<in> edges db'" for a b
        using that D(3) [of a b] own added(2) unfolding added(3) same by blast
    qed (use D added(4,5) same in auto)
    then show ?thesis using Inr added(1) by (simp add: add_deps_handler_def)
  qed
qed

lemma inv_fewer_edges:
  assumes inv: "chiasm_inv db" and db': "chiasm_tasks db' = chiasm_tasks db" "chiasm_path_claims db' = chiasm_path_claims db"
    and sub: "edges db' \<subseteq> edges db"
  shows "chiasm_inv db'"
proof -
  have same: "owns_task db' = owns_task db" "task_exists db' = task_exists db"
    using db' by (simp_all add: owns_task_def task_exists_def fun_eq_iff)
  note D = chiasm_invD [OF inv]
  show ?thesis
  proof (rule chiasm_invI)
    show "acyclic (edges db')" using D(5) sub by (rule acyclic_subset)
    show "\<exists>u. owns_task db' u a \<and> owns_task db' u b" if "(a, b) \<in> edges db'" for a b
      using that D(3) [of a b] sub unfolding same by blast
  qed (use D db' same in auto)
qed

lemma inv_remove_dep [step_inv]: "chiasm_inv db \<Longrightarrow> chiasm_inv (snd (remove_dep_handler user i d db))"
  by (auto simp: remove_dep_handler_def remove_dependency_def Let_def edges_def table_simps
      intro!: inv_fewer_edges [of db] split: sum.split)

text \<open>Claims.\<close>

lemma inv_claims:
  assumes inv: "chiasm_inv db" and db': "chiasm_tasks db' = chiasm_tasks db"
      "chiasm_task_dependencies db' = chiasm_task_dependencies db"
    and cs: "\<And>c. c \<in> set (trows (chiasm_path_claims db')) \<Longrightarrow> task_exists db (pc_task_id c)"
  shows "chiasm_inv db'"
proof -
  have same: "owns_task db' = owns_task db" "task_exists db' = task_exists db" "edges db' = edges db"
    using db' by (simp_all add: owns_task_def task_exists_def edges_def fun_eq_iff)
  note D = chiasm_invD [OF inv]
  show ?thesis by (rule chiasm_invI) (use D db' cs same in auto)
qed

lemma insert_claims_keeps:
  assumes "insert_claims task agent project paths ttl ids db = (r, db')"
  shows "chiasm_tasks db' = chiasm_tasks db \<and> chiasm_task_dependencies db' = chiasm_task_dependencies db
    \<and> chiasm_task_updates db' = chiasm_task_updates db
    \<and> (\<exists>new. trows (chiasm_path_claims db') = trows (chiasm_path_claims db) @ new
        \<and> (\<forall>c\<in>set new. pc_task_id c = task) \<and> (new \<noteq> [] \<longrightarrow> task_exists db task))"
  using assms
proof (induction paths arbitrary: ids db)
  case (Cons path paths)
  show ?case
  proof (cases "datetime_plus_seconds (now db) ttl = None \<or> \<not> task_exists db task")
    case True
    then show ?thesis using Cons.prems by (auto split: option.splits)
  next
    case False
    then obtain ex where ex: "datetime_plus_seconds (now db) ttl = Some ex" "task_exists db task" by auto
    let ?c = "\<lambda>i. \<lparr>pc_id = i, pc_task_id = task, pc_agent = agent, pc_project = project,
                  pc_path = path, pc_claimed_at = now db, pc_expires_at = ex, pc_released = False\<rparr>"
    let ?db = "db\<lparr>chiasm_path_claims := snd (insert_row ?c (chiasm_path_claims db))\<rparr>"
    have "insert_claims task agent project paths ttl (ids @ [tseq (chiasm_path_claims db) + 1]) ?db = (r, db')"
      using Cons.prems ex by (simp add: insert_row_def)
    from Cons.IH [OF this] obtain new where new: "chiasm_tasks db' = chiasm_tasks db"
        "chiasm_task_dependencies db' = chiasm_task_dependencies db" "chiasm_task_updates db' = chiasm_task_updates db"
        "trows (chiasm_path_claims db') = trows (chiasm_path_claims db) @ ?c (tseq (chiasm_path_claims db) + 1) # new"
        "\<forall>c\<in>set new. pc_task_id c = task" by (auto simp: table_simps)
    then show ?thesis using ex(2) by auto
  qed
qed simp

lemma inv_create_claims [step_inv]:
  assumes "chiasm_inv db"
  shows "chiasm_inv (snd (create_claims_handler user i agent project paths ttl db))"
proof -
  have "chiasm_inv (snd (create_claims i agent project paths s db))" for s
  proof -
    obtain r db1 where ins: "insert_claims i agent project paths s [] db = (r, db1)" by fastforce
    have "chiasm_inv db1"
      by (rule inv_claims [OF assms])
         (use insert_claims_keeps [OF ins] chiasm_invD(4) [OF assms] in auto)
    then show ?thesis by (auto simp: create_claims_def ins intro: inv_emit split: sum.split)
  qed
  then show ?thesis using assms by (auto simp: create_claims_handler_def split: sum.split)
qed

lemma inv_release [step_inv]: "chiasm_inv db \<Longrightarrow> chiasm_inv (snd (release_claims i db))"
  unfolding release_claims_def snd_conv
  by (rule inv_emit, rule inv_claims) (auto simp: table_simps dest: chiasm_invD(4))

lemma inv_set_field [step_inv]:
  assumes "chiasm_inv db" and "\<And>t. tk_id (f t) = tk_id t \<and> tk_user_id (f t) = tk_user_id t"
    and "\<And>t. tk_status t \<in> set VALID_STATUSES \<Longrightarrow> tk_status (f t) \<in> set VALID_STATUSES"
  shows "chiasm_inv (snd (set_field f i user action payload db))"
  using assms inv_upd_task [OF assms] by (auto simp: set_field_def Let_def intro: inv_emit split: sum.split)

lemma apply_update_keeps [simp]:
  "tk_id (apply_update req at t) = tk_id t" "tk_user_id (apply_update req at t) = tk_user_id t"
  "tk_status (apply_update req at t) = (case ut_status req of Some s \<Rightarrow> s | None \<Rightarrow> tk_status t)"
  by (simp_all add: apply_update_def)

lemma inv_update_task [step_inv]:
  assumes "chiasm_inv db"
  shows "chiasm_inv (snd (update_task i req user db))"
proof (cases "case ut_status req of None \<Rightarrow> Ok () | Some s \<Rightarrow> validate_status s")
  case (Inr u)
  then have "chiasm_inv (upd_task (owned i user) (apply_update req at) db)" for at
    by (intro inv_upd_task assms) (auto simp: validate_status_def split: option.splits if_splits)
  then show ?thesis using Inr assms unfolding update_task_def
    by (simp add: Let_def inv_emit inv_history split: sum.split option.split)
qed (use assms in \<open>simp add: update_task_def\<close>)

lemma valid_statuses [simp]:
  "''active'' \<in> set VALID_STATUSES" "''stale'' \<in> set VALID_STATUSES" "''queued'' \<in> set VALID_STATUSES"
  by (simp_all add: VALID_STATUSES_def)

lemma inv_heartbeat [step_inv]: "chiasm_inv db \<Longrightarrow> chiasm_inv (snd (record_heartbeat i user db))"
proof -
  assume inv: "chiasm_inv db"
  let ?db1 = "upd_task (owned i user) (\<lambda>t. t\<lparr>tk_last_heartbeat := Some (now db), tk_updated_at := now db\<rparr>) db"
  have i1: "chiasm_inv ?db1" by (rule inv_upd_task [OF inv]) auto
  have "chiasm_inv (?db1\<lparr>chiasm_path_claims := update_where P (\<lambda>c. c\<lparr>pc_expires_at := e\<rparr>) (chiasm_path_claims ?db1)\<rparr>)" for P e
    by (rule inv_claims [OF i1]) (use chiasm_invD(4) [OF i1] in \<open>auto simp: table_simps\<close>)
  then show ?thesis using inv by (simp add: record_heartbeat_def Let_def)
qed

lemma inv_create_task [step_inv]: "chiasm_inv db \<Longrightarrow> chiasm_inv (snd (create_task req db))"
  unfolding create_task_def Let_def
  by (auto simp: split_beta validate_status_def intro!: inv_emit inv_insert_task split: sum.split option.split if_splits)

lemma inv_enqueue [step_inv]: "chiasm_inv db \<Longrightarrow> chiasm_inv (snd (enqueue_task project title summary user db))"
  unfolding enqueue_task_def Let_def
  by (auto simp: split_beta intro!: inv_emit inv_insert_task split: sum.split)

lemma inv_claim_next [step_inv]: "chiasm_inv db \<Longrightarrow> chiasm_inv (snd (claim_next_task agent project user db))"
  unfolding claim_next_task_def Let_def
  by (auto intro!: inv_emit inv_upd_task split: sum.split list.split)

lemma inv_stale_one [step_inv]: "chiasm_inv db \<Longrightarrow> chiasm_inv (stale_one P i summary db)"
  unfolding stale_one_def by (rule inv_emit, rule inv_release, rule inv_history, rule inv_upd_task) auto

lemma inv_stale_loop: "chiasm_inv db \<Longrightarrow> chiasm_inv (snd (stale_loop st ids acc db))"
  by (induction ids arbitrary: acc db) (auto simp: Let_def inv_stale_one split: sum.split)

lemma inv_unblock_loop: "chiasm_inv db \<Longrightarrow> chiasm_inv (snd (unblock_loop c ds acc db))"
proof (induction c ds acc db rule: unblock_loop.induct)
  case (2 c task_id owner ds acc db)
  let ?req = "\<lparr>ut_title = None, ut_status = Some ''active'',
            ut_summary = Some ''auto-unblocked: all dependencies completed'', ut_agent = None\<rparr>"
  obtain r db1 where u: "update_task task_id ?req owner db = (r, db1)" by fastforce
  have "chiasm_inv db1" using inv_update_task [OF 2(3), of task_id ?req owner] u by simp
  then show ?case using 2 u by (cases r) (auto intro: inv_emit)
qed simp

section \<open>The machine\<close>

datatype request =
    CreateTask create_task_request
  | UpdateTask int update_task_request
  | DeleteTask int
  | SubmitOutput int string
  | SubmitFeedback int string
  | GeneratePlan int
  | AddDeps int "int list"
  | RemoveDep int int
  | CreateClaims int string string "string list" "int option"
  | ReleaseClaims int
  | Heartbeat int
  | Enqueue string string "string option"
  | ClaimNext string "string option"

record planner =
  pl_display :: "json \<Rightarrow> string"
  pl_env :: "string \<Rightarrow> string option"
  pl_system :: string
  pl_template :: string
  pl_call :: "string \<Rightarrow> json \<Rightarrow> string option \<Rightarrow> string + string"

text \<open>What a request of a user does to the database.\<close>

fun handle :: "planner \<Rightarrow> int \<Rightarrow> request \<Rightarrow> chiasm_db \<Rightarrow> chiasm_db" where
  "handle pl user (CreateTask body) db = snd (create_task_handler user body db)"
| "handle pl user (UpdateTask i body) db = snd (update_task i body user db)"
| "handle pl user (DeleteTask i) db = delete_task i user db"
| "handle pl user (SubmitOutput i out) db = snd (submit_output i out user db)"
| "handle pl user (SubmitFeedback i fb) db = snd (submit_feedback i fb user db)"
| "handle pl user (GeneratePlan i) db =
     snd (generate_plan (pl_display pl) (pl_env pl) (pl_system pl) (pl_template pl) (pl_call pl) i user db)"
| "handle pl user (AddDeps i ds) db = snd (add_deps_handler user i ds db)"
| "handle pl user (RemoveDep i d) db = snd (remove_dep_handler user i d db)"
| "handle pl user (CreateClaims i agent project paths ttl) db =
     snd (create_claims_handler user i agent project paths ttl db)"
| "handle pl user (ReleaseClaims i) db = snd (release_claims_handler user i db)"
| "handle pl user (Heartbeat i) db = snd (record_heartbeat i user db)"
| "handle pl user (Enqueue project title summary) db = snd (enqueue_task project title summary user db)"
| "handle pl user (ClaimNext agent project) db = snd (claim_next_task agent project user db)"

inductive chiasm_step :: "chiasm_db \<Rightarrow> chiasm_db \<Rightarrow> bool" where
  request: "chiasm_step db (handle pl user req db)"
| sweep: "chiasm_step db (snd (mark_stale_tasks late_graced late idle_secs db))"
| unblock: "chiasm_step db (snd (check_and_unblock completed db))"
| time: "chiasm_step db (db\<lparr>now := t\<rparr>)"

lemma inv_handle: "chiasm_inv db \<Longrightarrow> chiasm_inv (handle pl user req db)"
proof (cases req)
  case (GeneratePlan i)
  assume inv: "chiasm_inv db"
  have "chiasm_inv (snd (set_field (\<lambda>t. t\<lparr>tk_plan := p, tk_updated_at := at\<rparr>) i user a b db))" for p at a b
    by (rule inv_set_field [OF inv]) auto
  then show ?thesis using inv GeneratePlan
    by (simp add: generate_plan_def Let_def split: sum.split option.split prod.split)
qed (auto simp: create_task_handler_def release_claims_handler_def submit_output_def submit_feedback_def split_beta
    intro: step_inv split: sum.split)

interpretation chiasm: state_machine chiasm_step chiasm_inv
proof (unfold_locales, goal_cases)
  case (1 db db')
  from 1(2,1) show ?case
    by cases (auto simp: mark_stale_tasks_def check_and_unblock_def
        intro: inv_handle inv_stale_loop inv_unblock_loop chiasm_inv_core simp: core_def)
qed

end
