(* ===== verification/Chiasm_Properties.thy ===== *)
theory Chiasm_Properties
  imports Chiasm_Service
begin

text \<open>
  The properties of Chiasm: the cycle check is exact, the dependency graph stays acyclic and inside a
  tenant in every history of requests, tenants cannot touch each other's rows, the sweep for stale tasks
  marks exactly the overdue ones and frees their paths, and the queue hands out a task once.
\<close>

section \<open>Tenants\<close>

definition tenant_rows :: "int \<Rightarrow> chiasm_db \<Rightarrow> task list \<times> task_update list \<times> dep_row list \<times> path_claim list" where
  "tenant_rows v db =
     (filter (\<lambda>t. tk_user_id t = v) (trows (chiasm_tasks db)),
      filter (\<lambda>h. owns_task db v (tu_task_id h)) (trows (chiasm_task_updates db)),
      filter (\<lambda>d. owns_task db v (dp_task_id d)) (trows (chiasm_task_dependencies db)),
      filter (\<lambda>c. owns_task db v (pc_task_id c)) (trows (chiasm_path_claims db)))"

lemma owns_filter: "owns_task db v i \<longleftrightarrow> (\<exists>t\<in>set (filter (\<lambda>t. tk_user_id t = v) (trows (chiasm_tasks db))). tk_id t = i)"
  by (auto simp: owns_task_def)

lemma tenant_rowsI:
  assumes t: "filter (\<lambda>t. tk_user_id t = v) (trows (chiasm_tasks db')) = filter (\<lambda>t. tk_user_id t = v) (trows (chiasm_tasks db))"
    and "filter (\<lambda>h. owns_task db v (tu_task_id h)) (trows (chiasm_task_updates db'))
      = filter (\<lambda>h. owns_task db v (tu_task_id h)) (trows (chiasm_task_updates db))"
    and "filter (\<lambda>d. owns_task db v (dp_task_id d)) (trows (chiasm_task_dependencies db'))
      = filter (\<lambda>d. owns_task db v (dp_task_id d)) (trows (chiasm_task_dependencies db))"
    and "filter (\<lambda>c. owns_task db v (pc_task_id c)) (trows (chiasm_path_claims db'))
      = filter (\<lambda>c. owns_task db v (pc_task_id c)) (trows (chiasm_path_claims db))"
  shows "tenant_rows v db' = tenant_rows v db"
proof -
  have "owns_task db' v = owns_task db v" using t by (auto simp: fun_eq_iff owns_filter)
  with assms show ?thesis by (simp add: tenant_rows_def)
qed

lemma owner_unique: "chiasm_inv db \<Longrightarrow> owns_task db u i \<Longrightarrow> owns_task db v i \<Longrightarrow> u = v"
  using wf_table_unique [OF chiasm_invD(1)] by (fastforce simp: owns_task_def)

text \<open>The elementary changes by user \<open>u\<close>, seen by another user \<open>v\<close>.\<close>

lemma filter_map_other:
  "(\<And>x. x \<in> set xs \<Longrightarrow> P x \<Longrightarrow> \<not> Q x \<and> \<not> Q (f x)) \<Longrightarrow> filter Q (map (\<lambda>x. if P x then f x else x) xs) = filter Q xs"
  by (induction xs) auto

lemma rows_emit [simp]: "tenant_rows v (emit_chiasm_event a p db) = tenant_rows v db"
  by (rule tenant_rowsI) (simp_all add: table_simps)

lemma rows_upd_task:
  assumes "u \<noteq> v" "\<And>t. tk_user_id (f t) = tk_user_id t"
  shows "tenant_rows v (upd_task (owned i u) f db) = tenant_rows v db"
  by (rule tenant_rowsI) (use assms in \<open>auto simp: table_simps owned_def intro!: filter_map_other\<close>)

lemma rows_history:
  assumes "\<not> owns_task db v i"
  shows "tenant_rows v (add_history i a s m db) = tenant_rows v db"
  by (rule tenant_rowsI) (use assms in \<open>simp_all add: table_simps, simp add: add_history_def insert_row_def\<close>)

lemma rows_insert_task:
  assumes "\<And>i. tk_user_id (mk i) \<noteq> v"
  shows "tenant_rows v (db\<lparr>chiasm_tasks := snd (insert_row mk (chiasm_tasks db))\<rparr>) = tenant_rows v db"
  by (rule tenant_rowsI) (use assms in \<open>simp_all add: table_simps\<close>)

lemma rows_claims:
  assumes "\<not> owns_task db v i" "\<And>c. pc_task_id (f c) = pc_task_id c"
  shows "tenant_rows v (db\<lparr>chiasm_path_claims := update_where (\<lambda>c. pc_task_id c = i \<and> P c) f (chiasm_path_claims db)\<rparr>) = tenant_rows v db"
  by (rule tenant_rowsI) (use assms in \<open>auto simp: table_simps intro!: filter_map_other\<close>)

lemma rows_delete:
  assumes inv: "chiasm_inv db" and "u \<noteq> v"
  shows "tenant_rows v (delete_task i u db) = tenant_rows v db"
proof (cases "owns_task db u i")
  case True
  have no: "\<not> owns_task db v i" using owner_unique [OF inv True] assms(2) by blast
  have "\<not> owns_task db v (dp_task_id d)" if "d \<in> set (trows (chiasm_task_dependencies db))" "dp_depends_on d = i" for d
  proof -
    have "(dp_task_id d, i) \<in> edges db" using that by (auto simp: edges_def)
    then obtain w where "owns_task db w (dp_task_id d)" "owns_task db w i" using chiasm_invD(3) [OF inv] by blast
    then show ?thesis using owner_unique [OF inv] True assms(2) by blast
  qed
  then show ?thesis using no assms(2)
    by (intro tenant_rowsI) (auto simp: delete_task_def table_simps owned_def intro!: filter_cong)
next
  case False
  then have "count_where (owned i u) (chiasm_tasks db) = 0"
    by (auto simp: count_where_def owned_def owns_task_def filter_empty_conv)
  then show ?thesis by (simp add: delete_task_def)
qed

lemma rows_set_field:
  assumes "u \<noteq> v" "\<And>t. tk_user_id (f t) = tk_user_id t"
  shows "tenant_rows v (snd (set_field f i u a p db)) = tenant_rows v db"
  using rows_upd_task [OF assms] by (simp add: set_field_def Let_def split: sum.split)

lemma rows_update:
  assumes inv: "chiasm_inv db" and "u \<noteq> v"
  shows "tenant_rows v (snd (update_task i req u db)) = tenant_rows v db"
proof (cases "find_where (owned i u) (chiasm_tasks db)")
  case None
  then show ?thesis by (simp add: update_task_def split: sum.split)
next
  case (Some cur)
  then have "owns_task db u i" by (auto simp: owns_task_def owned_def dest!: find_where_Some)
  then have "\<not> owns_task db v i" using owner_unique [OF inv] assms(2) by blast
  then have "\<not> owns_task (upd_task (owned i u) (apply_update req (now db)) db) v i"
    by (subst owns_upd) auto
  then show ?thesis using Some rows_upd_task [OF assms(2), of "apply_update req (now db)" i db]
    by (simp add: update_task_def Let_def rows_history split: sum.split)
qed

lemma rows_edges:
  assumes no: "\<not> owns_task db v i" and db': "chiasm_tasks db' = chiasm_tasks db"
      "chiasm_task_updates db' = chiasm_task_updates db" "chiasm_path_claims db' = chiasm_path_claims db"
    and deps: "filter (\<lambda>d. dp_task_id d \<noteq> i) (trows (chiasm_task_dependencies db'))
      = filter (\<lambda>d. dp_task_id d \<noteq> i) (trows (chiasm_task_dependencies db))"
  shows "tenant_rows v db' = tenant_rows v db"
proof (rule tenant_rowsI)
  let ?Q = "\<lambda>d. owns_task db v (dp_task_id d)"
  have "filter ?Q xs = filter ?Q (filter (\<lambda>d. dp_task_id d \<noteq> i) xs)" for xs using no by (auto intro!: filter_cong)
  then show "filter ?Q (trows (chiasm_task_dependencies db')) = filter ?Q (trows (chiasm_task_dependencies db))"
    using deps by metis
qed (use db' in simp_all)

lemma write_dependencies_keeps:
  "write_dependencies i ds db = (r, db') \<Longrightarrow> chiasm_tasks db' = chiasm_tasks db
    \<and> chiasm_task_updates db' = chiasm_task_updates db \<and> chiasm_path_claims db' = chiasm_path_claims db
    \<and> filter (\<lambda>d. dp_task_id d \<noteq> i) (trows (chiasm_task_dependencies db'))
      = filter (\<lambda>d. dp_task_id d \<noteq> i) (trows (chiasm_task_dependencies db))"
proof (induction ds arbitrary: db)
  case (Cons d ds)
  have "filter (\<lambda>d. dp_task_id d \<noteq> i) (trows (chiasm_task_dependencies (insert_edge i d db)))
      = filter (\<lambda>d. dp_task_id d \<noteq> i) (trows (chiasm_task_dependencies db))"
    by (simp add: insert_edge_def table_simps)
  with Cons show ?case by (auto simp: insert_edge_keeps split: if_splits)
qed simp

lemma rows_gated:
  assumes inv: "chiasm_inv db" and uv: "u \<noteq> v" and t: "get_task db i u = Ok t"
  shows "\<not> owns_task db v i"
  using owner_unique [OF inv get_task_owns [OF t]] uv by blast

lemma rows_add_deps:
  assumes "chiasm_inv db" "u \<noteq> v"
  shows "tenant_rows v (snd (add_deps_handler u i ds db)) = tenant_rows v db"
proof (cases "get_task db i u")
  case (Inr t)
  obtain r db' where w: "write_dependencies i ds db = (r, db')" by fastforce
  have "tenant_rows v db' = tenant_rows v db"
    using write_dependencies_keeps [OF w] by (intro rows_edges [OF rows_gated [OF assms Inr]]) auto
  then show ?thesis using Inr w
    by (simp add: add_deps_handler_def add_dependencies_def split: sum.split)
qed (simp add: add_deps_handler_def)

lemma rows_remove_dep:
  assumes "chiasm_inv db" "u \<noteq> v"
  shows "tenant_rows v (snd (remove_dep_handler u i d db)) = tenant_rows v db"
proof (cases "get_task db i u")
  case (Inr t)
  show ?thesis using Inr
    by (simp add: remove_dep_handler_def remove_dependency_def Let_def)
       (rule rows_edges [OF rows_gated [OF assms Inr]], auto simp: table_simps intro!: filter_cong)
qed (simp add: remove_dep_handler_def)

lemma rows_create_claims:
  assumes "chiasm_inv db" "u \<noteq> v"
  shows "tenant_rows v (snd (create_claims_handler u i agent project paths ttl db)) = tenant_rows v db"
proof (cases "get_task db i u")
  case (Inr t)
  have no: "\<not> owns_task db v i" by (rule rows_gated [OF assms Inr])
  have "tenant_rows v (snd (create_claims i agent project paths s db)) = tenant_rows v db" for s
  proof -
    obtain r db1 where ins: "insert_claims i agent project paths s [] db = (r, db1)" by fastforce
    have "tenant_rows v db1 = tenant_rows v db"
      using insert_claims_keeps [OF ins] no by (intro tenant_rowsI) (auto simp: filter_empty_conv)
    then show ?thesis by (simp add: create_claims_def ins split: sum.split)
  qed
  then show ?thesis using Inr by (simp add: create_claims_handler_def)
qed (simp add: create_claims_handler_def)

lemma rows_release:
  assumes "\<not> owns_task db v i"
  shows "tenant_rows v (snd (release_claims i db)) = tenant_rows v db"
  using rows_claims [OF assms, of "\<lambda>c. c\<lparr>pc_released := True\<rparr>" "\<lambda>_. True"] by (simp add: release_claims_def)

lemma rows_heartbeat:
  assumes inv: "chiasm_inv db" and uv: "u \<noteq> v"
  shows "tenant_rows v (snd (record_heartbeat i u db)) = tenant_rows v db"
proof (cases "count_where (owned i u) (chiasm_tasks db) = 0")
  case False
  then have "owns_task db u i" by (auto simp: count_where_def owns_task_def owned_def filter_empty_conv)
  then have no: "\<not> owns_task db v i" using owner_unique [OF inv] uv by blast
  let ?f = "\<lambda>t. t\<lparr>tk_last_heartbeat := Some (now db), tk_updated_at := now db\<rparr>"
  have "\<not> owns_task (upd_task (owned i u) ?f db) v i" using no by (subst owns_upd) auto
  from rows_claims [OF this, of "\<lambda>c. c\<lparr>pc_expires_at := now db + 600\<rparr>" "\<lambda>c. \<not> pc_released c"]
  show ?thesis using False rows_upd_task [OF uv, of ?f i db]
    by (simp add: record_heartbeat_def Let_def)
qed (simp add: record_heartbeat_def)

lemma rows_create:
  assumes "u \<noteq> v"
  shows "tenant_rows v (handle pl u (CreateTask body) db) = tenant_rows v db"
    "tenant_rows v (handle pl u (Enqueue project title summary) db) = tenant_rows v db"
  using assms
  by (simp_all add: create_task_handler_def create_task_def enqueue_task_def Let_def split_beta rows_insert_task
      split: sum.split)

lemma rows_claim_next:
  assumes "u \<noteq> v"
  shows "tenant_rows v (snd (claim_next_task agent project u db)) = tenant_rows v db"
  using rows_upd_task [OF assms] by (simp add: claim_next_task_def Let_def split: list.split sum.split)

lemma rows_plan:
  assumes "u \<noteq> v"
  shows "tenant_rows v (handle pl u (GeneratePlan i) db) = tenant_rows v db"
  using rows_set_field [OF assms] by (simp add: generate_plan_def Let_def split: sum.split option.split prod.split)

lemma rows_handle:
  assumes "chiasm_inv db" "u \<noteq> v"
  shows "tenant_rows v (handle pl u req db) = tenant_rows v db"
proof (cases req)
  case (ReleaseClaims i)
  then show ?thesis using rows_release rows_gated [OF assms]
    by (simp add: release_claims_handler_def split_beta split: sum.split)
qed (use assms in \<open>simp_all add: rows_update rows_delete rows_add_deps rows_remove_dep rows_create_claims
      rows_heartbeat rows_claim_next rows_create rows_plan rows_set_field submit_output_def submit_feedback_def
      del: handle.simps(1,6,12)\<close>)

definition no_tasks :: "chiasm_db \<Rightarrow> bool" where
  "no_tasks db \<longleftrightarrow> chiasm_tasks db = empty_table \<and> trows (chiasm_task_dependencies db) = []
     \<and> trows (chiasm_path_claims db) = []"

lemma reachable_inv: "no_tasks db0 \<Longrightarrow> chiasm_step\<^sup>*\<^sup>* db0 db \<Longrightarrow> chiasm_inv db"
  by (rule chiasm.steps_keep, assumption) (auto simp: no_tasks_def chiasm_inv_def edges_def acyclic_def empty_table_def wf_table_def)

section \<open>Properties of the graph and of tenants\<close>

text \<open>
  Property C31. The check for circular dependencies is exact. On every table of edges, cyclic ones included,
  the breadth-first search ends, and it reports a cycle exactly when the target already leads to the task.
\<close>

theorem has_circular_dependency_exact:
  "has_circular_dependency db task_id target_id \<longleftrightarrow> (target_id, task_id) \<in> (edges db)\<^sup>*"
  by (rule has_circular_dependency_reach)

text \<open>A small history: two tasks of user 1, the first waiting for the second, and one of user 2.\<close>

definition demo_planner :: planner where
  "demo_planner = \<lparr>pl_display = (\<lambda>_. []), pl_env = (\<lambda>_. None), pl_system = [], pl_template = [], pl_call = (\<lambda>_ _ _. Inl [])\<rparr>"

definition demo_start :: chiasm_db where
  "demo_start = \<lparr>now = 100, axon_events = empty_table, axon_channels = empty_table, axon_subscriptions = empty_table,
     axon_cursors = [], chiasm_tasks = empty_table, chiasm_task_updates = empty_table,
     chiasm_task_dependencies = empty_table, chiasm_path_claims = empty_table, chiasm_agent_keys = empty_table\<rparr>"

definition demo_tasks :: chiasm_db where
  "demo_tasks = handle demo_planner 1 (AddDeps 1 [2]) (handle demo_planner 2 (Enqueue ''q'' ''c'' None)
     (handle demo_planner 1 (Enqueue ''p'' ''b'' None) (handle demo_planner 1 (Enqueue ''p'' ''a'' None) demo_start)))"

lemma demo_history: "no_tasks demo_start" "chiasm_step\<^sup>*\<^sup>* demo_start demo_tasks"
proof -
  show "no_tasks demo_start" by (simp add: no_tasks_def demo_start_def empty_table_def)
  have step: "chiasm_step\<^sup>*\<^sup>* a (handle pl u req b)" if "chiasm_step\<^sup>*\<^sup>* a b" for a b pl u req
    using that chiasm_step.request by (rule rtranclp.rtrancl_into_rtrancl)
  show "chiasm_step\<^sup>*\<^sup>* demo_start demo_tasks" unfolding demo_tasks_def by (rule step)+ simp
qed



text \<open>
  Property C32. Tenants are isolated: in every reachable state, no request of one user adds, changes or
  removes a task of another, nor a history entry, a dependency or a path claim of another's task, whatever
  ids the request names.
\<close>

theorem chiasm_tenant_isolation:
  assumes "no_tasks db0" "chiasm_step\<^sup>*\<^sup>* db0 db" "u \<noteq> v"
  shows "tenant_rows v (handle pl u req db) = tenant_rows v db"
  using rows_handle [OF reachable_inv [OF assms(1,2)] assms(3)] .

theorem chiasm_tenant_isolation_witness:
  "tenant_rows 1 (handle demo_planner 2 (DeleteTask 1) demo_tasks) = tenant_rows 1 demo_tasks"
  by (rule chiasm_tenant_isolation [OF demo_history]) simp

section \<open>The sweep\<close>

definition made_stale :: "int \<Rightarrow> task \<Rightarrow> task" where
  "made_stale at t = t\<lparr>tk_status := ''stale'', tk_summary := Some (stale_summary t), tk_updated_at := at\<rparr>"

lemma is_stale_made: "\<not> is_stale lg l idle at' (made_stale at t)"
  by (simp add: is_stale_def made_stale_def)

lemma stale_one_rows:
  "chiasm_tasks (stale_one P i m db) = update_where P (\<lambda>t. t\<lparr>tk_status := ''stale'', tk_summary := Some m, tk_updated_at := now db\<rparr>) (chiasm_tasks db)"
  "chiasm_path_claims (stale_one P i m db) = update_where (\<lambda>c. pc_task_id c = i) (\<lambda>c. c\<lparr>pc_released := True\<rparr>) (chiasm_path_claims db)"
  "now (stale_one P i m db) = now db"
  by (simp_all add: stale_one_def release_claims_def table_simps)

text \<open>The loop from a point where the tasks still to be marked are in \<open>ts\<close>.\<close>

lemma stale_loop_exact:
  assumes wf: "wf_table tk_id (chiasm_tasks db)" and ts: "set ts \<subseteq> set (trows (chiasm_tasks db))" "distinct ts"
    and st: "\<forall>t\<in>set ts. is_stale lg l idle (now db) t"
  shows "\<exists>db'. stale_loop (is_stale lg l idle) (map (\<lambda>t. (tk_id t, tk_user_id t, stale_summary t)) ts) acc db
      = (acc @ map (made_stale (now db)) ts, db')
    \<and> trows (chiasm_tasks db') = map (\<lambda>t. if t \<in> set ts then made_stale (now db) t else t) (trows (chiasm_tasks db))
    \<and> trows (chiasm_path_claims db')
      = map (\<lambda>c. if pc_task_id c \<in> tk_id ` set ts then c\<lparr>pc_released := True\<rparr> else c) (trows (chiasm_path_claims db))"
  using assms
proof (induction ts arbitrary: acc db)
  case (Cons x ts)
  let ?P = "\<lambda>t. tk_id t = tk_id x \<and> is_stale lg l idle (now db) t"
  let ?db = "stale_one ?P (tk_id x) (stale_summary x) db"
  have x: "x \<in> set (trows (chiasm_tasks db))" "is_stale lg l idle (now db) x" using Cons.prems by auto
  have only: "t = x" if "t \<in> set (trows (chiasm_tasks db))" "tk_id t = tk_id x" for t
    using wf_table_unique [OF Cons.prems(1) that(1) x(1) that(2)] .
  have rows: "trows (chiasm_tasks ?db) = map (\<lambda>t. if t = x then made_stale (now db) x else t) (trows (chiasm_tasks db))"
    using x only by (auto simp: stale_one_rows table_simps made_stale_def)
  have wf': "wf_table tk_id (chiasm_tasks ?db)"
    using Cons.prems(1) by (simp add: stale_one_rows wf_update_where)
  have sub: "set ts \<subseteq> set (trows (chiasm_tasks ?db))" using Cons.prems(2,3) by (auto simp: rows)
  have hit: "count_where ?P (chiasm_tasks db) \<noteq> 0" using x by (auto simp: count_where_def filter_empty_conv)
  have get: "get_task ?db (tk_id x) (tk_user_id x) = Ok (made_stale (now db) x)"
  proof -
    have "made_stale (now db) x \<in> set (trows (chiasm_tasks ?db))" using x(1) by (auto simp: rows)
    then have "find_where (\<lambda>t. tk_id t = tk_id x \<and> tk_user_id t = tk_user_id x) (chiasm_tasks ?db) = Some (made_stale (now db) x)"
      using wf_table_find2 [OF wf', of "made_stale (now db) x"] by (simp add: made_stale_def)
    then show ?thesis by (simp add: get_task_def row_to_task_def made_stale_def)
  qed
  from Cons.IH [OF wf' sub, of "acc @ [made_stale (now db) x]"] Cons.prems(3,4) obtain db' where
    run: "stale_loop (is_stale lg l idle) (map (\<lambda>t. (tk_id t, tk_user_id t, stale_summary t)) ts) (acc @ [made_stale (now db) x]) ?db
      = ((acc @ [made_stale (now db) x]) @ map (made_stale (now db)) ts, db')"
    and T: "trows (chiasm_tasks db') = map (\<lambda>t. if t \<in> set ts then made_stale (now db) t else t) (trows (chiasm_tasks ?db))"
    and C: "trows (chiasm_path_claims db')
      = map (\<lambda>c. if pc_task_id c \<in> tk_id ` set ts then c\<lparr>pc_released := True\<rparr> else c) (trows (chiasm_path_claims ?db))"
    by (auto simp: stale_one_rows)
  have "made_stale (now db) x \<notin> set ts" using Cons.prems(4) is_stale_made by auto
  then have "trows (chiasm_tasks db') = map (\<lambda>t. if t \<in> set (x # ts) then made_stale (now db) t else t) (trows (chiasm_tasks db))"
    unfolding T rows by auto
  moreover have "trows (chiasm_path_claims db') = map (\<lambda>c. if pc_task_id c \<in> tk_id ` set (x # ts) then c\<lparr>pc_released := True\<rparr> else c)
      (trows (chiasm_path_claims db))" unfolding C stale_one_rows table_simps by auto
  moreover have "stale_loop (is_stale lg l idle) (map (\<lambda>t. (tk_id t, tk_user_id t, stale_summary t)) (x # ts)) acc db
      = (acc @ map (made_stale (now db)) (x # ts), db')" using hit get run by (simp add: Let_def)
  ultimately show ?case by blast
qed simp

text \<open>
  The sweep for stale tasks is exact. It marks stale, with the reason, precisely the active or
  paused tasks whose heartbeat is overdue or that never sent one and have been idle; a task in any other
  state, or with a heartbeat in time, is untouched. It releases all path claims of the tasks it marks and
  no others, and it returns the marked tasks, in order.
\<close>

lemma mark_stale_tasks_exact:
  assumes wf: "wf_table tk_id (chiasm_tasks db)"
  shows "\<exists>db'. mark_stale_tasks late_graced late idle_secs db
        = (map (made_stale (now db)) (filter (is_stale late_graced late idle_secs (now db)) (trows (chiasm_tasks db))), db')
    \<and> trows (chiasm_tasks db')
      = map (\<lambda>t. if is_stale late_graced late idle_secs (now db) t then made_stale (now db) t else t) (trows (chiasm_tasks db))
    \<and> trows (chiasm_path_claims db')
      = map (\<lambda>c. if \<exists>t\<in>set (trows (chiasm_tasks db)). is_stale late_graced late idle_secs (now db) t \<and> tk_id t = pc_task_id c
               then c\<lparr>pc_released := True\<rparr> else c) (trows (chiasm_path_claims db))"
proof -
  let ?S = "is_stale late_graced late idle_secs (now db)"
  let ?ts = "filter ?S (trows (chiasm_tasks db))"
  have "distinct ?ts" using wf_table_distinct [OF wf] by (simp add: distinct_map)
  moreover have "set ?ts \<subseteq> set (trows (chiasm_tasks db))" "\<forall>t\<in>set ?ts. ?S t" by auto
  ultimately obtain db' where run: "mark_stale_tasks late_graced late idle_secs db = (map (made_stale (now db)) ?ts, db')"
    and T: "trows (chiasm_tasks db') = map (\<lambda>t. if t \<in> set ?ts then made_stale (now db) t else t) (trows (chiasm_tasks db))"
    and C: "trows (chiasm_path_claims db') = map (\<lambda>c. if pc_task_id c \<in> tk_id ` set ?ts
        then c\<lparr>pc_released := True\<rparr> else c) (trows (chiasm_path_claims db))"
    using stale_loop_exact [OF wf, of ?ts late_graced late idle_secs "[]"]
    unfolding mark_stale_tasks_def select_where_def append_Nil by blast
  have "trows (chiasm_path_claims db') = map (\<lambda>c. if \<exists>t\<in>set (trows (chiasm_tasks db)). ?S t \<and> tk_id t = pc_task_id c
        then c\<lparr>pc_released := True\<rparr> else c) (trows (chiasm_path_claims db))"
    unfolding C by (rule map_cong [OF refl], rule if_cong) (auto simp: image_iff)
  moreover have "trows (chiasm_tasks db') = map (\<lambda>t. if ?S t then made_stale (now db) t else t) (trows (chiasm_tasks db))"
    unfolding T by (rule map_cong) auto
  ultimately show ?thesis using run by blast
qed

text \<open>A queued task of user 1 is claimed at time 100, claims a path, and is never heard of again.\<close>

definition silent_task :: chiasm_db where
  "silent_task = (handle demo_planner 1 (CreateClaims 1 ''ann'' ''p'' [''a.rs''] None)
     (handle demo_planner 1 (ClaimNext ''ann'' (Some ''p'')) demo_tasks))\<lparr>now := 900\<rparr>"

lemma mark_stale_tasks_exact_witness:
  "map tk_id (fst (mark_stale_tasks (\<lambda>h t s. t - h > 2 * s) (\<lambda>u t s. t - u > s) 3600 silent_task)) = [1]
   \<and> check_conflicts (snd (mark_stale_tasks (\<lambda>h t s. t - h > 2 * s) (\<lambda>u t s. t - u > s) 3600 silent_task)) ''p'' [''a.rs''] None 1 = []"
proof -
  let ?r = "mark_stale_tasks (\<lambda>h t s. t - h > 2 * s) (\<lambda>u t s. t - u > s) 3600 silent_task"
  have "chiasm_inv silent_task"
    unfolding silent_task_def
    by (rule chiasm_inv_core [OF _ inv_handle [OF inv_handle [OF reachable_inv [OF demo_history]]]])
       (simp add: core_def del: handle.simps)
  then have wf: "wf_table tk_id (chiasm_tasks silent_task)" by (rule chiasm_invD)
  have st: "map tk_id (filter (is_stale (\<lambda>h t s. t - h > 2 * s) (\<lambda>u t s. t - u > s) 3600 (now silent_task)) (trows (chiasm_tasks silent_task))) = [1]"
    "list_all (\<lambda>c. pc_task_id c = 1) (trows (chiasm_path_claims silent_task))" by code_simp+
  from mark_stale_tasks_exact [OF wf, of "\<lambda>h t s. t - h > 2 * s" "\<lambda>u t s. t - u > s" 3600] obtain db' where
    r: "?r = (map (made_stale (now silent_task)) (filter (is_stale (\<lambda>h t s. t - h > 2 * s) (\<lambda>u t s. t - u > s) 3600 (now silent_task))
        (trows (chiasm_tasks silent_task))), db')"
    and C: "trows (chiasm_path_claims db') = map (\<lambda>c. if \<exists>t\<in>set (trows (chiasm_tasks silent_task)).
        is_stale (\<lambda>h t s. t - h > 2 * s) (\<lambda>u t s. t - u > s) 3600 (now silent_task) t \<and> tk_id t = pc_task_id c
               then c\<lparr>pc_released := True\<rparr> else c) (trows (chiasm_path_claims silent_task))" by blast
  have "\<exists>t\<in>set (trows (chiasm_tasks silent_task)). is_stale (\<lambda>h t s. t - h > 2 * s) (\<lambda>u t s. t - u > s) 3600 (now silent_task) t \<and> tk_id t = 1"
    by code_simp
  then have "\<forall>c\<in>set (trows (chiasm_path_claims db')). pc_released c"
    using st(2) unfolding C by (auto simp: list_all_iff)
  then have "check_conflicts db' ''p'' [''a.rs''] None 1 = []"
    by (auto simp: check_conflicts_def select_where_def active_claim_def filter_empty_conv)
  then show ?thesis using r st(1) by (simp add: made_stale_def comp_def)
qed

section \<open>The queue\<close>

text \<open>
  The work queue is exclusive and fair. A claim returns nothing exactly when the user has no
  unassigned queued task (of the project, if one is named). Otherwise it returns the claimed task, which is
  one with the earliest creation time, now active and assigned to the agent with a fresh heartbeat; no other
  row changes, and that task cannot be claimed again.
\<close>

lemma claim_next_task_exact:
  assumes wf: "wf_table tk_id (chiasm_tasks db)"
  shows "case claim_next_task agent project user db of
      (Inr None, db') \<Rightarrow> db' = db \<and> (\<forall>t\<in>set (trows (chiasm_tasks db)). \<not> claimable project user t)
    | (Inr (Some t'), db') \<Rightarrow> (\<exists>t\<in>set (trows (chiasm_tasks db)). claimable project user t
        \<and> (\<forall>x\<in>set (trows (chiasm_tasks db)). claimable project user x \<longrightarrow> tk_created_at t \<le> tk_created_at x)
        \<and> t' = t\<lparr>tk_agent := agent, tk_status := ''active'', tk_assigned := True,
              tk_last_heartbeat := Some (now db), tk_updated_at := now db\<rparr>
        \<and> trows (chiasm_tasks db') = map (\<lambda>x. if x = t then t' else x) (trows (chiasm_tasks db))
        \<and> \<not> claimable project user t')
    | (Inl _, _) \<Rightarrow> False"
proof (cases "sort_key tk_created_at (select_where (claimable project user) (chiasm_tasks db))")
  case Nil
  then have "select_where (claimable project user) (chiasm_tasks db) = []" by (metis length_0_conv length_sort)
  with Nil show ?thesis by (simp add: claim_next_task_def select_where_def filter_empty_conv)
next
  case (Cons t ts)
  let ?s = "sort_key tk_created_at (select_where (claimable project user) (chiasm_tasks db))"
  let ?f = "\<lambda>t. t\<lparr>tk_agent := agent, tk_status := ''active'', tk_assigned := True, tk_last_heartbeat := Some (now db), tk_updated_at := now db\<rparr>"
  have set: "set ?s = {x \<in> set (trows (chiasm_tasks db)). claimable project user x}" by (auto simp: select_where_def)
  have "t \<in> set ?s" "\<forall>x\<in>set ?s. tk_created_at t \<le> tk_created_at x"
    using Cons sorted_sort_key [of tk_created_at "select_where (claimable project user) (chiasm_tasks db)"] by auto
  then have t: "t \<in> set (trows (chiasm_tasks db))" "claimable project user t"
    "\<forall>x\<in>set (trows (chiasm_tasks db)). claimable project user x \<longrightarrow> tk_created_at t \<le> tk_created_at x"
    unfolding set by auto
  let ?db = "upd_task (owned (tk_id t) user) ?f db"
  have "x = t" if "x \<in> set (trows (chiasm_tasks db))" "tk_id x = tk_id t" for x
    using wf_table_unique [OF wf that(1) t(1) that(2)] .
  then have rows: "trows (chiasm_tasks ?db) = map (\<lambda>x. if x = t then ?f t else x) (trows (chiasm_tasks db))"
    using t(2) by (auto simp: table_simps owned_def claimable_def)
  have "wf_table tk_id (chiasm_tasks ?db)" using wf by (simp add: table_simps wf_update_where)
  from wf_table_find2 [OF this, of "?f t" "\<lambda>x. tk_user_id x = user"]
  have "find_where (\<lambda>x. tk_id x = tk_id t \<and> tk_user_id x = user) (chiasm_tasks ?db) = Some (?f t)"
    using t(1,2) by (simp add: rows claimable_def)
  then have "get_task ?db (tk_id t) user = Ok (?f t)" using t(2) by (simp add: get_task_def row_to_task_def claimable_def)
  with Cons have "\<exists>e. claim_next_task agent project user db = (Ok (Some (?f t)), emit_chiasm_event ''task.claimed'' e ?db)"
    by (simp add: claim_next_task_def) blast
  then obtain e where c: "claim_next_task agent project user db = (Ok (Some (?f t)), emit_chiasm_event ''task.claimed'' e ?db)" ..
  have rows': "trows (chiasm_tasks (emit_chiasm_event ''task.claimed'' e ?db)) = map (\<lambda>x. if x = t then ?f t else x) (trows (chiasm_tasks db))"
    using rows by (simp add: emit_keeps(1))
  have "\<not> claimable project user (?f t)" by (simp add: claimable_def)
  with t rows' show ?thesis unfolding c prod.case sum.case option.case by blast
qed

lemma claim_next_task_exact_witness:
  "\<exists>t'. fst (claim_next_task ''ann'' (Some ''p'') 1 demo_tasks) = Ok (Some t') \<and> tk_id t' = 1 \<and> tk_agent t' = ''ann''"
proof -
  have wf: "wf_table tk_id (chiasm_tasks demo_tasks)" by (rule chiasm_invD [OF reachable_inv [OF demo_history]])
  have "map_sum id (map_option tk_id) (fst (claim_next_task ''ann'' (Some ''p'') 1 demo_tasks)) = Ok (Some 1)" by code_simp
  then obtain t' db' where c: "claim_next_task ''ann'' (Some ''p'') 1 demo_tasks = (Ok (Some t'), db')" "tk_id t' = 1"
    by (cases "claim_next_task ''ann'' (Some ''p'') 1 demo_tasks"; cases "fst (claim_next_task ''ann'' (Some ''p'') 1 demo_tasks)") auto
  with claim_next_task_exact [OF wf, where agent = "''ann''" and project = "Some ''p''" and user = 1] show ?thesis by auto
qed

section \<open>What the code does not promise\<close>

text \<open>
  A heartbeat renews every unreleased claim of the task, also one that has expired: its path may be claimed
  by another task by then, and both claims are active afterwards.
\<close>

lemma heartbeat_renews_expired_claims:
  assumes "record_heartbeat i user db = (Ok (), db')" "c \<in> set (trows (chiasm_path_claims db))"
    "pc_task_id c = i" "\<not> pc_released c"
  shows "\<exists>c'\<in>set (trows (chiasm_path_claims db')). pc_id c' = pc_id c \<and> pc_path c' = pc_path c \<and> active_claim db' c'"
  using assms
  by (auto simp: record_heartbeat_def Let_def table_simps active_claim_def split: if_splits intro!: bexI [of _ "c\<lparr>pc_expires_at := now db + 600\<rparr>"])

text \<open>
  Two calls of \<^verbatim>\<open>add_dependencies\<close> whose checks both run before the first write can close a cycle, because the
  check and the write are separate database calls.
\<close>

lemma concurrent_adds_make_a_cycle:
  "\<exists>db db1 db2. chiasm_inv db \<and> check_dependencies db 1 [2] 1 = Ok () \<and> check_dependencies db 2 [1] 1 = Ok ()
    \<and> write_dependencies 1 [2] db = (Ok (), db1) \<and> write_dependencies 2 [1] db1 = (Ok (), db2) \<and> \<not> acyclic (edges db2)"
proof -
  let ?db = "handle demo_planner 1 (Enqueue ''p'' ''b'' None) (handle demo_planner 1 (Enqueue ''p'' ''a'' None) demo_start)"
  have inv: "chiasm_inv ?db" using reachable_inv [OF demo_history(1)] inv_handle by blast
  have ok: "check_dependencies ?db 1 [2] 1 = Ok ()" "check_dependencies ?db 2 [1] 1 = Ok ()" by code_simp+
  have "owns_task ?db 1 1" "owns_task ?db 1 2" by code_simp+
  then have ex: "task_exists ?db 1" "task_exists ?db 2" by (auto dest: owns_task_exists)
  from write_dependencies_edges [of "[2]" ?db 1] ex obtain db1 where
    w1: "write_dependencies 1 [2] ?db = (Ok (), db1)" "edges db1 = edges ?db \<union> {1} \<times> set [2]" "chiasm_tasks db1 = chiasm_tasks ?db" by auto
  have "task_exists db1 = task_exists ?db" using w1(3) by (simp add: task_exists_def fun_eq_iff)
  with write_dependencies_edges [of "[1]" db1 2] ex obtain db2 where
    w2: "write_dependencies 2 [1] db1 = (Ok (), db2)" "edges db2 = edges db1 \<union> {2} \<times> set [1]" by auto
  have "(1, 2) \<in> edges db2" "(2, 1) \<in> edges db2" using w1(2) w2(2) by auto
  then have "(1, 1) \<in> (edges db2)\<^sup>+" by (meson r_into_trancl' trancl_into_trancl)
  then have "\<not> acyclic (edges db2)" by (auto simp: acyclic_def)
  with inv ok w1(1) w2(1) show ?thesis by blast
qed

text \<open>
  \<^verbatim>\<open>check_and_unblock\<close> looks at the dependencies only, not at the dependent: whatever the status of the task
  was, completed included, it is active afterwards.
\<close>

lemma unblock_ignores_own_status:
  assumes deps: "dependents db completed = [(i, owner)]" "others_complete db i completed"
    and cur: "owned i owner t" "t \<in> set (trows (chiasm_tasks db))" and wf: "wf_table tk_id (chiasm_tasks db)"
  shows "\<exists>t'\<in>set (trows (chiasm_tasks (snd (check_and_unblock completed db)))). tk_id t' = i \<and> tk_status t' = ''active''"
proof -
  let ?req = "\<lparr>ut_title = None, ut_status = Some ''active'', ut_summary = Some ''auto-unblocked: all dependencies completed'', ut_agent = None\<rparr>"
  have f: "find_where (owned i owner) (chiasm_tasks db) = Some t"
    using wf_table_find2 [OF wf cur(2), of "\<lambda>x. tk_user_id x = owner"] cur(1) by (simp add: owned_def [abs_def])
  have "chiasm_tasks (snd (update_task i ?req owner db)) = update_where (owned i owner) (apply_update ?req (now db)) (chiasm_tasks db)"
    by (simp add: update_task_def f validate_status_def Let_def table_simps split: sum.split)
  moreover have "chiasm_tasks (snd (check_and_unblock completed db)) = chiasm_tasks (snd (update_task i ?req owner db))"
    using deps by (simp add: check_and_unblock_def emit_keeps split: prod.split sum.split)
  moreover have "apply_update ?req (now db) t \<in> set (trows (update_where (owned i owner) (apply_update ?req (now db)) (chiasm_tasks db)))"
    using cur by (auto simp: table_simps)
  ultimately show ?thesis using cur(1) by (intro bexI [of _ "apply_update ?req (now db) t"]) (simp_all add: owned_def)
qed

end
