(* ===== verification/Text_Ops.thy ===== *)
theory Text_Ops
  imports Kleos_Prelude "HOL-Library.Sublist"
begin

text \<open>
  The operations on \<^verbatim>\<open>str\<close> the guards of the system use. A text is its UTF-8 byte string; searching,
  splitting at an ASCII character and replacing act on the bytes as they do on the characters. What needs
  the Unicode tables (lower case and white space) is an argument, the record \<open>unicode\<close>.
\<close>

section \<open>Searching and replacing\<close>

definition starts_with :: "string \<Rightarrow> string \<Rightarrow> bool" where
  "starts_with s p \<longleftrightarrow> take (length p) s = p"

definition ends_with :: "string \<Rightarrow> string \<Rightarrow> bool" where
  "ends_with s p \<longleftrightarrow> length p \<le> length s \<and> drop (length s - length p) s = p"

fun contains :: "string \<Rightarrow> string \<Rightarrow> bool" where
  "contains [] p \<longleftrightarrow> p = []"
| "contains (x # xs) p \<longleftrightarrow> starts_with (x # xs) p \<or> contains xs p"

definition strip_prefix :: "string \<Rightarrow> string \<Rightarrow> string option" where
  "strip_prefix p s = (if starts_with s p then Some (drop (length p) s) else None)"

text \<open>\<^verbatim>\<open>str::replace\<close> with a pattern that is not empty: occurrences from the left, without overlap.\<close>

function str_replace :: "string \<Rightarrow> string \<Rightarrow> string \<Rightarrow> string" where
  "str_replace p r [] = []"
| "str_replace p r (x # xs) =
     (if p \<noteq> [] \<and> starts_with (x # xs) p then r @ str_replace p r (drop (length p) (x # xs))
      else x # str_replace p r xs)"
  by pat_completeness auto
termination
  by (relation "measure (\<lambda>(p, r, s). length s)") (auto simp: neq_Nil_conv)

text \<open>\<^verbatim>\<open>rsplit(c).next()\<close>: the part after the last separator.\<close>

definition after_last :: "char \<Rightarrow> string \<Rightarrow> string" where
  "after_last c s = rev (takeWhile (\<lambda>x. x \<noteq> c) (rev s))"

text \<open>\<^verbatim>\<open>split(',')\<close>; the first argument is the part read so far, reversed.\<close>

fun split_comma :: "string \<Rightarrow> string \<Rightarrow> string list" where
  "split_comma w [] = [rev w]"
| "split_comma w (c # cs) = (if c = CHR '','' then rev w # split_comma [] cs else split_comma (c # w) cs)"

section \<open>Unicode\<close>

record unicode =
  to_lowercase :: "string \<Rightarrow> string"
  split_whitespace :: "string \<Rightarrow> string list"
  str_trim :: "string \<Rightarrow> string"

text \<open>The tables restricted to ASCII, for evaluation.\<close>

definition ascii_space :: "char \<Rightarrow> bool" where
  "ascii_space c \<longleftrightarrow> c \<in> {CHR '' '', CHR 0x09, CHR 0x0A, CHR 0x0B, CHR 0x0C, CHR 0x0D}"

definition to_ascii_lowercase :: "string \<Rightarrow> string" where
  "to_ascii_lowercase = map (\<lambda>c. if CHR ''A'' \<le> c \<and> c \<le> CHR ''Z'' then char_of (of_char c + 32 :: nat) else c)"

fun ascii_words :: "string \<Rightarrow> string \<Rightarrow> string list" where
  "ascii_words w [] = (if w = [] then [] else [rev w])"
| "ascii_words w (x # xs) =
     (if ascii_space x then (if w = [] then [] else [rev w]) @ ascii_words [] xs else ascii_words (x # w) xs)"

definition ascii :: unicode where
  "ascii = \<lparr>to_lowercase = to_ascii_lowercase, split_whitespace = ascii_words [],
     str_trim = (\<lambda>s. rev (dropWhile ascii_space (rev (dropWhile ascii_space s))))\<rparr>"

section \<open>Numbers\<close>

definition digit_value :: "char \<Rightarrow> nat option" where
  "digit_value c =
     (if CHR ''0'' \<le> c \<and> c \<le> CHR ''9'' then Some (of_char c - 48)
      else if CHR ''a'' \<le> c \<and> c \<le> CHR ''z'' then Some (of_char c - 87)
      else if CHR ''A'' \<le> c \<and> c \<le> CHR ''Z'' then Some (of_char c - 55) else None)"

fun digits_value :: "nat \<Rightarrow> nat \<Rightarrow> string \<Rightarrow> nat option" where
  "digits_value radix acc [] = Some acc"
| "digits_value radix acc (c # cs) =
     (case digit_value c of
        None \<Rightarrow> None
      | Some d \<Rightarrow> if d < radix then digits_value radix (acc * radix + d) cs else None)"

text \<open>\<^verbatim>\<open>from_str_radix\<close> and \<^verbatim>\<open>parse\<close> of an unsigned type with \<open>w\<close> bits: a plus sign is accepted.\<close>

definition from_str_radix :: "nat \<Rightarrow> nat \<Rightarrow> string \<Rightarrow> nat option" where
  "from_str_radix w radix s =
     (let ds = (case s of c # cs \<Rightarrow> if c = CHR ''+'' then cs else s | [] \<Rightarrow> []) in
      if ds = [] then None
      else case digits_value radix 0 ds of
        None \<Rightarrow> None
      | Some n \<Rightarrow> if n < 2 ^ w then Some n else None)"

definition is_ascii_digit :: "char \<Rightarrow> bool" where
  "is_ascii_digit c \<longleftrightarrow> CHR ''0'' \<le> c \<and> c \<le> CHR ''9''"

section \<open>Facts\<close>

lemma starts_with_prefix: "starts_with s p \<longleftrightarrow> prefix p s"
  by (auto simp: starts_with_def prefix_def) (metis append_take_drop_id)

lemma contains_sublist: "contains s p \<longleftrightarrow> sublist p s"
  by (induction s) (auto simp: starts_with_prefix sublist_Cons_right)

text \<open>
  Replacing by a marker in brackets. A text \<open>q\<close> without brackets that is not inside the marker occurs after
  the replacement only where it occurred before, and the pattern itself does not occur any more.
\<close>

definition marker :: "string \<Rightarrow> string" where
  "marker m = CHR ''['' # m @ '']''"

definition plain :: "string \<Rightarrow> bool" where
  "plain q \<longleftrightarrow> CHR ''['' \<notin> set q \<and> CHR '']'' \<notin> set q"

lemma sublist_around:
  assumes "sublist q (xs @ c # ys)" "c \<notin> set q"
  shows "sublist q xs \<or> sublist q ys"
proof -
  consider "sublist q xs" | "sublist q (c # ys)" | q1 q2 where "q = q1 @ q2" "suffix q1 xs" "prefix q2 (c # ys)"
    using assms(1) by (auto simp: sublist_append)
  then show ?thesis
  proof cases
    case 2
    with assms(2) show ?thesis by (cases q) (auto simp: sublist_Cons_right)
  next
    case 3
    with assms(2) have "q2 = []" by (cases q2) auto
    with 3 show ?thesis by (simp add: suffix_imp_sublist)
  qed simp
qed

lemma sublist_marker:
  assumes "sublist q (marker m @ s)" "plain q" "\<not> sublist q m"
  shows "sublist q s"
proof -
  have "sublist q ([] @ CHR ''['' # (m @ CHR '']'' # s))" using assms(1) by (simp add: marker_def)
  from sublist_around [OF this] assms(2) have "sublist q [] \<or> sublist q (m @ CHR '']'' # s)" by (simp add: plain_def)
  then have "sublist q (m @ CHR '']'' # s)" using assms(3) by auto
  from sublist_around [OF this] assms show ?thesis by (simp add: plain_def)
qed

lemma prefix_replace:
  "prefix q (str_replace p (marker m) s) \<Longrightarrow> plain q \<Longrightarrow> prefix q s"
proof (induction p "marker m" s arbitrary: q rule: str_replace.induct)
  case (2 p x xs)
  show ?case
  proof (cases "p \<noteq> [] \<and> starts_with (x # xs) p")
    case True
    with 2 show ?thesis by (cases q) (auto simp: marker_def plain_def)
  next
    case False
    with 2 show ?thesis by (cases q) (auto simp: plain_def)
  qed
qed simp

lemma sublist_replace:
  "sublist q (str_replace p (marker m) s) \<Longrightarrow> plain q \<Longrightarrow> \<not> sublist q m \<Longrightarrow> sublist q s"
proof (induction p "marker m" s rule: str_replace.induct)
  case (2 p x xs)
  show ?case
  proof (cases "p \<noteq> [] \<and> starts_with (x # xs) p")
    case True
    then have "sublist q (marker m @ str_replace p (marker m) (drop (length p) (x # xs)))" using 2(3) by simp
    from sublist_marker [OF this 2(4,5)] have "sublist q (drop (length p) (x # xs))" using 2(1) True 2(4,5) by blast
    then show ?thesis by (meson sublist_drop sublist_order.order_trans)
  next
    case False
    with 2(3) have "prefix q (x # str_replace p (marker m) xs) \<or> sublist q (str_replace p (marker m) xs)"
      by (simp add: sublist_Cons_right)
    then show ?thesis
    proof
      assume "prefix q (x # str_replace p (marker m) xs)"
      then have "prefix q (x # xs)" using 2(4) by (cases q) (auto simp: plain_def intro: prefix_replace)
      then show ?thesis by (simp add: prefix_imp_sublist)
    next
      assume "sublist q (str_replace p (marker m) xs)"
      then show ?thesis using 2(2) False 2(4,5) by (auto simp: sublist_Cons_right)
    qed
  qed
qed simp

lemma replace_removes:
  "p \<noteq> [] \<Longrightarrow> plain p \<Longrightarrow> \<not> sublist p m \<Longrightarrow> \<not> sublist p (str_replace p (marker m) s)"
proof (induction p "marker m" s rule: str_replace.induct)
  case (2 p x xs)
  show ?case
  proof (cases "starts_with (x # xs) p")
    case True
    with 2 show ?thesis using sublist_marker by force
  next
    case False
    have "\<not> prefix p (x # str_replace p (marker m) xs)"
    proof
      assume pr: "prefix p (x # str_replace p (marker m) xs)"
      then obtain p' where p': "p = x # p'" "prefix p' (str_replace p (marker m) xs)" using 2(3) by (cases p) auto
      then have "prefix p' xs" using prefix_replace 2(4) by (auto simp: plain_def)
      with p' False show False by (simp add: starts_with_prefix)
    qed
    with 2 False show ?thesis by (simp add: sublist_Cons_right)
  qed
qed simp

end
