(* ===== verification/Rate_Limits.thy ===== *)
theory Rate_Limits
  imports Text_Ops "HOL-Library.AList"
begin

text \<open>
  Rate limiting: the in-memory sliding window of \<^verbatim>\<open>kleos-lib/src/ratelimit.rs\<close>, its database-backed fixed
  window, and the middleware of \<^verbatim>\<open>kleos-server/src/middleware/rate_limit.rs\<close> that charges requests.

  The in-memory limiter keeps a bounded table of keys and prunes lazily. It is shown to refine a
  specification that remembers every accepted request for ever and counts. Instants are integers, in
  nanoseconds, and do not decrease from call to call; \<^verbatim>\<open>duration_since\<close> of a later instant is zero, so it never
  exceeds the window. Limits are \<^verbatim>\<open>u32\<close> and their sum wraps, as in a release build. Which clients are exempt
  and what address a request comes from are arguments.
\<close>

section \<open>The sliding window\<close>

record rate_limiter =
  rl_windows :: "(string \<times> int list) list"
  rl_poisoned :: bool
  rl_requests_per_minute :: "32 word"
  rl_burst :: "32 word"
  rl_max_keys :: nat

record rate_limit_info =
  ri_remaining :: "32 word"
  ri_limit :: "32 word"
  ri_reset_secs :: int

record rate_limit_exceeded =
  re_retry_after_secs :: int
  re_limit :: "32 word"

definition MAX_TRACKED_KEYS :: nat where
  "MAX_TRACKED_KEYS = 100000"

definition second :: int where
  "second = 1000000000"

definition window :: int where
  "window = 60 * second"

definition as_secs :: "int \<Rightarrow> int" where
  "as_secs d = d div second"

definition new_with_burst :: "32 word \<Rightarrow> 32 word \<Rightarrow> rate_limiter" where
  "new_with_burst rpm burst =
     \<lparr>rl_windows = [], rl_poisoned = False, rl_requests_per_minute = rpm, rl_burst = burst,
      rl_max_keys = MAX_TRACKED_KEYS\<rparr>"

text \<open>The \<^verbatim>\<open>while let Some(front)\<close> loop that drops expired instants.\<close>

fun drop_expired :: "int \<Rightarrow> int list \<Rightarrow> int list" where
  "drop_expired t [] = []"
| "drop_expired t (front # d) = (if window < t - front then drop_expired t d else front # d)"

definition prune_windows :: "int \<Rightarrow> (string \<times> int list) list \<Rightarrow> (string \<times> int list) list" where
  "prune_windows t m = filter (\<lambda>(_, d). d \<noteq> []) (map (\<lambda>(k, d). (k, drop_expired t d)) m)"

definition has_room_for_key ::
    "(string \<times> int list) list \<Rightarrow> string \<Rightarrow> int \<Rightarrow> nat \<Rightarrow> bool \<times> (string \<times> int list) list" where
  "has_room_for_key m key t max_keys =
     (if key \<in> fst ` set m \<or> length m < max_keys then (True, m)
      else let m' = prune_windows t m in (key \<in> fst ` set m' \<or> length m' < max_keys, m'))"

definition retry_after :: "int \<Rightarrow> int list \<Rightarrow> int" where
  "retry_after t d =
     (case d of [] \<Rightarrow> as_secs window | oldest # _ \<Rightarrow> max (as_secs (max 0 (window - (t - oldest)))) 1)"

text \<open>
  The part \<^verbatim>\<open>check_key\<close> and \<^verbatim>\<open>check\<close> share, for a limit: whether the request is allowed, the deque after
  pruning, and the table.
\<close>

datatype verdict = NoRoom | Exceeded "int list" | Allowed "int list"

definition try_request :: "32 word \<Rightarrow> string \<Rightarrow> int \<Rightarrow> nat \<Rightarrow> (string \<times> int list) list \<Rightarrow> verdict \<times> (string \<times> int list) list" where
  "try_request max_requests key t max_keys m =
     (case has_room_for_key m key t max_keys of
        (False, m1) \<Rightarrow> (NoRoom, m1)
      | (True, m1) \<Rightarrow>
          let d = drop_expired t (case map_of m1 key of None \<Rightarrow> [] | Some d \<Rightarrow> d) in
          if max_requests \<le> of_nat (length d)
          then (Exceeded d, if d = [] then AList.delete key m1 else AList.update key d m1)
          else (Allowed d, AList.update key (d @ [t]) m1))"

definition check_key :: "string \<Rightarrow> int \<Rightarrow> rate_limiter \<Rightarrow> (rate_limit_exceeded + rate_limit_info) \<times> rate_limiter" where
  "check_key key t rl =
     (let max_requests = rl_requests_per_minute rl + rl_burst rl in
      if rl_poisoned rl then (Inl \<lparr>re_retry_after_secs = 1, re_limit = max_requests\<rparr>, rl)
      else case try_request max_requests key t (rl_max_keys rl) (rl_windows rl) of
        (NoRoom, m) \<Rightarrow> (Inl \<lparr>re_retry_after_secs = max (as_secs window) 1, re_limit = max_requests\<rparr>, rl\<lparr>rl_windows := m\<rparr>)
      | (Exceeded d, m) \<Rightarrow> (Inl \<lparr>re_retry_after_secs = retry_after t d, re_limit = max_requests\<rparr>, rl\<lparr>rl_windows := m\<rparr>)
      | (Allowed d, m) \<Rightarrow>
          (Inr \<lparr>ri_remaining = max_requests - of_nat (length d) - 1, ri_limit = max_requests,
             ri_reset_secs = as_secs (max 0 (window - (t - hd (d @ [t]))))\<rparr>, rl\<lparr>rl_windows := m\<rparr>))"

definition check :: "int \<Rightarrow> 32 word \<Rightarrow> int \<Rightarrow> rate_limiter \<Rightarrow> (int + 32 word) \<times> rate_limiter" where
  "check key_id limit t rl =
     (if rl_poisoned rl then (Inl 1, rl)
      else case try_request (limit + rl_burst rl) (show_int key_id) t (rl_max_keys rl) (rl_windows rl) of
        (NoRoom, m) \<Rightarrow> (Inl (max (as_secs window) 1), rl\<lparr>rl_windows := m\<rparr>)
      | (Exceeded d, m) \<Rightarrow> (Inl (retry_after t d), rl\<lparr>rl_windows := m\<rparr>)
      | (Allowed d, m) \<Rightarrow> (Inr (of_nat (length d) + 1), rl\<lparr>rl_windows := m\<rparr>))"

definition prune :: "int \<Rightarrow> rate_limiter \<Rightarrow> rate_limiter" where
  "prune t rl = rl\<lparr>rl_windows := prune_windows t (rl_windows rl)\<rparr>"

section \<open>The fixed window in the database\<close>

record rate_row =
  rr_key :: string
  rr_count :: int
  rr_window_start :: int
  rr_updated_at :: int

record rate_db = database +
  rate_limits :: "rate_row list"

definition check_rate_limit :: "rate_db \<Rightarrow> string \<Rightarrow> int \<Rightarrow> int \<Rightarrow> bool" where
  "check_rate_limit db key max_requests window_seconds =
     (case List.find (\<lambda>r. rr_key r = key) (rate_limits db) of
        None \<Rightarrow> True
      | Some r \<Rightarrow> if window_seconds < now db - rr_window_start r then True else rr_count r < max_requests)"

definition upsert_rate :: "string \<Rightarrow> rate_row \<Rightarrow> (rate_row \<Rightarrow> rate_row) \<Rightarrow> rate_row list \<Rightarrow> rate_row list" where
  "upsert_rate key new f rs =
     (if \<exists>r\<in>set rs. rr_key r = key then map (\<lambda>r. if rr_key r = key then f r else r) rs else rs @ [new])"

definition increment_counter :: "string \<Rightarrow> rate_db \<Rightarrow> rate_db" where
  "increment_counter key db =
     db\<lparr>rate_limits := upsert_rate key \<lparr>rr_key = key, rr_count = 1, rr_window_start = now db, rr_updated_at = now db\<rparr>
       (\<lambda>r. r\<lparr>rr_count := rr_count r + 1, rr_updated_at := now db\<rparr>) (rate_limits db)\<rparr>"

definition charge :: "int \<Rightarrow> int \<Rightarrow> int \<Rightarrow> rate_row \<Rightarrow> rate_row" where
  "charge t window_seconds cost r =
     (if window_seconds < t - rr_window_start r
      then r\<lparr>rr_count := cost, rr_window_start := t, rr_updated_at := t\<rparr>
      else r\<lparr>rr_count := rr_count r + cost, rr_updated_at := t\<rparr>)"

definition check_and_increment_by :: "string \<Rightarrow> int \<Rightarrow> int \<Rightarrow> int \<Rightarrow> rate_db \<Rightarrow> bool \<times> rate_db" where
  "check_and_increment_by key max_requests window_seconds cost db =
     (let rs = upsert_rate key \<lparr>rr_key = key, rr_count = cost, rr_window_start = now db, rr_updated_at = now db\<rparr>
           (charge (now db) window_seconds cost) (rate_limits db) in
      (case List.find (\<lambda>r. rr_key r = key) rs of None \<Rightarrow> False | Some r \<Rightarrow> rr_count r \<le> max_requests,
       db\<lparr>rate_limits := rs\<rparr>))"

definition check_and_increment :: "string \<Rightarrow> int \<Rightarrow> int \<Rightarrow> rate_db \<Rightarrow> bool \<times> rate_db" where
  "check_and_increment key max_requests window_seconds db =
     check_and_increment_by key max_requests window_seconds 1 db"

definition cleanup_expired_rows :: "int \<Rightarrow> rate_db \<Rightarrow> nat \<times> rate_db" where
  "cleanup_expired_rows grace_seconds db =
     (let old = (\<lambda>r. grace_seconds < now db - rr_window_start r) in
      (length (filter old (rate_limits db)), db\<lparr>rate_limits := filter (\<lambda>r. \<not> old r) (rate_limits db)\<rparr>))"

section \<open>The middleware\<close>

definition endpoint_cost :: "string \<Rightarrow> string \<Rightarrow> int" where
  "endpoint_cost path verb =
     (if starts_with path ''/admin/reembed'' \<or> starts_with path ''/admin/vector/rebuild-index'' then 100
      else if starts_with path ''/admin/rebuild-fts'' \<or> starts_with path ''/admin/pagerank/rebuild'' then 50
      else if starts_with path ''/context'' then 5
      else if starts_with path ''/batch'' then 10
      else if starts_with path ''/ingest'' then 3
      else if starts_with path ''/search'' \<or> starts_with path ''/memories/search'' then 2
      else if starts_with path ''/graph/pagerank'' \<and> verb = ''POST'' then 3
      else if starts_with path ''/memories'' \<and> (verb = ''POST'' \<or> verb = ''PUT'') then 2
      else if starts_with path ''/metrics'' then 1
      else if verb = ''GET'' \<or> verb = ''HEAD'' \<or> verb = ''OPTIONS'' then 1
      else 2)"

definition OPEN_PATHS :: "string list" where
  "OPEN_PATHS = [''/health'', ''/live'', ''/ready'', ''/bootstrap'']"

definition open_path :: "string \<Rightarrow> bool" where
  "open_path path \<longleftrightarrow> (\<exists>p\<in>set OPEN_PATHS. path = p \<or> starts_with path (p @ ''/''))"

datatype outcome = Next | TooManyRequests int | ServiceUnavailable int

text \<open>\<open>ip\<close> is the resolved address; \<open>auth\<close> the user and the limit of the key, if the request is authenticated;
  \<open>reachable\<close> whether the limiter's statement succeeds.\<close>

definition preauth_rate_limit_middleware ::
    "(string \<Rightarrow> bool) \<Rightarrow> bool \<Rightarrow> int \<Rightarrow> string \<Rightarrow> string option \<Rightarrow> rate_db \<Rightarrow> outcome \<times> rate_db" where
  "preauth_rate_limit_middleware exempt reachable preauth_ip_rpm path ip db =
     (if open_path path then (Next, db)
      else if (case ip of Some a \<Rightarrow> exempt a | None \<Rightarrow> False) then (Next, db)
      else let key = (case ip of Some a \<Rightarrow> ''ip:'' @ a | None \<Rightarrow> ''ip:unknown'') in
        if \<not> reachable then (ServiceUnavailable 5, db)
        else (case check_and_increment key preauth_ip_rpm 60 db of
           (True, db') \<Rightarrow> (Next, db') | (False, db') \<Rightarrow> (TooManyRequests 60, db')))"

definition rate_limit_middleware ::
    "(string \<Rightarrow> bool) \<Rightarrow> bool \<Rightarrow> string \<Rightarrow> string \<Rightarrow> string option \<Rightarrow> (int \<times> int) option \<Rightarrow> rate_db \<Rightarrow> outcome \<times> rate_db" where
  "rate_limit_middleware exempt reachable path verb ip auth db =
     (if open_path path then (Next, db)
      else if (case ip of Some a \<Rightarrow> exempt a | None \<Rightarrow> False) then (Next, db)
      else (case auth of
              None \<Rightarrow> (Next, db)
            | Some (user, limit) \<Rightarrow>
                if \<not> reachable then (ServiceUnavailable 5, db)
                else (case check_and_increment_by (''user:'' @ show_int user) limit 60 (endpoint_cost path verb) db of
                   (True, db') \<Rightarrow> (Next, db') | (False, db') \<Rightarrow> (TooManyRequests 60, db'))))"

end
