(* ===== verification/Rate_Refinement.thy ===== *)
theory Rate_Refinement
  imports Rate_Limits
begin

text \<open>
  The in-memory limiter refines its specification. The specification keeps, for each key, the instants of
  all requests ever accepted. It accepts a request when fewer than the limit were accepted for the key in
  the last sixty seconds, and the key was active in that time or fewer keys than the cap were. The code
  keeps only a bounded table that it prunes when it has to.
\<close>

section \<open>The specification\<close>

type_synonym request_log = "string \<Rightarrow> int list"

definition live :: "int \<Rightarrow> int list \<Rightarrow> int list" where
  "live t xs = filter (\<lambda>x. t - x \<le> window) xs"

definition live_keys :: "int \<Rightarrow> request_log \<Rightarrow> string set" where
  "live_keys t log = {k. live t (log k) \<noteq> []}"

definition spec_allows :: "nat \<Rightarrow> 32 word \<Rightarrow> string \<Rightarrow> int \<Rightarrow> request_log \<Rightarrow> bool" where
  "spec_allows max_keys limit key t log \<longleftrightarrow>
     (key \<in> live_keys t log \<or> card (live_keys t log) < max_keys) \<and> length (live t (log key)) < unat limit"

definition spec_request :: "nat \<Rightarrow> 32 word \<Rightarrow> string \<Rightarrow> int \<Rightarrow> request_log \<Rightarrow> bool \<times> request_log" where
  "spec_request max_keys limit key t log =
     (if spec_allows max_keys limit key t log then (True, log(key := log key @ [t])) else (False, log))"

text \<open>Calls, and what code and specification do with them; the answer of a call is whether it is allowed.\<close>

datatype limiter_call = CheckKey string | CheckId int "32 word" | Prune

fun call_limiter :: "limiter_call \<Rightarrow> int \<Rightarrow> rate_limiter \<Rightarrow> bool \<times> rate_limiter" where
  "call_limiter (CheckKey key) t rl = (case check_key key t rl of (r, rl') \<Rightarrow> (\<not> isl r, rl'))"
| "call_limiter (CheckId i limit) t rl = (case check i limit t rl of (r, rl') \<Rightarrow> (\<not> isl r, rl'))"
| "call_limiter Prune t rl = (True, prune t rl)"

fun call_spec :: "rate_limiter \<Rightarrow> limiter_call \<Rightarrow> int \<Rightarrow> request_log \<Rightarrow> bool \<times> request_log" where
  "call_spec rl (CheckKey key) t log =
     spec_request (rl_max_keys rl) (rl_requests_per_minute rl + rl_burst rl) key t log"
| "call_spec rl (CheckId i limit) t log = spec_request (rl_max_keys rl) (limit + rl_burst rl) (show_int i) t log"
| "call_spec rl Prune t log = (True, log)"

fun run_limiter :: "(limiter_call \<times> int) list \<Rightarrow> rate_limiter \<Rightarrow> bool list \<times> rate_limiter" where
  "run_limiter [] rl = ([], rl)"
| "run_limiter ((c, t) # cs) rl =
     (case call_limiter c t rl of (b, rl1) \<Rightarrow> case run_limiter cs rl1 of (bs, rl2) \<Rightarrow> (b # bs, rl2))"

fun run_spec :: "rate_limiter \<Rightarrow> (limiter_call \<times> int) list \<Rightarrow> request_log \<Rightarrow> bool list \<times> request_log" where
  "run_spec rl [] log = ([], log)"
| "run_spec rl ((c, t) # cs) log =
     (case call_spec rl c t log of (b, log1) \<Rightarrow> case run_spec rl cs log1 of (bs, log2) \<Rightarrow> (b # bs, log2))"

section \<open>The simulation\<close>

definition lookup :: "(string \<times> int list) list \<Rightarrow> string \<Rightarrow> int list" where
  "lookup m k = (case map_of m k of None \<Rightarrow> [] | Some d \<Rightarrow> d)"

definition deque_ok :: "int \<Rightarrow> int list \<Rightarrow> bool" where
  "deque_ok t d \<longleftrightarrow> d \<noteq> [] \<and> sorted d \<and> (\<forall>x\<in>set d. x \<le> t) \<and> length d < 2 ^ 32"

definition sim :: "nat \<Rightarrow> int \<Rightarrow> (string \<times> int list) list \<Rightarrow> request_log \<Rightarrow> bool" where
  "sim max_keys t m log \<longleftrightarrow>
     distinct (map fst m) \<and> length m \<le> max_keys \<and> (\<forall>(k, d)\<in>set m. deque_ok t d)
     \<and> (\<forall>k. live t (lookup m k) = live t (log k))"

lemma live_live: "t \<le> t' \<Longrightarrow> live t' (live t xs) = live t' xs"
  by (auto simp: live_def intro!: filter_cong)

lemma live_append [simp]: "live t (xs @ ys) = live t xs @ live t ys" "live t [] = []"
  by (simp_all add: live_def)

lemma live_now [simp]: "live t [t] = [t]"
  by (simp add: live_def window_def second_def)

lemma drop_expired_live: "sorted d \<Longrightarrow> drop_expired t d = live t d"
proof (induction d)
  case (Cons x d)
  show ?case
  proof (cases "window < t - x")
    case False
    then have "live t (x # d) = x # d" using Cons.prems by (auto simp: live_def intro!: filter_True)
    with False show ?thesis by simp
  qed (use Cons in \<open>simp add: live_def\<close>)
qed (simp add: live_def)

lemma deque_ok_mono: "deque_ok t d \<Longrightarrow> t \<le> t' \<Longrightarrow> deque_ok t' d"
  by (auto simp: deque_ok_def)

lemma deque_ok_live: "deque_ok t d \<Longrightarrow> live t d \<noteq> [] \<Longrightarrow> deque_ok t (live t d)"
  by (auto simp: deque_ok_def live_def sorted_wrt_filter intro: le_less_trans [OF length_filter_le])

lemma sim_mono: "sim mk t m log \<Longrightarrow> t \<le> t' \<Longrightarrow> sim mk t' m log"
  unfolding sim_def by (metis (no_types, lifting) case_prodD case_prodI2 deque_ok_mono live_live)

text \<open>Pruning keeps exactly the live part of the table.\<close>

lemma prune_windows_eq:
  assumes "sim mk t m log"
  shows "prune_windows t m = filter (\<lambda>(_, d). d \<noteq> []) (map (\<lambda>(k, d). (k, live t d)) m)"
proof -
  have "map (\<lambda>(k, d). (k, drop_expired t d)) m = map (\<lambda>(k, d). (k, live t d)) m"
    using assms by (auto simp: sim_def deque_ok_def drop_expired_live)
  then show ?thesis unfolding prune_windows_def by (rule arg_cong)
qed

lemma lookup_in: "(\<And>k d. (k, d) \<in> set m \<Longrightarrow> d \<noteq> []) \<Longrightarrow> k \<in> fst ` set m \<longleftrightarrow> lookup m k \<noteq> []"
proof (cases "map_of m k")
  case None
  then have "k \<notin> fst ` set m" by (simp add: map_of_eq_None_iff)
  with None show ?thesis by (simp add: lookup_def)
next
  case (Some d)
  assume "\<And>k d. (k, d) \<in> set m \<Longrightarrow> d \<noteq> []"
  with map_of_SomeD [OF Some] Some show ?thesis by (force simp: lookup_def)
qed

lemma lookup_filter_live:
  "distinct (map fst m) \<Longrightarrow> lookup (filter (\<lambda>(_, d). d \<noteq> []) (map (\<lambda>(k, d). (k, live t d)) m)) k = live t (lookup m k)"
proof (induction m)
  case (Cons x m)
  obtain k' d where x: "x = (k', d)" by fastforce
  have "map_of (filter (\<lambda>(_, d). d \<noteq> []) (map (\<lambda>(k, d). (k, live t d)) m)) k' = None"
    using Cons.prems by (force simp: x map_of_eq_None_iff)
  with Cons show ?case by (auto simp: x lookup_def split: option.splits)
qed (simp add: lookup_def)

lemma sim_prune:
  assumes s: "sim mk t m log"
  shows "sim mk t (prune_windows t m) log" "fst ` set (prune_windows t m) = live_keys t log"
    "length (prune_windows t m) = card (live_keys t log)"
proof -
  let ?m = "filter (\<lambda>(_, d). d \<noteq> []) (map (\<lambda>(k, d). (k, live t d)) m)"
  have eq: "prune_windows t m = ?m" by (rule prune_windows_eq [OF s])
  have d: "distinct (map fst m)" using s by (simp add: sim_def)
  have "map fst ?m = map fst (filter (\<lambda>(_, d). live t d \<noteq> []) m)"
    by (induction m) auto
  then have d': "distinct (map fst ?m)" using d by (metis distinct_map_filter)
  have ok: "\<forall>(k, d)\<in>set ?m. deque_ok t d" using s by (auto simp: sim_def intro: deque_ok_live)
  have look: "lookup ?m k = live t (log k)" for k
    using lookup_filter_live [OF d] s by (simp add: sim_def)
  have "length ?m \<le> length m" using length_filter_le [of _ "map (\<lambda>(k, d). (k, live t d)) m"] by simp
  moreover have "length m \<le> mk" using s by (simp add: sim_def)
  ultimately have len: "length ?m \<le> mk" by (rule order_trans)
  show "sim mk t (prune_windows t m) log"
    unfolding eq sim_def using d' ok len by (simp add: look live_live del: filter_map)
  have "k \<in> fst ` set ?m \<longleftrightarrow> lookup ?m k \<noteq> []" for k by (rule lookup_in) auto
  then show keys: "fst ` set (prune_windows t m) = live_keys t log"
    unfolding eq live_keys_def look by blast
  show "length (prune_windows t m) = card (live_keys t log)"
    using distinct_card [OF d'] keys unfolding eq by simp
qed

text \<open>The capacity check: lazy pruning decides as if expired keys were never kept.\<close>

lemma has_room_sim:
  assumes s: "sim mk t m log" and room: "has_room_for_key m key t mk = (b, m1)"
  shows "sim mk t m1 log" "b \<longleftrightarrow> key \<in> live_keys t log \<or> card (live_keys t log) < mk"
    "b \<Longrightarrow> key \<in> fst ` set m1 \<or> length m1 < mk"
proof -
  note p = sim_prune [OF s]
  have le: "length (prune_windows t m) \<le> length m"
    unfolding prune_windows_def by (rule order_trans [OF length_filter_le]) simp
  have mk: "length m \<le> mk" using s by (simp add: sim_def)
  show "sim mk t m1 log" using room s p(1) by (auto simp: has_room_for_key_def Let_def split: if_splits)
  show "b \<Longrightarrow> key \<in> fst ` set m1 \<or> length m1 < mk"
    using room by (auto simp: has_room_for_key_def Let_def split: if_splits)
  have sub: "live_keys t log \<subseteq> fst ` set m" using p(2) by (force simp: prune_windows_def)
  have tracked: "key \<in> live_keys t log \<or> card (live_keys t log) < mk" if "key \<in> fst ` set m"
  proof (cases "key \<in> live_keys t log")
    case False
    then have "live_keys t log \<subset> fst ` set m" using sub that by blast
    then have "card (live_keys t log) < card (fst ` set m)" by (intro psubset_card_mono) auto
    also have "\<dots> \<le> length m" by (metis card_length length_map set_map)
    finally show ?thesis using mk by simp
  qed simp
  have untracked: "key \<notin> live_keys t log" if "key \<notin> fst ` set m"
  proof -
    have "lookup m key = []" using that by (simp add: lookup_def map_of_eq_None_iff [THEN iffD2])
    then show ?thesis using s by (simp add: live_keys_def sim_def) (metis live_append(2))
  qed
  show "b \<longleftrightarrow> key \<in> live_keys t log \<or> card (live_keys t log) < mk"
  proof (cases "key \<in> fst ` set m")
    case True
    then show ?thesis using room tracked by (simp add: has_room_for_key_def)
  next
    case False
    then show ?thesis using room untracked p(2,3) le by (auto simp: has_room_for_key_def Let_def split: if_splits)
  qed
qed

lemma lookup_update: "lookup (AList.update key d m) k = (if k = key then d else lookup m k)"
  by (simp add: lookup_def update_conv)

lemma lookup_delete: "lookup (AList.delete key m) k = (if k = key then [] else lookup m k)"
  by (simp add: lookup_def delete_conv)

lemma length_update: "length (AList.update key d m) \<le> (if key \<in> fst ` set m then length m else length m + 1)"
proof (induction m)
  case (Cons x m)
  then show ?case by (cases x) (auto split: if_splits simp: image_iff)
qed simp

lemma sim_update:
  assumes s: "sim mk t m log" and room: "key \<in> fst ` set m \<or> length m < mk" and ok: "deque_ok t d"
    and eq: "live t d = live t (log' key)" "\<And>k. k \<noteq> key \<Longrightarrow> log' k = log k"
  shows "sim mk t (AList.update key d m) log'"
proof -
  have "length (AList.update key d m) \<le> mk"
    using length_update [of key d m] room s by (auto simp: sim_def split: if_splits)
  moreover have "\<forall>(k, x)\<in>set (AList.update key d m). deque_ok t x"
  proof -
    have "set (AList.update key d m) \<subseteq> insert (key, d) (set m)" by (induction m) auto
    then show ?thesis using s ok by (auto simp: sim_def)
  qed
  moreover have "live t (lookup (AList.update key d m) k) = live t (log' k)" for k
    using s eq by (cases "k = key") (auto simp: lookup_update sim_def)
  ultimately show ?thesis using s by (simp add: sim_def distinct_update)
qed

lemma sim_delete:
  assumes s: "sim mk t m log" and empty: "live t (log key) = []"
  shows "sim mk t (AList.delete key m) log"
proof -
  have "length (AList.delete key m) \<le> length m" by (rule length_delete_le)
  moreover have "live t (lookup (AList.delete key m) k) = live t (log k)" for k
    using s empty by (cases "k = key") (auto simp: lookup_delete sim_def)
  moreover have "set (AList.delete key m) \<subseteq> set m" by (induction m) auto
  ultimately show ?thesis using s by (auto simp: sim_def distinct_delete)
qed

text \<open>One request.\<close>

definition allowed :: "verdict \<Rightarrow> bool" where
  "allowed v = (case v of Allowed _ \<Rightarrow> True | _ \<Rightarrow> False)"

lemma try_request_sim:
  assumes s: "sim mk t m log" and run: "try_request limit key t mk m = (v, m')"
    and spec: "spec_request mk limit key t log = (b, log')"
  shows "allowed v = b \<and> sim mk t m' log'"
proof -
  obtain r m1 where room: "has_room_for_key m key t mk = (r, m1)" by fastforce
  note R = has_room_sim [OF s room]
  show ?thesis
  proof (cases r)
    case False
    then have "v = NoRoom" "m' = m1" using run room by (auto simp: try_request_def)
    moreover have "b = False" "log' = log" using R(2) False spec by (auto simp: spec_request_def spec_allows_def split: if_splits)
    ultimately show ?thesis using R(1) by (simp add: allowed_def)
  next
    case True
    let ?d = "live t (log key)"
    have "deque_ok t (lookup m1 key) \<or> lookup m1 key = []"
      using R(1) by (auto simp: sim_def lookup_def split: option.split dest: map_of_SomeD)
    then have sorted: "sorted (lookup m1 key)" and len: "length (lookup m1 key) < 2 ^ 32" by (auto simp: deque_ok_def)
    have d: "drop_expired t (lookup m1 key) = ?d" using drop_expired_live [OF sorted] R(1) by (simp add: sim_def)
    have "length ?d < 2 ^ 32"
      using R(1) le_less_trans [OF length_filter_le len, of "\<lambda>x. t - x \<le> window"] by (simp add: sim_def live_def)
    then have u: "unat (of_nat (length ?d) :: 32 word) = length ?d" by (simp add: unat_of_nat take_bit_nat_eq_self)
    have exceeded: "limit \<le> of_nat (length ?d) \<longleftrightarrow> \<not> length ?d < unat limit" by (simp add: word_le_nat_alt u not_less)
    have allows: "spec_allows mk limit key t log \<longleftrightarrow> length ?d < unat limit" using R(2) True by (simp add: spec_allows_def)
    have room': "key \<in> fst ` set m1 \<or> length m1 < mk" using R(3) True .
    have step: "try_request limit key t mk m = (if limit \<le> of_nat (length ?d)
        then (Exceeded ?d, if ?d = [] then AList.delete key m1 else AList.update key ?d m1)
        else (Allowed ?d, AList.update key (?d @ [t]) m1))"
      using True room d by (simp add: try_request_def Let_def lookup_def)
    have same: "live t (lookup m1 key) = ?d" using R(1) by (simp add: sim_def)
    then have dq: "?d \<noteq> [] \<Longrightarrow> deque_ok t ?d"
      using \<open>deque_ok t (lookup m1 key) \<or> lookup m1 key = []\<close> deque_ok_live [of t "lookup m1 key"]
      by (cases "lookup m1 key = []") auto
    show ?thesis
    proof (cases "limit \<le> of_nat (length ?d)")
      case True
      then have "b = False" "log' = log" using spec allows exceeded by (auto simp: spec_request_def)
      moreover have "sim mk t m' log"
        using run step True sim_delete [OF R(1)] sim_update [OF R(1) room' dq, of log] by (auto simp: live_live)
      moreover have "v = Exceeded ?d" using run step True by (auto split: if_splits)
      ultimately show ?thesis by (simp add: allowed_def)
    next
      case False
      then have b: "b = True" "log' = log(key := log key @ [t])" using spec allows exceeded by (auto simp: spec_request_def)
      have "length ?d < unat limit" using False exceeded by simp
      then have "length ?d + 1 < 2 ^ 32" using unsigned_less [of limit, where 'a = nat] by simp
      then have "deque_ok t (?d @ [t])"
        using dq by (cases "?d = []") (auto simp: deque_ok_def sorted_append)
      from sim_update [OF R(1) room' this, of log'] have "sim mk t (AList.update key (?d @ [t]) m1) log'"
        using b(2) by (simp add: live_live)
      then show ?thesis using run step False b by (auto simp: allowed_def)
    qed
  qed
qed

section \<open>Calls and histories\<close>

text \<open>The configuration never changes; the lock is not poisoned.\<close>

definition same_config :: "rate_limiter \<Rightarrow> rate_limiter \<Rightarrow> bool" where
  "same_config a b \<longleftrightarrow> rl_requests_per_minute a = rl_requests_per_minute b \<and> rl_burst a = rl_burst b
     \<and> rl_max_keys a = rl_max_keys b \<and> \<not> rl_poisoned a \<and> \<not> rl_poisoned b"

lemma call_sim:
  assumes s: "sim (rl_max_keys rl) t (rl_windows rl) log" and cfg: "same_config rl0 rl"
    and run: "call_limiter c t rl = (b, rl')" and spec: "call_spec rl0 c t log = (b', log')"
  shows "b = b' \<and> sim (rl_max_keys rl') t (rl_windows rl') log' \<and> same_config rl0 rl'"
proof (cases c)
  case (CheckKey key)
  obtain v m where v: "try_request (rl_requests_per_minute rl + rl_burst rl) key t (rl_max_keys rl) (rl_windows rl) = (v, m)" by fastforce
  with try_request_sim [OF s v] show ?thesis using CheckKey run spec cfg
    by (cases v) (auto simp: check_key_def Let_def same_config_def allowed_def)
next
  case (CheckId i limit)
  obtain v m where v: "try_request (limit + rl_burst rl) (show_int i) t (rl_max_keys rl) (rl_windows rl) = (v, m)" by fastforce
  with try_request_sim [OF s v] show ?thesis using CheckId run spec cfg
    by (cases v) (auto simp: check_def same_config_def allowed_def)
next
  case Prune
  then show ?thesis using sim_prune(1) [OF s] run spec cfg by (auto simp: prune_def same_config_def)
qed

lemma run_sim:
  assumes "sim (rl_max_keys rl) t (rl_windows rl) log" "same_config rl0 rl" "sorted (t # map snd cs)"
    "run_limiter cs rl = (bs, rl')" "run_spec rl0 cs log = (bs', log')"
  shows "bs = bs' \<and> (\<exists>t'. sim (rl_max_keys rl') t' (rl_windows rl') log')"
  using assms
proof (induction cs arbitrary: rl t log bs bs')
  case (Cons x cs)
  obtain c t1 where x: "x = (c, t1)" by fastforce
  obtain b rl1 where c1: "call_limiter c t1 rl = (b, rl1)" by fastforce
  obtain b' log1 where c2: "call_spec rl0 c t1 log = (b', log1)" by fastforce
  obtain bs1 where r1: "run_limiter cs rl1 = (bs1, rl')" "bs = b # bs1"
    using Cons.prems(4) by (auto simp: x c1 split: prod.splits)
  obtain bs2 where r2: "run_spec rl0 cs log1 = (bs2, log')" "bs' = b' # bs2"
    using Cons.prems(5) by (auto simp: x c2 split: prod.splits)
  have "sim (rl_max_keys rl) t1 (rl_windows rl) log"
    by (rule sim_mono [OF Cons.prems(1)]) (use Cons.prems(3) in \<open>simp add: x\<close>)
  from call_sim [OF this Cons.prems(2) c1 c2]
  have s: "b = b'" "sim (rl_max_keys rl1) t1 (rl_windows rl1) log1" "same_config rl0 rl1" by auto
  have "sorted (t1 # map snd cs)" using Cons.prems(3) by (simp add: x)
  from Cons.IH [OF s(2,3) this r1(1) r2(1)] s(1) r1(2) r2(2) show ?case by simp
qed auto

lemma sim_new: "sim (rl_max_keys (new_with_burst rpm burst)) t (rl_windows (new_with_burst rpm burst)) (\<lambda>_. [])"
  by (simp add: sim_def new_with_burst_def lookup_def)

lemma same_config_new: "same_config (new_with_burst rpm burst) (new_with_burst rpm burst)"
  by (simp add: same_config_def new_with_burst_def)

lemma run_keeps_config: "run_limiter cs rl = (bs, rl') \<Longrightarrow> rl_max_keys rl' = rl_max_keys rl"
proof (induction cs arbitrary: rl bs)
  case (Cons x cs)
  obtain c t where x: "x = (c, t)" by fastforce
  obtain b rl1 where c: "call_limiter c t rl = (b, rl1)" by fastforce
  have "rl_max_keys rl1 = rl_max_keys rl"
    using c by (cases c) (auto simp: check_key_def check_def prune_def Let_def split: prod.splits verdict.splits if_splits)
  with Cons c show ?case by (auto simp: x split: prod.splits)
qed simp

text \<open>
  Property C26. The in-memory limiter refines its specification. For every sequence of calls at times that do
  not decrease, the code, which keeps a bounded and lazily pruned table, gives the same answers as the
  specification, which remembers all accepted requests of all keys for ever.
\<close>

theorem limiter_refines_spec:
  assumes "sorted (map snd cs)"
  shows "fst (run_limiter cs (new_with_burst rpm burst))
    = fst (run_spec (new_with_burst rpm burst) cs (\<lambda>_. []))"
proof -
  obtain t where "sorted (t # map snd cs)"
    using assms by (cases "map snd cs") (auto intro: that [of 0] that [of "snd (hd cs)"])
  with run_sim [OF sim_new same_config_new] show ?thesis by (metis prod.collapse)
qed

lemmas limiter_eval =
  check_key_def check_def try_request_def has_room_for_key_def prune_windows_def new_with_burst_def MAX_TRACKED_KEYS_def
  window_def second_def Let_def prune_def

theorem limiter_refines_spec_witness:
  "fst (run_spec (new_with_burst 1 0) [(CheckKey ''a'', 0), (CheckKey ''a'', second), (CheckKey ''a'', 61 * second)] (\<lambda>_. []))
   = [True, False, True]"
proof -
  let ?cs = "[(CheckKey ''a'', 0), (CheckKey ''a'', second), (CheckKey ''a'', 61 * second)]"
  have "fst (run_limiter ?cs (new_with_burst 1 0)) = [True, False, True]" by (simp add: limiter_eval)
  moreover have "sorted (map snd ?cs)" by (simp add: second_def)
  ultimately show ?thesis by (metis limiter_refines_spec)
qed

section \<open>Bounds\<close>

text \<open>The instants at which requests of a key were accepted by \<^verbatim>\<open>check_key\<close>.\<close>

fun accepted :: "string \<Rightarrow> (limiter_call \<times> int) list \<Rightarrow> bool list \<Rightarrow> int list" where
  "accepted key ((c, t) # cs) (b # bs) = (if b \<and> c = CheckKey key then [t] else []) @ accepted key cs bs"
| "accepted key _ _ = []"

definition in_window :: "int \<Rightarrow> int list \<Rightarrow> nat" where
  "in_window T xs = length (filter (\<lambda>x. T - window \<le> x \<and> x \<le> T) xs)"

definition since :: "int \<Rightarrow> int list \<Rightarrow> nat" where
  "since lo xs = length (filter (\<lambda>x. lo \<le> x) xs)"

lemma since_mono: "lo' \<le> lo \<Longrightarrow> since lo xs \<le> since lo' xs"
  unfolding since_def by (induction xs) auto

lemma in_window_since: "in_window T xs \<le> since (T - window) xs"
  unfolding in_window_def since_def by (induction xs) auto

lemma length_live: "length (live t xs) = since (t - window) xs"
  by (simp add: live_def since_def algebra_simps)

lemma in_window_append: "in_window T (xs @ [t]) = in_window T xs + (if T - window \<le> t \<and> t \<le> T then 1 else 0)"
  by (simp add: in_window_def)

lemma spec_request_log:
  "spec_request mk limit k t log = (b, log') \<Longrightarrow>
     log' = (if b then log(k := log k @ [t]) else log) \<and> (b \<longrightarrow> since (t - window) (log k) < unat limit)"
  by (auto simp: spec_request_def spec_allows_def length_live split: if_splits)

lemma run_spec_bounded:
  assumes "run_spec rl cs log = (bs, log')" "\<And>T. in_window T acc \<le> unat (rl_requests_per_minute rl + rl_burst rl)"
    "\<And>lo. since lo acc \<le> since lo (log key)"
  shows "in_window T (acc @ accepted key cs bs) \<le> unat (rl_requests_per_minute rl + rl_burst rl)"
  using assms
proof (induction cs arbitrary: log bs acc)
  case (Cons x cs)
  let ?L = "unat (rl_requests_per_minute rl + rl_burst rl)"
  obtain c t where x: "x = (c, t)" by fastforce
  obtain b log1 where c: "call_spec rl c t log = (b, log1)" by fastforce
  obtain bs1 where r: "run_spec rl cs log1 = (bs1, log')" "bs = b # bs1"
    using Cons.prems(1) by (auto simp: x c split: prod.splits)
  have grows: "since lo (log key) \<le> since lo (log1 key)" for lo
    using c by (cases c) (auto dest!: spec_request_log simp: since_def)
  show ?case
  proof (cases "b \<and> c = CheckKey key")
    case True
    then have l: "log1 key = log key @ [t]" "since (t - window) (log key) < ?L"
      using c by (auto dest!: spec_request_log)
    have "in_window T (acc @ [t]) \<le> ?L" for T
    proof (cases "T - window \<le> t \<and> t \<le> T")
      case True
      have "in_window T acc \<le> since (T - window) acc" by (rule in_window_since)
      also have "\<dots> \<le> since (t - window) (log key)"
        using Cons.prems(3) [of "T - window"] since_mono [of "t - window" "T - window" "log key"] True by simp
      finally show ?thesis using l(2) True by (simp add: in_window_append)
    qed (use Cons.prems(2) [of T] in \<open>auto simp: in_window_append\<close>)
    moreover have "since lo (acc @ [t]) \<le> since lo (log1 key)" for lo
      using Cons.prems(3) [of lo] l(1) by (simp add: since_def)
    ultimately show ?thesis using Cons.IH [OF r(1), of "acc @ [t]"] True by (simp add: x r(2))
  next
    case False
    have "since lo acc \<le> since lo (log1 key)" for lo using Cons.prems(3) [of lo] grows [of lo] by simp
    with Cons.IH [OF r(1) Cons.prems(2)] False show ?thesis by (auto simp: x r(2))
  qed
qed (simp add: in_window_def)

text \<open>
  Property C27. What the in-memory limiter guarantees. Whatever is called, as long as time does not run
  backwards, no sixty-second window, wherever it starts, contains more accepted requests of a key than the
  rate plus the burst; and the table never tracks more keys than its cap.
\<close>

theorem limiter_bounds:
  assumes "sorted (map snd cs)" "run_limiter cs (new_with_burst rpm burst) = (bs, rl)"
  shows "in_window T (accepted key cs bs) \<le> unat (rpm + burst) \<and> length (rl_windows rl) \<le> MAX_TRACKED_KEYS"
proof -
  obtain t where t: "sorted (t # map snd cs)"
    using assms(1) by (cases "map snd cs") (auto intro: that [of 0] that [of "snd (hd cs)"])
  obtain bs' log' where s: "run_spec (new_with_burst rpm burst) cs (\<lambda>_. []) = (bs', log')" by fastforce
  from run_sim [OF sim_new same_config_new t assms(2) s] obtain t' where
    r: "bs = bs'" "sim (rl_max_keys rl) t' (rl_windows rl) log'" by blast
  have "rl_max_keys rl = MAX_TRACKED_KEYS"
    using run_keeps_config [OF assms(2)] by (simp add: new_with_burst_def)
  then have "length (rl_windows rl) \<le> MAX_TRACKED_KEYS" using r(2) by (simp add: sim_def)
  moreover have "in_window T ([] @ accepted key cs bs') \<le> unat (rpm + burst)"
    using run_spec_bounded [OF s, of "[]"] by (simp add: in_window_def since_def new_with_burst_def)
  ultimately show ?thesis using r(1) by simp
qed

theorem limiter_bounds_witness:
  "in_window (30 * second) (accepted ''a'' [(CheckKey ''a'', 0), (CheckKey ''a'', second)]
     (fst (run_limiter [(CheckKey ''a'', 0), (CheckKey ''a'', second)] (new_with_burst 1 0)))) \<le> 1"
proof -
  let ?cs = "[(CheckKey ''a'', 0), (CheckKey ''a'', second)]"
  obtain bs rl where r: "run_limiter ?cs (new_with_burst 1 0) = (bs, rl)" by fastforce
  have "sorted (map snd ?cs)" by (simp add: second_def)
  from limiter_bounds [OF this r, of "30 * second" "''a''"] r show ?thesis by simp
qed

section \<open>The fixed window in the database\<close>

text \<open>A sequence of charges to one key at given times, and the cost of the ones that were allowed.\<close>

fun charge_all :: "string \<Rightarrow> int \<Rightarrow> int \<Rightarrow> (int \<times> int) list \<Rightarrow> rate_db \<Rightarrow> (int \<times> int) list" where
  "charge_all key max_requests secs [] db = []"
| "charge_all key max_requests secs ((t, cost) # cs) db =
     (case check_and_increment_by key max_requests secs cost (db\<lparr>now := t\<rparr>) of
        (b, db') \<Rightarrow> (if b then [(t, cost)] else []) @ charge_all key max_requests secs cs db')"

definition row_of :: "string \<Rightarrow> rate_db \<Rightarrow> rate_row option" where
  "row_of key db = List.find (\<lambda>r. rr_key r = key) (rate_limits db)"

lemma find_map_key:
  assumes "\<And>r. rr_key (f r) = rr_key r"
  shows "List.find (\<lambda>r. rr_key r = key) (map (\<lambda>r. if rr_key r = key then f r else r) rs)
    = map_option f (List.find (\<lambda>r. rr_key r = key) rs)"
  using assms by (induction rs) auto

lemma charge_key [simp]: "rr_key (charge t secs cost r) = rr_key r"
  by (simp add: charge_def)

lemma row_of_charge:
  "row_of key (snd (check_and_increment_by key mx secs cost db))
   = Some (case row_of key db of
       None \<Rightarrow> \<lparr>rr_key = key, rr_count = cost, rr_window_start = now db, rr_updated_at = now db\<rparr>
     | Some r \<Rightarrow> charge (now db) secs cost r)"
proof (cases "\<exists>r\<in>set (rate_limits db). rr_key r = key")
  case True
  then have "row_of key db \<noteq> None" by (auto simp: row_of_def find_None_iff_all)
  with True show ?thesis
    by (auto simp: check_and_increment_by_def upsert_rate_def Let_def row_of_def find_map_key)
next
  case False
  then have "row_of key db = None" by (simp add: row_of_def find_None_iff_all)
  with False show ?thesis
    by (auto simp: check_and_increment_by_def upsert_rate_def Let_def row_of_def find_append)
qed

lemma verdict_charge:
  "fst (check_and_increment_by key mx secs cost db)
   \<longleftrightarrow> rr_count (the (row_of key (snd (check_and_increment_by key mx secs cost db)))) \<le> mx"
proof -
  have "fst (check_and_increment_by key mx secs cost db) = (case row_of key (snd (check_and_increment_by key mx secs cost db)) of
      None \<Rightarrow> False | Some r \<Rightarrow> rr_count r \<le> mx)" by (simp add: check_and_increment_by_def Let_def row_of_def)
  then show ?thesis by (simp add: row_of_charge)
qed

definition spent :: "(int \<Rightarrow> bool) \<Rightarrow> (int \<times> int) list \<Rightarrow> int" where
  "spent P xs = sum_list (map snd (filter (\<lambda>(t, _). P t) xs))"

abbreviation "within T secs t \<equiv> T \<le> t \<and> t \<le> T + secs"

lemma spent_append [simp]: "spent P (xs @ ys) = spent P xs + spent P ys"
  and spent_one [simp]: "spent P [(t, c)] = (if P t then c else 0)" and spent_nil [simp]: "spent P [] = 0"
  by (simp_all add: spent_def)

lemma spent_mono:
  "(\<And>t c. (t, c) \<in> set xs \<Longrightarrow> 0 \<le> c) \<Longrightarrow> (\<And>t c. (t, c) \<in> set xs \<Longrightarrow> P t \<Longrightarrow> Q t) \<Longrightarrow> spent P xs \<le> spent Q xs"
  unfolding spent_def by (induction xs) force+

lemma spent_none: "(\<And>t c. (t, c) \<in> set xs \<Longrightarrow> \<not> P t) \<Longrightarrow> spent P xs = 0"
  by (induction xs) (auto simp: spent_def)

text \<open>
  A point in a history: the current window started at \<open>s\<close> and has charged \<open>n\<close>; \<open>C\<close> are the charges allowed in
  it and \<open>P\<close> those of earlier windows.
\<close>

definition budget_ok :: "int \<Rightarrow> int \<Rightarrow> int \<Rightarrow> int \<Rightarrow> (int \<times> int) list \<Rightarrow> (int \<times> int) list \<Rightarrow> bool" where
  "budget_ok mx secs s n P C \<longleftrightarrow>
     (\<forall>(t, c)\<in>set (P @ C). 0 \<le> c) \<and> (\<forall>(t, c)\<in>set P. t < s) \<and> (\<forall>(t, c)\<in>set C. s \<le> t \<and> t \<le> s + secs)
     \<and> spent (\<lambda>_. True) C \<le> n \<and> spent (\<lambda>_. True) C \<le> mx \<and> spent (\<lambda>t. s - secs \<le> t) P \<le> mx
     \<and> (\<forall>T. spent (within T secs) (P @ C) \<le> 2 * mx)"

lemma budget_same_window:
  assumes ok: "budget_ok mx secs s n P C" and t: "s \<le> t" "t \<le> s + secs" and c: "0 \<le> c"
  shows "budget_ok mx secs s (n + c) P (C @ (if n + c \<le> mx then [(t, c)] else []))"
proof (cases "n + c \<le> mx")
  case True
  have "spent (within T secs) (P @ C @ [(t, c)]) \<le> 2 * mx" for T
  proof (cases "within T secs t")
    case True
    have "spent (within T secs) P \<le> spent (\<lambda>t. s - secs \<le> t) P"
      by (rule spent_mono) (use ok t True in \<open>auto simp: budget_ok_def\<close>)
    moreover have "spent (within T secs) C \<le> spent (\<lambda>_. True) C"
      by (rule spent_mono) (use ok in \<open>auto simp: budget_ok_def\<close>)
    ultimately show ?thesis using ok \<open>n + c \<le> mx\<close> True by (simp add: budget_ok_def)
  next
    case False
    then show ?thesis using ok by (auto simp: budget_ok_def)
  qed
  then show ?thesis using ok t c True unfolding budget_ok_def by auto
next
  case False
  then show ?thesis using ok c unfolding budget_ok_def by auto
qed

lemma budget_next_window:
  assumes ok: "budget_ok mx secs s n P C" and t: "s + secs < t" "0 \<le> secs"
    and c: "0 \<le> c" and mx: "0 \<le> mx"
  shows "budget_ok mx secs t c (P @ C) (if c \<le> mx then [(t, c)] else [])"
proof -
  have "spent (\<lambda>x. t - secs \<le> x) P = 0" by (rule spent_none) (use ok t in \<open>auto simp: budget_ok_def\<close>)
  moreover have "spent (\<lambda>x. t - secs \<le> x) C \<le> spent (\<lambda>_. True) C"
    by (rule spent_mono) (use ok in \<open>auto simp: budget_ok_def\<close>)
  ultimately have prev: "spent (\<lambda>x. t - secs \<le> x) (P @ C) \<le> mx" using ok by (simp add: budget_ok_def)
  have "spent (within T secs) ((P @ C) @ (if c \<le> mx then [(t, c)] else [])) \<le> 2 * mx" for T
  proof (cases "within T secs t")
    case True
    have "spent (within T secs) (P @ C) \<le> spent (\<lambda>x. t - secs \<le> x) (P @ C)"
      by (rule spent_mono) (use ok True in \<open>auto simp: budget_ok_def\<close>)
    then show ?thesis using prev mx c by auto
  next
    case False
    then show ?thesis using ok by (auto simp: budget_ok_def)
  qed
  then show ?thesis using prev ok t c mx unfolding budget_ok_def by force
qed

lemma charge_all_bounded:
  assumes "row_of key db = Some r" "budget_ok mx secs (rr_window_start r) (rr_count r) P C"
    "sorted (map fst cs)" "\<forall>(t, c)\<in>set cs. rr_window_start r \<le> t \<and> 0 \<le> c" "0 \<le> mx" "0 \<le> secs"
  shows "spent (within T secs) (P @ C @ charge_all key mx secs cs db) \<le> 2 * mx"
  using assms
proof (induction cs arbitrary: db r P C)
  case (Cons x cs)
  obtain t c where x: "x = (t, c)" by fastforce
  let ?db = "db\<lparr>now := t\<rparr>"
  obtain b db' where run: "check_and_increment_by key mx secs c ?db = (b, db')" by fastforce
  have r: "row_of key ?db = Some r" using Cons.prems(1) by (simp add: row_of_def)
  let ?r = "charge t secs c r"
  have row: "row_of key db' = Some ?r" using row_of_charge [of key mx secs c ?db] run r by simp
  have b: "b \<longleftrightarrow> rr_count ?r \<le> mx" using verdict_charge [of key mx secs c ?db] run row by simp
  have t: "rr_window_start r \<le> t" "0 \<le> c" using Cons.prems(4) by (auto simp: x)
  have later: "sorted (map fst cs)" "\<forall>(t', c)\<in>set cs. t \<le> t' \<and> 0 \<le> c"
    using Cons.prems(3,4) by (auto simp: x)
  show ?case
  proof (cases "secs < t - rr_window_start r")
    case True
    then have r': "rr_window_start ?r = t" "rr_count ?r = c" by (simp_all add: charge_def)
    have "budget_ok mx secs t c (P @ C) (if b then [(t, c)] else [])"
      using budget_next_window [OF Cons.prems(2) _ Cons.prems(6) t(2) Cons.prems(5)] True b r' by simp
    with Cons.IH [OF row _ later(1) _ Cons.prems(5,6), of "P @ C" "if b then [(t, c)] else []"] later(2) r'
    show ?thesis by (simp add: x run)
  next
    case False
    then have r': "rr_window_start ?r = rr_window_start r" "rr_count ?r = rr_count r + c" by (simp_all add: charge_def)
    have "budget_ok mx secs (rr_window_start r) (rr_count r + c) P (C @ (if b then [(t, c)] else []))"
      using budget_same_window [OF Cons.prems(2) t(1) _ t(2)] False b r' by simp
    moreover have "\<forall>(t', c)\<in>set cs. rr_window_start r \<le> t' \<and> 0 \<le> c" using later(2) t(1) by auto
    ultimately show ?thesis
      using Cons.IH [OF row _ later(1) _ Cons.prems(5,6), of P "C @ (if b then [(t, c)] else [])"] r' by (simp add: x run)
  qed
qed (auto simp: budget_ok_def)

text \<open>
  Property C29. What the limiter in the database guarantees. The windows are fixed, not sliding: each starts
  with the first request after the last one ended. So for charges in the order of time, the cost allowed in
  any interval as long as the window is at most twice the limit, whatever the requests cost and whenever
  they come.
\<close>

theorem charges_are_bounded:
  assumes "row_of key db = None" "sorted (map fst cs)" "\<forall>(t, c)\<in>set cs. 0 \<le> c" "0 \<le> mx" "0 \<le> secs"
  shows "spent (within T secs) (charge_all key mx secs cs db) \<le> 2 * mx"
proof (cases cs)
  case (Cons x rest)
  obtain t c where x: "x = (t, c)" by fastforce
  let ?db = "db\<lparr>now := t\<rparr>"
  obtain b db' where run: "check_and_increment_by key mx secs c ?db = (b, db')" by fastforce
  let ?r = "\<lparr>rr_key = key, rr_count = c, rr_window_start = t, rr_updated_at = t\<rparr>"
  have row: "row_of key db' = Some ?r"
    using row_of_charge [of key mx secs c ?db] run assms(1) by (simp add: row_of_def)
  have b: "b \<longleftrightarrow> c \<le> mx" using verdict_charge [of key mx secs c ?db] run row by simp
  have "budget_ok mx secs t c [] (if b then [(t, c)] else [])"
    using assms b by (auto simp: budget_ok_def Cons x)
  moreover have "\<forall>(t', c)\<in>set rest. t \<le> t' \<and> 0 \<le> c" "sorted (map fst rest)" using assms by (auto simp: Cons x)
  ultimately show ?thesis
    using charge_all_bounded [OF row _ _ _ assms(4,5), of "[]" "if b then [(t, c)] else []" rest] by (simp add: Cons x run)
qed (use assms in simp)

theorem charges_are_bounded_witness:
  "spent (within 1 60) (charge_all ''user:7'' 5 60 [(0, 3), (59, 2), (61, 5), (62, 1)] \<lparr>now = 0, rate_limits = []\<rparr>) \<le> 10
   \<and> charge_all ''user:7'' 5 60 [(0, 3), (59, 2), (61, 5), (62, 1)] \<lparr>now = 0, rate_limits = []\<rparr> = [(0, 3), (59, 2), (61, 5)]"
proof -
  have "spent (within 1 60) (charge_all ''user:7'' 5 60 [(0, 3), (59, 2), (61, 5), (62, 1)] \<lparr>now = 0, rate_limits = []\<rparr>) \<le> 2 * 5"
    by (rule charges_are_bounded) (auto simp: row_of_def)
  then show ?thesis by (simp add: check_and_increment_by_def upsert_rate_def charge_def)
qed

text \<open>
  The older pair of calls never resets the window: once it has expired, \<^verbatim>\<open>check_rate_limit\<close> allows everything
  for ever, however often \<^verbatim>\<open>increment_counter\<close> is called.
\<close>

lemma increment_counter_keeps_window:
  assumes "row_of key db = Some r"
  shows "row_of key (increment_counter key db) = Some (r\<lparr>rr_count := rr_count r + 1, rr_updated_at := now db\<rparr>)"
proof -
  have "\<exists>x\<in>set (rate_limits db). rr_key x = key" using assms by (auto simp: row_of_def dest: find_Some_in_set)
  then show ?thesis using assms by (simp add: increment_counter_def upsert_rate_def row_of_def find_map_key)
qed

lemma expired_window_stays_open:
  assumes "row_of key db = Some r" "secs < now db - rr_window_start r" "now db \<le> t"
  shows "check_rate_limit ((increment_counter key db)\<lparr>now := t\<rparr>) key mx secs"
  using increment_counter_keeps_window [OF assms(1)] assms(2,3) by (simp add: check_rate_limit_def row_of_def)

text \<open>
  The middleware in front of the routes fails closed: a request that is authenticated, not on an open path and
  not from an exempt address is let through only when the limiter could be reached and allowed its cost.
\<close>

lemma middleware_lets_through:
  assumes "\<not> open_path path" "\<And>a. ip = Some a \<Longrightarrow> \<not> exempt a"
  shows "fst (rate_limit_middleware exempt reachable path verb ip (Some (user, limit)) db) = Next
    \<longleftrightarrow> reachable \<and> fst (check_and_increment_by (''user:'' @ show_int user) limit 60 (endpoint_cost path verb) db)"
  using assms by (auto simp: rate_limit_middleware_def split: option.splits prod.splits bool.splits)

end
