(* ===== verification/Approvals.thy ===== *)
theory Approvals
  imports Kleos_Prelude
begin

text \<open>
  Human approvals of agent actions (\<^verbatim>\<open>kleos-lib/src/approvals\<close>): requests with an expiry, decided once. Instants
  are those of \<^verbatim>\<open>chrono\<close>, which up to the year 9999 print in a form whose text order is the order of time; the
  random id of a request and the range of representable instants are arguments.

  \<^verbatim>\<open>decide\<close> reads the row and writes it in two database calls. The model has the two parts apart, so that the
  machine of calls that do not overlap and the interleaving of two calls can both be stated.
\<close>

section \<open>types.rs\<close>

datatype approval_status = ApPending | ApApproved | ApDenied | ApExpired

fun ap_as_str :: "approval_status \<Rightarrow> string" where
  "ap_as_str ApPending = ''pending''"
| "ap_as_str ApApproved = ''approved''"
| "ap_as_str ApDenied = ''denied''"
| "ap_as_str ApExpired = ''expired''"

definition ap_parse :: "string \<Rightarrow> approval_status option" where
  "ap_parse s =
     (if s = ''pending'' then Some ApPending else if s = ''approved'' then Some ApApproved
      else if s = ''denied'' then Some ApDenied else if s = ''expired'' then Some ApExpired else None)"

fun ap_debug :: "approval_status \<Rightarrow> string" where
  "ap_debug ApPending = ''Pending''"
| "ap_debug ApApproved = ''Approved''"
| "ap_debug ApDenied = ''Denied''"
| "ap_debug ApExpired = ''Expired''"

record approval =
  ap_id :: string
  ap_action :: string
  ap_context :: "string option"
  ap_requester :: string
  ap_status :: approval_status
  ap_decision_by :: "string option"
  ap_decision_reason :: "string option"
  ap_created_at :: int
  ap_expires_at :: int
  ap_decided_at :: "int option"
  ap_user_id :: int

definition seconds_remaining :: "(int \<Rightarrow> int) \<Rightarrow> int \<Rightarrow> approval \<Rightarrow> int" where
  "seconds_remaining num_seconds t a = (if ap_expires_at a \<le> t then 0 else num_seconds (ap_expires_at a - t))"

definition is_expired :: "int \<Rightarrow> approval \<Rightarrow> bool" where
  "is_expired t a \<longleftrightarrow> ap_status a = ApPending \<and> ap_expires_at a \<le> t"

record create_approval_request =
  ca_action :: string
  ca_context :: "string option"
  ca_requester :: string
  ca_window_secs :: "int option"

datatype approval_decision = Approved | Denied

record decide_request =
  dr_decision :: approval_decision
  dr_decided_by :: "string option"
  dr_reason :: "string option"

section \<open>mod.rs\<close>

record approval_row =
  aw_id :: string
  aw_action :: string
  aw_context :: "string option"
  aw_requester :: string
  aw_status :: string
  aw_decision_by :: "string option"
  aw_decision_reason :: "string option"
  aw_created_at :: int
  aw_expires_at :: int
  aw_decided_at :: "int option"
  aw_user_id :: int

record approval_db = database +
  approvals :: "approval_row list"

definition DEFAULT_APPROVAL_WINDOW_SECS :: int where
  "DEFAULT_APPROVAL_WINDOW_SECS = 120"

text \<open>
  \<open>add_secs\<close> adds seconds to an instant; \<open>None\<close> stands for the panic of \<^verbatim>\<open>chrono\<close> when the result is out of range.
\<close>

definition create_approval ::
    "(int \<Rightarrow> int \<Rightarrow> int option) \<Rightarrow> string \<Rightarrow> create_approval_request \<Rightarrow> int \<Rightarrow> approval_db \<Rightarrow> (approval result \<times> approval_db) option" where
  "create_approval add_secs uuid req user db =
     (case add_secs (now db) (case ca_window_secs req of Some w \<Rightarrow> w | None \<Rightarrow> DEFAULT_APPROVAL_WINDOW_SECS) of
        None \<Rightarrow> None
      | Some expires \<Rightarrow>
          if \<exists>r\<in>set (approvals db). aw_id r = uuid
          then Some (Err (Database ''UNIQUE constraint failed: approvals.id''), db)
          else Some
            (Ok \<lparr>ap_id = uuid, ap_action = ca_action req, ap_context = ca_context req, ap_requester = ca_requester req,
               ap_status = ApPending, ap_decision_by = None, ap_decision_reason = None, ap_created_at = now db,
               ap_expires_at = expires, ap_decided_at = None, ap_user_id = user\<rparr>,
             db\<lparr>approvals := approvals db @ [\<lparr>aw_id = uuid, aw_action = ca_action req, aw_context = ca_context req,
               aw_requester = ca_requester req, aw_status = ''pending'', aw_decision_by = None, aw_decision_reason = None,
               aw_created_at = now db, aw_expires_at = expires, aw_decided_at = None, aw_user_id = user\<rparr>]\<rparr>))"

definition row_to_approval :: "approval_row \<Rightarrow> int \<Rightarrow> approval result" where
  "row_to_approval r owner =
     (case ap_parse (aw_status r) of
        None \<Rightarrow> Err (Internal (''invalid status: '' @ aw_status r))
      | Some st \<Rightarrow> Ok \<lparr>ap_id = aw_id r, ap_action = aw_action r, ap_context = aw_context r, ap_requester = aw_requester r,
          ap_status = st, ap_decision_by = aw_decision_by r, ap_decision_reason = aw_decision_reason r,
          ap_created_at = aw_created_at r, ap_expires_at = aw_expires_at r, ap_decided_at = aw_decided_at r,
          ap_user_id = owner\<rparr>)"

definition ap_owned :: "string \<Rightarrow> int \<Rightarrow> approval_row \<Rightarrow> bool" where
  "ap_owned i user r \<longleftrightarrow> aw_id r = i \<and> aw_user_id r = user"

definition get_approval :: "approval_db \<Rightarrow> string \<Rightarrow> int \<Rightarrow> approval option result" where
  "get_approval db i user =
     (case List.find (ap_owned i user) (approvals db) of
        None \<Rightarrow> Ok None
      | Some r \<Rightarrow> (case row_to_approval r user of Inl e \<Rightarrow> Err e | Inr a \<Rightarrow> Ok (Some a)))"

fun approvals_of :: "int \<Rightarrow> approval_row list \<Rightarrow> approval list result" where
  "approvals_of user [] = Ok []"
| "approvals_of user (r # rs) =
     (case row_to_approval r user of
        Inl e \<Rightarrow> Err e
      | Inr a \<Rightarrow> (case approvals_of user rs of Inl e \<Rightarrow> Err e | Inr l \<Rightarrow> Ok (a # l)))"

definition list_pending :: "approval_db \<Rightarrow> int \<Rightarrow> approval list result" where
  "list_pending db user =
     approvals_of user (sort_key aw_expires_at (filter (\<lambda>r. aw_status r = ''pending'' \<and> aw_user_id r = user) (approvals db)))"

definition upd_approval :: "(approval_row \<Rightarrow> bool) \<Rightarrow> (approval_row \<Rightarrow> approval_row) \<Rightarrow> approval_db \<Rightarrow> approval_db" where
  "upd_approval P f db = db\<lparr>approvals := map (\<lambda>r. if P r then f r else r) (approvals db)\<rparr>"

text \<open>The part of \<^verbatim>\<open>decide\<close> up to the write, and the write.\<close>

datatype decide_plan = Refuse eng_error | MarkExpired | Write approval

definition decide_read :: "string \<Rightarrow> int \<Rightarrow> approval_db \<Rightarrow> decide_plan" where
  "decide_read i user db =
     (case get_approval db i user of
        Inl e \<Rightarrow> Refuse e
      | Inr None \<Rightarrow> Refuse (NotFound (''approval '' @ i @ '' not found''))
      | Inr (Some a) \<Rightarrow>
          if ap_status a \<noteq> ApPending
          then Refuse (InvalidInput (''approval '' @ i @ '' is not pending (status: '' @ ap_debug (ap_status a) @ '')''))
          else if is_expired (now db) a then MarkExpired else Write a)"

definition decided_status :: "approval_decision \<Rightarrow> approval_status" where
  "decided_status d = (case d of Approved \<Rightarrow> ApApproved | Denied \<Rightarrow> ApDenied)"

definition decide_write :: "string \<Rightarrow> decide_request \<Rightarrow> int \<Rightarrow> decide_plan \<Rightarrow> approval_db \<Rightarrow> approval result \<times> approval_db" where
  "decide_write i req user plan db =
     (case plan of
        Refuse e \<Rightarrow> (Err e, db)
      | MarkExpired \<Rightarrow> (Err (InvalidInput (''approval '' @ i @ '' has expired'')),
          upd_approval (ap_owned i user) (\<lambda>r. r\<lparr>aw_status := ''expired''\<rparr>) db)
      | Write a \<Rightarrow>
          (Ok (a\<lparr>ap_status := decided_status (dr_decision req), ap_decision_by := dr_decided_by req,
              ap_decision_reason := dr_reason req, ap_decided_at := Some (now db)\<rparr>),
           upd_approval (ap_owned i user) (\<lambda>r. r\<lparr>aw_status := ap_as_str (decided_status (dr_decision req)),
              aw_decision_by := dr_decided_by req, aw_decision_reason := dr_reason req,
              aw_decided_at := Some (now db)\<rparr>) db))"

definition decide :: "string \<Rightarrow> decide_request \<Rightarrow> int \<Rightarrow> approval_db \<Rightarrow> approval result \<times> approval_db" where
  "decide i req user db = decide_write i req user (decide_read i user db) db"

definition expire_stale :: "approval_db \<Rightarrow> nat \<times> approval_db" where
  "expire_stale db =
     (let old = (\<lambda>r. aw_status r = ''pending'' \<and> aw_expires_at r < now db) in
      (length (filter old (approvals db)), upd_approval old (\<lambda>r. r\<lparr>aw_status := ''expired''\<rparr>) db))"

section \<open>The life of a request\<close>

inductive approval_step :: "approval_db \<Rightarrow> approval_db \<Rightarrow> bool" where
  create: "create_approval add_secs uuid req user db = Some (r, db') \<Longrightarrow> approval_step db db'"
| decide: "approval_step db (snd (decide i req user db))"
| expire: "approval_step db (snd (expire_stale db))"
| time: "now db \<le> t \<Longrightarrow> approval_step db (db\<lparr>now := t\<rparr>)"

text \<open>What is true of every row, and how a row may develop.\<close>

definition row_inv :: "int \<Rightarrow> approval_row \<Rightarrow> bool" where
  "row_inv t r \<longleftrightarrow> ap_parse (aw_status r) \<noteq> None
     \<and> (if aw_status r = ''approved'' \<or> aw_status r = ''denied''
        then \<exists>d. aw_decided_at r = Some d \<and> d \<le> t
        else aw_decided_at r = None)"

definition approvals_inv :: "approval_db \<Rightarrow> bool" where
  "approvals_inv db \<longleftrightarrow> distinct (map aw_id (approvals db)) \<and> (\<forall>r\<in>set (approvals db). row_inv (now db) r)"

definition row_develops :: "approval_row \<Rightarrow> approval_row \<Rightarrow> bool" where
  "row_develops r r' \<longleftrightarrow> aw_id r' = aw_id r \<and> aw_user_id r' = aw_user_id r \<and> aw_action r' = aw_action r
     \<and> aw_expires_at r' = aw_expires_at r \<and> (aw_status r \<noteq> ''pending'' \<longrightarrow> r' = r)"

lemma ap_parse_eq: "ap_parse s = Some st \<longleftrightarrow> s = ap_as_str st"
  by (cases st) (auto simp: ap_parse_def)

lemma ap_parse_as_str [simp]: "ap_parse (ap_as_str st) = Some st"
  by (simp add: ap_parse_eq)

lemma decided_status_str: "ap_as_str (decided_status d) = ''approved'' \<or> ap_as_str (decided_status d) = ''denied''"
  by (cases d) (auto simp: decided_status_def)

lemma find_owned:
  assumes "distinct (map aw_id (approvals db))" "List.find (ap_owned i user) (approvals db) = Some r" "x \<in> set (approvals db)"
  shows "ap_owned i user x \<longleftrightarrow> x = r"
proof -
  have "r \<in> set (approvals db)" "ap_owned i user r" using find_Some_in_set [OF assms(2)] by auto
  with assms(1,3) show ?thesis by (auto simp: ap_owned_def dest: distinct_map_eq)
qed

text \<open>The four outcomes of \<^verbatim>\<open>decide\<close>.\<close>

lemma decide_cases:
  assumes inv: "approvals_inv db"
  obtains (missing) "decide i req user db = (Err (NotFound (''approval '' @ i @ '' not found'')), db)"
      "\<forall>r\<in>set (approvals db). \<not> ap_owned i user r"
  | (settled) r msg where "r \<in> set (approvals db)" "ap_owned i user r" "aw_status r \<noteq> ''pending''"
      "decide i req user db = (Err (InvalidInput msg), db)"
  | (late) r msg where "r \<in> set (approvals db)" "ap_owned i user r" "aw_status r = ''pending''" "aw_expires_at r \<le> now db"
      "decide i req user db = (Err (InvalidInput msg),
         db\<lparr>approvals := map (\<lambda>x. if x = r then r\<lparr>aw_status := ''expired''\<rparr> else x) (approvals db)\<rparr>)"
  | (decided) r a where "r \<in> set (approvals db)" "ap_owned i user r" "aw_status r = ''pending''" "now db < aw_expires_at r"
      "ap_status a = decided_status (dr_decision req)" "decide i req user db = (Ok a,
         db\<lparr>approvals := map (\<lambda>x. if x = r then r\<lparr>aw_status := ap_as_str (decided_status (dr_decision req)),
           aw_decision_by := dr_decided_by req, aw_decision_reason := dr_reason req, aw_decided_at := Some (now db)\<rparr> else x) (approvals db)\<rparr>)"
proof (cases "List.find (ap_owned i user) (approvals db)")
  case None
  then have "decide i req user db = (Err (NotFound (''approval '' @ i @ '' not found'')), db)"
    by (simp add: decide_def decide_read_def decide_write_def get_approval_def)
  with None show ?thesis by (intro missing) (auto simp: find_None_iff_all)
next
  case (Some r)
  have r: "r \<in> set (approvals db)" "ap_owned i user r" using find_Some_in_set [OF Some] by auto
  have d: "distinct (map aw_id (approvals db))" using inv by (simp add: approvals_inv_def)
  obtain st where st: "ap_parse (aw_status r) = Some st" using inv r(1) by (auto simp: approvals_inv_def row_inv_def)
  have upd: "upd_approval (ap_owned i user) f db = db\<lparr>approvals := map (\<lambda>x. if x = r then f r else x) (approvals db)\<rparr>" for f
    unfolding upd_approval_def using find_owned [OF d Some] by (auto intro!: arg_cong [where f = "\<lambda>x. db\<lparr>approvals := x\<rparr>"])
  let ?a = "\<lambda>st. \<lparr>ap_id = aw_id r, ap_action = aw_action r, ap_context = aw_context r, ap_requester = aw_requester r,
      ap_status = st, ap_decision_by = aw_decision_by r, ap_decision_reason = aw_decision_reason r,
      ap_created_at = aw_created_at r, ap_expires_at = aw_expires_at r, ap_decided_at = aw_decided_at r, ap_user_id = user\<rparr>"
  have g: "get_approval db i user = Ok (Some (?a st))" by (simp add: get_approval_def row_to_approval_def Some st)
  note unf = decide_def decide_read_def decide_write_def g
  have p: "aw_status r = ''pending'' \<longleftrightarrow> st = ApPending" using st by (cases st) (auto simp: ap_parse_eq)
  consider "st \<noteq> ApPending" | "st = ApPending" "aw_expires_at r \<le> now db" | "st = ApPending" "now db < aw_expires_at r" by fastforce
  then show ?thesis
  proof cases
    case 1
    then have "\<exists>msg. decide i req user db = (Err (InvalidInput msg), db)" by (simp add: unf)
    then show ?thesis using 1 r p settled by blast
  next
    case 2
    then have "\<exists>msg. decide i req user db = (Err (InvalidInput msg),
         db\<lparr>approvals := map (\<lambda>x. if x = r then r\<lparr>aw_status := ''expired''\<rparr> else x) (approvals db)\<rparr>)"
      by (simp add: unf is_expired_def upd)
    then show ?thesis using 2 r p late by blast
  next
    case 3
    show ?thesis by (rule decided [of r "(?a st)\<lparr>ap_status := decided_status (dr_decision req), ap_decision_by := dr_decided_by req,
        ap_decision_reason := dr_reason req, ap_decided_at := Some (now db)\<rparr>"])
      (use 3 r p in \<open>simp_all add: unf is_expired_def upd\<close>)
  qed
qed

lemma row_inv_mono: "row_inv t r \<Longrightarrow> t \<le> t' \<Longrightarrow> row_inv t' r"
  by (auto simp: row_inv_def)

lemma inv_replace:
  assumes inv: "approvals_inv db" and r': "aw_id r' = aw_id r" "row_inv (now db) r'"
  shows "approvals_inv (db\<lparr>approvals := map (\<lambda>x. if x = r then r' else x) (approvals db)\<rparr>)"
proof -
  have "map aw_id (map (\<lambda>x. if x = r then r' else x) (approvals db)) = map aw_id (approvals db)" using r'(1) by auto
  then show ?thesis using inv r'(2) by (auto simp: approvals_inv_def simp del: map_map)
qed

lemma inv_decide:
  assumes inv: "approvals_inv db"
  shows "approvals_inv (snd (decide i req user db))"
  using inv
proof (cases rule: decide_cases [of db i req user])
  case (late r msg)
  then have "row_inv (now db) (r\<lparr>aw_status := ''expired''\<rparr>)"
    using inv by (auto simp: approvals_inv_def row_inv_def ap_parse_def)
  then show ?thesis unfolding late(5) snd_conv by (intro inv_replace [OF inv]) simp_all
next
  case (decided r a)
  have "row_inv (now db) (r\<lparr>aw_status := ap_as_str (decided_status (dr_decision req)), aw_decision_by := dr_decided_by req,
      aw_decision_reason := dr_reason req, aw_decided_at := Some (now db)\<rparr>)"
    using decided_status_str [of "dr_decision req"] by (auto simp: row_inv_def)
  then show ?thesis unfolding decided(6) snd_conv by (intro inv_replace [OF inv]) simp_all
qed (simp_all add: inv)

lemma inv_expire: "approvals_inv db \<Longrightarrow> approvals_inv (snd (expire_stale db))"
proof -
  assume inv: "approvals_inv db"
  have "map aw_id (approvals (snd (expire_stale db))) = map aw_id (approvals db)"
    by (simp add: expire_stale_def upd_approval_def Let_def)
  moreover have "row_inv (now db) r'" if "r' \<in> set (approvals (snd (expire_stale db)))" for r'
  proof -
    from that obtain r where r: "r \<in> set (approvals db)"
      "r' = r \<or> aw_status r = ''pending'' \<and> r' = r\<lparr>aw_status := ''expired''\<rparr>"
      by (auto simp: expire_stale_def upd_approval_def Let_def split: if_splits)
    have ok: "row_inv (now db) r" using r(1) inv by (simp add: approvals_inv_def)
    from r(2) show ?thesis
    proof
      assume "aw_status r = ''pending'' \<and> r' = r\<lparr>aw_status := ''expired''\<rparr>"
      with ok show ?thesis by (auto simp: row_inv_def ap_parse_def)
    qed (use ok in simp)
  qed
  moreover have "now (snd (expire_stale db)) = now db" by (simp add: expire_stale_def upd_approval_def Let_def)
  ultimately show ?thesis using inv by (simp add: approvals_inv_def)
qed

lemma inv_create:
  "approvals_inv db \<Longrightarrow> create_approval add_secs uuid req user db = Some (r, db') \<Longrightarrow> approvals_inv db'"
  by (auto simp: create_approval_def approvals_inv_def row_inv_def ap_parse_def split: option.splits if_splits)

interpretation approvals: state_machine approval_step approvals_inv
proof (unfold_locales, goal_cases)
  case (1 db db')
  from 1(2,1) show ?case
  proof cases
    case (time t)
    then show ?thesis using 1(1) row_inv_mono by (auto simp: approvals_inv_def)
  qed (auto intro: inv_create inv_decide inv_expire)
qed


lemma row_develops_refl [simp]: "row_develops r r"
  by (simp add: row_develops_def)






section \<open>Properties\<close>


definition demo_approvals :: approval_db where
  "demo_approvals = \<lparr>now = 10, approvals = [\<lparr>aw_id = ''x'', aw_action = ''deploy'', aw_context = None, aw_requester = ''bot'',
     aw_status = ''pending'', aw_decision_by = None, aw_decision_reason = None, aw_created_at = 10, aw_expires_at = 130,
     aw_decided_at = None, aw_user_id = 1\<rparr>]\<rparr>"

definition approve_request :: decide_request where
  "approve_request = \<lparr>dr_decision = Approved, dr_decided_by = Some ''ann'', dr_reason = None\<rparr>"


text \<open>
  Calls that overlap are another matter: the write does not check that the request is still pending, so a
  denial is replaced by an approval that was read before it.
\<close>

lemma concurrent_decisions_overwrite:
  "\<exists>db i user d a r db1 db2. approvals_inv db \<and> dr_decision d = Denied \<and> dr_decision a = Approved
    \<and> decide i d user db = (Ok r, db1) \<and> db2 = snd (decide_write i a user (decide_read i user db) db1)
    \<and> map aw_status (approvals db1) = [''denied''] \<and> map aw_status (approvals db2) = [''approved'']"
proof -
  let ?d = "approve_request\<lparr>dr_decision := Denied\<rparr>"
  have "approvals_inv demo_approvals" by (simp add: approvals_inv_def demo_approvals_def row_inv_def ap_parse_def)
  moreover obtain r db1 where d: "decide ''x'' ?d 1 demo_approvals = (Ok r, db1)" "map aw_status (approvals db1) = [''denied'']"
    by (simp add: decide_def decide_read_def decide_write_def get_approval_def row_to_approval_def demo_approvals_def ap_owned_def
        ap_parse_def is_expired_def upd_approval_def approve_request_def decided_status_def)
  moreover have "map aw_status (approvals (snd (decide_write ''x'' approve_request 1 (decide_read ''x'' 1 demo_approvals) db1))) = [''approved'']"
    using d(1) by (auto simp: decide_def decide_read_def decide_write_def get_approval_def row_to_approval_def demo_approvals_def ap_owned_def
        ap_parse_def is_expired_def upd_approval_def approve_request_def decided_status_def)
  moreover have "dr_decision ?d = Denied" "dr_decision approve_request = Approved" by (simp_all add: approve_request_def)
  ultimately show ?thesis
    by (intro exI [of _ demo_approvals] exI [of _ "''x''"] exI [of _ 1] exI [of _ ?d] exI [of _ approve_request]
        exI [of _ db1] exI [of _ r] exI conjI refl) simp_all
qed

end
