(* ===== verification/Tenant_Ids.thy ===== *)
theory Tenant_Ids
  imports Kleos_Prelude "HOL-Library.Word"
begin

text \<open>
  From user ids to tenant ids, which name directories (\<^verbatim>\<open>kleos-lib/src/tenant/id.rs\<close>). Strings are UTF-8 byte
  strings, so a character outside ASCII is a sequence of bytes that are not alphanumeric. SHA-256 is an
  argument; it yields 32 bytes.
\<close>

unbundle bit_operations_syntax

definition MAX_TENANT_ID_LENGTH :: nat where
  "MAX_TENANT_ID_LENGTH = 64"

definition HASH_PREFIX_LENGTH :: nat where
  "HASH_PREFIX_LENGTH = 32"

definition is_ascii_alphanumeric :: "char \<Rightarrow> bool" where
  "is_ascii_alphanumeric c \<longleftrightarrow>
     CHR ''0'' \<le> c \<and> c \<le> CHR ''9'' \<or> CHR ''A'' \<le> c \<and> c \<le> CHR ''Z'' \<or> CHR ''a'' \<le> c \<and> c \<le> CHR ''z''"

definition safe_char :: "char \<Rightarrow> bool" where
  "safe_char c \<longleftrightarrow> is_ascii_alphanumeric c \<or> c = CHR ''-'' \<or> c = CHR ''_''"

definition is_safe_tenant_id :: "string \<Rightarrow> bool" where
  "is_safe_tenant_id user_id \<longleftrightarrow> user_id \<noteq> [] \<and> length user_id \<le> MAX_TENANT_ID_LENGTH \<and> list_all safe_char user_id"

definition HEX :: string where
  "HEX = ''0123456789abcdef''"

definition hex_encode_byte :: "8 word \<Rightarrow> string" where
  "hex_encode_byte b = [HEX ! unat (drop_bit 4 b), HEX ! unat (b AND 0x0F)]"

definition hash_to_tenant_id :: "(string \<Rightarrow> 8 word list) \<Rightarrow> string \<Rightarrow> string" where
  "hash_to_tenant_id sha256 user_id =
     ''t_'' @ concat (map hex_encode_byte (take (HASH_PREFIX_LENGTH div 2) (sha256 user_id)))"

definition tenant_id_from_user :: "(string \<Rightarrow> 8 word list) \<Rightarrow> string \<Rightarrow> string" where
  "tenant_id_from_user sha256 user_id =
     (if is_safe_tenant_id user_id then user_id else hash_to_tenant_id sha256 user_id)"

section \<open>Tenant ids are safe\<close>

lemma HEX_safe: "n < 16 \<Longrightarrow> safe_char (HEX ! n)"
proof -
  have "list_all safe_char HEX" by code_simp
  moreover have "length HEX = 16" by code_simp
  moreover assume "n < 16"
  ultimately show ?thesis by (simp add: list_all_length)
qed

lemma nibble_bounds: "unat (drop_bit 4 (b :: 8 word)) < 16" "unat (b AND 0x0F) < 16"
proof -
  have "unat b < 2 ^ 8" using unsigned_less [of b, where 'a = nat] by simp
  then have bound: "drop_bit 4 (unat b) < 16" by (simp add: drop_bit_eq_div less_mult_imp_div_less)
  have "take_bit LENGTH(8) (unat b) = unat b" by (rule take_bit_nat_eq_self) (rule unsigned_less)
  then show "unat (drop_bit 4 b) < 16" using bound by (simp add: unsigned_drop_bit_eq del: unsigned_take_bit_eq)
  have "unat (b AND 0x0F) \<le> unat (0x0F :: 8 word)"
    unfolding word_le_nat_alt [symmetric] by (rule word_and_le1)
  then show "unat (b AND 0x0F) < 16" by simp
qed

lemma hex_safe: "list_all safe_char (hex_encode_byte b)"
  by (simp add: hex_encode_byte_def HEX_safe nibble_bounds)

lemma length_concat_hex: "length (concat (map hex_encode_byte bs)) = 2 * length bs"
  by (induction bs) (simp_all add: hex_encode_byte_def)

lemma concat_hex_safe: "list_all safe_char (concat (map hex_encode_byte bs))"
  using hex_safe by (induction bs) simp_all

lemma hash_to_tenant_id_safe:
  assumes "length (sha256 u) = 32"
  shows "is_safe_tenant_id (hash_to_tenant_id sha256 u)" "length (hash_to_tenant_id sha256 u) = 34"
proof -
  show len: "length (hash_to_tenant_id sha256 u) = 34"
    using assms by (simp add: hash_to_tenant_id_def length_concat_hex HASH_PREFIX_LENGTH_def)
  have "safe_char (CHR ''t'')" "safe_char (CHR ''_'')" by code_simp+
  then have "list_all safe_char (hash_to_tenant_id sha256 u)"
    by (simp add: hash_to_tenant_id_def concat_hex_safe)
  then show "is_safe_tenant_id (hash_to_tenant_id sha256 u)"
    using len by (auto simp: is_safe_tenant_id_def MAX_TENANT_ID_LENGTH_def)
qed

text \<open>
  Property C30. Whatever a user id contains, its tenant id is a safe name for a directory: not empty, at most
  64 characters, and made of ASCII letters, digits, dash and underscore only, so it has no separator and no
  dot; and mapping a tenant id again gives the same tenant id.
\<close>

theorem tenant_id_is_safe:
  assumes "\<And>s. length (sha256 s) = 32"
  shows "is_safe_tenant_id (tenant_id_from_user sha256 u)
    \<and> CHR ''/'' \<notin> set (tenant_id_from_user sha256 u) \<and> CHR ''.'' \<notin> set (tenant_id_from_user sha256 u)
    \<and> tenant_id_from_user sha256 (tenant_id_from_user sha256 u) = tenant_id_from_user sha256 u"
proof -
  have safe: "is_safe_tenant_id (tenant_id_from_user sha256 u)"
    using hash_to_tenant_id_safe [of sha256 u] assms by (simp add: tenant_id_from_user_def)
  then have chars: "safe_char c" if "c \<in> set (tenant_id_from_user sha256 u)" for c
    using that by (simp add: is_safe_tenant_id_def list_all_iff)
  have "\<not> safe_char (CHR ''/'')" "\<not> safe_char (CHR ''.'')" by code_simp+
  then have "CHR ''/'' \<notin> set (tenant_id_from_user sha256 u)" "CHR ''.'' \<notin> set (tenant_id_from_user sha256 u)"
    using chars by blast+
  moreover have "tenant_id_from_user sha256 (tenant_id_from_user sha256 u) = tenant_id_from_user sha256 u"
    using safe by (subst tenant_id_from_user_def) simp
  ultimately show ?thesis using safe by simp
qed

theorem tenant_id_is_safe_witness:
  "is_safe_tenant_id (tenant_id_from_user (\<lambda>s. replicate 32 0xAB) ''../etc/passwd'')
   \<and> CHR ''/'' \<notin> set (tenant_id_from_user (\<lambda>s. replicate 32 0xAB) ''../etc/passwd'')"
  using tenant_id_is_safe [of "\<lambda>s. replicate 32 0xAB" "''../etc/passwd''"] by simp

text \<open>
  The map is not injective, whatever the hash: the hashed form of a user id is itself a user id that is used
  as it is, so a user with that name shares the tenant.
\<close>

lemma hashed_id_is_taken_directly:
  assumes "length (sha256 u) = 32" "\<not> is_safe_tenant_id u"
  shows "tenant_id_from_user sha256 (hash_to_tenant_id sha256 u) = tenant_id_from_user sha256 u"
    "hash_to_tenant_id sha256 u \<noteq> u"
  using hash_to_tenant_id_safe [of sha256 u, OF assms(1)] assms(2) by (auto simp: tenant_id_from_user_def)

end
