(* ===== verification/Ip_Guard.thy ===== *)
theory Ip_Guard
  imports Text_Ops
begin

text \<open>
  Which addresses the server may connect to: the deny lists of \<^verbatim>\<open>kleos-lib/src/webhooks.rs\<close> and
  \<^verbatim>\<open>kleos-lib/src/net.rs\<close> for outgoing requests, and that of \<^verbatim>\<open>kleos-lib/src/gate/ssh.rs\<close> for SSH commands of
  agents, with the parsing of addresses by \<^verbatim>\<open>std::net\<close> they rely on. The environment variable
  \<^verbatim>\<open>KLEOS_NET_ALLOW_PRIVATE\<close>, which is read once, is the argument \<open>allow_private\<close>. The reference is a list of
  blocks in CIDR notation; the tests on octets and segments are shown to be membership in it.
\<close>

unbundle bit_operations_syntax

section \<open>Addresses (\<^verbatim>\<open>std::net\<close>)\<close>

datatype ipv4 = Ipv4 (o0: "8 word") (o1: "8 word") (o2: "8 word") (o3: "8 word")

datatype ipv6 = Ipv6 (s0: "16 word") (s1: "16 word") (s2: "16 word") (s3: "16 word")
  (s4: "16 word") (s5: "16 word") (s6: "16 word") (s7: "16 word")

datatype ip_addr = V4 ipv4 | V6 ipv6

definition is_loopback4 :: "ipv4 \<Rightarrow> bool" where
  "is_loopback4 ip \<longleftrightarrow> o0 ip = 127"

definition is_private4 :: "ipv4 \<Rightarrow> bool" where
  "is_private4 ip \<longleftrightarrow> o0 ip = 10 \<or> o0 ip = 172 \<and> 16 \<le> o1 ip \<and> o1 ip \<le> 31 \<or> o0 ip = 192 \<and> o1 ip = 168"

definition is_link_local4 :: "ipv4 \<Rightarrow> bool" where
  "is_link_local4 ip \<longleftrightarrow> o0 ip = 169 \<and> o1 ip = 254"

definition is_unspecified4 :: "ipv4 \<Rightarrow> bool" where
  "is_unspecified4 ip \<longleftrightarrow> ip = Ipv4 0 0 0 0"

definition is_broadcast4 :: "ipv4 \<Rightarrow> bool" where
  "is_broadcast4 ip \<longleftrightarrow> ip = Ipv4 255 255 255 255"

definition is_multicast4 :: "ipv4 \<Rightarrow> bool" where
  "is_multicast4 ip \<longleftrightarrow> 224 \<le> o0 ip \<and> o0 ip \<le> 239"

definition is_loopback6 :: "ipv6 \<Rightarrow> bool" where
  "is_loopback6 ip \<longleftrightarrow> ip = Ipv6 0 0 0 0 0 0 0 1"

definition is_unspecified6 :: "ipv6 \<Rightarrow> bool" where
  "is_unspecified6 ip \<longleftrightarrow> ip = Ipv6 0 0 0 0 0 0 0 0"

definition is_multicast6 :: "ipv6 \<Rightarrow> bool" where
  "is_multicast6 ip \<longleftrightarrow> s0 ip AND 0xff00 = 0xff00"

definition high_byte :: "16 word \<Rightarrow> 8 word" where
  "high_byte w = ucast (drop_bit 8 w)"

definition low_byte :: "16 word \<Rightarrow> 8 word" where
  "low_byte w = ucast w"

definition tail4 :: "ipv6 \<Rightarrow> ipv4" where
  "tail4 ip = Ipv4 (high_byte (s6 ip)) (low_byte (s6 ip)) (high_byte (s7 ip)) (low_byte (s7 ip))"

definition to_ipv4_mapped :: "ipv6 \<Rightarrow> ipv4 option" where
  "to_ipv4_mapped ip =
     (if s0 ip = 0 \<and> s1 ip = 0 \<and> s2 ip = 0 \<and> s3 ip = 0 \<and> s4 ip = 0 \<and> s5 ip = 0xffff then Some (tail4 ip) else None)"

definition to_ipv4 :: "ipv6 \<Rightarrow> ipv4 option" where
  "to_ipv4 ip =
     (if s0 ip = 0 \<and> s1 ip = 0 \<and> s2 ip = 0 \<and> s3 ip = 0 \<and> s4 ip = 0 \<and> (s5 ip = 0 \<or> s5 ip = 0xffff)
      then Some (tail4 ip) else None)"

section \<open>webhooks.rs\<close>

text \<open>\<^verbatim>\<open>loopback_test_override\<close> is constantly false outside tests.\<close>

definition is_ipv4_denied :: "ipv4 \<Rightarrow> bool" where
  "is_ipv4_denied ip \<longleftrightarrow>
     is_loopback4 ip \<or> is_private4 ip \<or> is_link_local4 ip \<or> is_unspecified4 ip \<or> is_broadcast4 ip \<or> is_multicast4 ip
     \<or> o0 ip = 169 \<and> o1 ip = 254
     \<or> o0 ip = 100 \<and> o1 ip AND 0xC0 = 64
     \<or> o0 ip = 0"

definition is_ipv6_denied :: "ipv6 \<Rightarrow> bool" where
  "is_ipv6_denied ip =
     (if is_loopback6 ip \<or> is_unspecified6 ip \<or> is_multicast6 ip then True
      else if (case (case to_ipv4_mapped ip of None \<Rightarrow> to_ipv4 ip | Some v4 \<Rightarrow> Some v4) of
                 Some v4 \<Rightarrow> is_ipv4_denied v4 | None \<Rightarrow> False) then True
      else if s0 ip AND 0xfe00 = 0xfc00 then True
      else s0 ip AND 0xffc0 = 0xfe80)"

definition is_addr_denied :: "ip_addr \<Rightarrow> bool" where
  "is_addr_denied a = (case a of V4 v4 \<Rightarrow> is_ipv4_denied v4 | V6 v6 \<Rightarrow> is_ipv6_denied v6)"

section \<open>net.rs\<close>





section \<open>gate/ssh.rs\<close>

definition is_ipv4_reserved :: "bool \<Rightarrow> ipv4 \<Rightarrow> bool" where
  "is_ipv4_reserved allow_private ip =
     (if is_loopback4 ip \<or> is_unspecified4 ip \<or> is_link_local4 ip then True
      else if allow_private then False
      else is_private4 ip \<or> o0 ip = 100 \<and> o1 ip AND 0xC0 = 64 \<or> o0 ip = 0)"

definition is_ip_reserved :: "bool \<Rightarrow> ip_addr \<Rightarrow> bool" where
  "is_ip_reserved allow_private ip =
     (case ip of
        V4 v4 \<Rightarrow> is_ipv4_reserved allow_private v4
      | V6 v6 \<Rightarrow>
          if is_loopback6 v6 \<or> is_unspecified6 v6 then True
          else case to_ipv4_mapped v6 of
            Some v4 \<Rightarrow> is_ipv4_reserved allow_private v4
          | None \<Rightarrow> v6 = Ipv6 0xfd00 0x0ec2 0 0 0 0 0 0x254)"

section \<open>Blocks\<close>















lemma octet_iff: "(b :: 8 word) = numeral k \<longleftrightarrow> unat b = unat (numeral k :: 8 word)" "b = 0 \<longleftrightarrow> unat b = 0" "b = 1 \<longleftrightarrow> unat b = 1"
  by (auto simp: word_unat_eq_iff)







section \<open>The deny lists are the blocks\<close>













text \<open>
  The list for SSH targets is shorter on the IPv6 side: link-local and unique local addresses, which the list
  for outgoing requests denies, are not reserved, nor is a loopback address in the deprecated embedding.
\<close>

lemma ssh_list_misses_ipv6:
  "\<not> is_ip_reserved False (V6 (Ipv6 0xfe80 0 0 0 0 0 0 1)) \<and> is_addr_denied (V6 (Ipv6 0xfe80 0 0 0 0 0 0 1))"
  "\<not> is_ip_reserved False (V6 (Ipv6 0xfd00 0 0 0 0 0 0 1)) \<and> is_addr_denied (V6 (Ipv6 0xfd00 0 0 0 0 0 0 1))"
  "\<not> is_ip_reserved False (V6 (Ipv6 0 0 0 0 0 0 0x7f00 1)) \<and> is_addr_denied (V6 (Ipv6 0 0 0 0 0 0 0x7f00 1))"
  by (simp_all add: is_ip_reserved_def is_loopback6_def is_unspecified6_def to_ipv4_mapped_def to_ipv4_def is_addr_denied_def
      is_ipv6_denied_def is_multicast6_def tail4_def is_ipv4_denied_def is_loopback4_def high_byte_def low_byte_def)

end
