(* ===== verification/Gate_Policy.thy ===== *)
theory Gate_Policy
  imports Ip_Guard Json_Values
begin

text \<open>
  The static policy of the command gate (\<^verbatim>\<open>kleos-lib/src/gate/parser.rs\<close>, \<^verbatim>\<open>ssh.rs\<close> and \<^verbatim>\<open>validator.rs\<close>): which
  commands of an agent are refused by their text. Rules are tried in the order of the code and the first that
  matches gives the reason. The configuration is \<^verbatim>\<open>kleos-config/src/config.rs\<close>; name resolution is an argument.
\<close>

section \<open>Configuration\<close>

record server_entry =
  sv_name :: string
  sv_aliases :: "string list"
  sv_role :: string
  sv_ssh_user :: string
  sv_ssh_port :: "16 word"
  sv_custom_port_required :: bool
  sv_no_reboot :: bool
  sv_notes :: string

record gate_config =
  gc_blocked_patterns :: "string list"
  gc_reserved_targets :: "string list"
  gc_approval_timeout_secs :: "64 word"
  gc_protected_services :: "string list"
  gc_servers :: "server_entry list"

section \<open>Addresses in text (\<^verbatim>\<open>std::net\<close>)\<close>

definition read_octet :: "string \<Rightarrow> (8 word \<times> string) option" where
  "read_octet s =
     (let ds = takeWhile is_ascii_digit s in
      if ds = [] \<or> 3 < length ds \<or> (1 < length ds \<and> hd ds = CHR ''0'') then None
      else case digits_value 10 0 ds of
        Some n \<Rightarrow> if n < 256 then Some (of_nat n, drop (length ds) s) else None
      | None \<Rightarrow> None)"

definition read_dot_octet :: "string \<Rightarrow> (8 word \<times> string) option" where
  "read_dot_octet s = (case s of c # cs \<Rightarrow> if c = CHR ''.'' then read_octet cs else None | [] \<Rightarrow> None)"

definition read_ipv4_addr :: "string \<Rightarrow> (ipv4 \<times> string) option" where
  "read_ipv4_addr s =
     (case read_octet s of None \<Rightarrow> None | Some (a, r1) \<Rightarrow>
      (case read_dot_octet r1 of None \<Rightarrow> None | Some (b, r2) \<Rightarrow>
      (case read_dot_octet r2 of None \<Rightarrow> None | Some (c, r3) \<Rightarrow>
      (case read_dot_octet r3 of None \<Rightarrow> None | Some (d, r4) \<Rightarrow> Some (Ipv4 a b c d, r4)))))"

definition is_hex :: "char \<Rightarrow> bool" where
  "is_hex c \<longleftrightarrow> (case digit_value c of Some d \<Rightarrow> d < 16 | None \<Rightarrow> False)"

definition read_segment :: "string \<Rightarrow> (16 word \<times> string) option" where
  "read_segment s =
     (let ds = takeWhile is_hex s in
      if ds = [] \<or> 4 < length ds then None
      else case digits_value 16 0 ds of Some n \<Rightarrow> Some (of_nat n, drop (length ds) s) | None \<Rightarrow> None)"

text \<open>\<^verbatim>\<open>read_separator\<close>: a colon before every group but the first.\<close>

definition colon :: "bool \<Rightarrow> string \<Rightarrow> string option" where
  "colon first s = (if first then Some s else case s of c # cs \<Rightarrow> if c = CHR '':'' then Some cs else None | [] \<Rightarrow> None)"

definition segments4 :: "ipv4 \<Rightarrow> 16 word list" where
  "segments4 ip = [push_bit 8 (ucast (o0 ip)) OR ucast (o1 ip), push_bit 8 (ucast (o2 ip)) OR ucast (o3 ip)]"

fun read_groups :: "nat \<Rightarrow> bool \<Rightarrow> string \<Rightarrow> 16 word list \<times> bool \<times> string" where
  "read_groups 0 first s = ([], False, s)"
| "read_groups (Suc k) first s =
     (case colon first s of
        None \<Rightarrow> ([], False, s)
      | Some s' \<Rightarrow>
          (case (if 1 \<le> k then read_ipv4_addr s' else None) of
             Some (v4, r) \<Rightarrow> (segments4 v4, True, r)
           | None \<Rightarrow>
               (case read_segment s' of
                  None \<Rightarrow> ([], False, s)
                | Some (g, r) \<Rightarrow> (case read_groups k False r of (gs, v4, r') \<Rightarrow> (g # gs, v4, r')))))"

fun ipv6_of :: "16 word list \<Rightarrow> ipv6 option" where
  "ipv6_of [a, b, c, d, e, f, g, h] = Some (Ipv6 a b c d e f g h)"
| "ipv6_of _ = None"

definition read_ipv6_addr :: "string \<Rightarrow> (ipv6 \<times> string) option" where
  "read_ipv6_addr s =
     (case read_groups 8 True s of
        (head, head_ipv4, r) \<Rightarrow>
          if length head = 8 then map_option (\<lambda>ip. (ip, r)) (ipv6_of head)
          else if head_ipv4 then None
          else case r of
            c1 # c2 # r2 \<Rightarrow>
              if c1 = CHR '':'' \<and> c2 = CHR '':'' then
                (case read_groups (7 - length head) True r2 of
                   (tail, _, r3) \<Rightarrow>
                     map_option (\<lambda>ip. (ip, r3)) (ipv6_of (head @ replicate (8 - length head - length tail) 0 @ tail)))
              else None
          | _ \<Rightarrow> None)"

definition parse_ip :: "string \<Rightarrow> ip_addr option" where
  "parse_ip s =
     (case read_ipv4_addr s of
        Some (v4, r) \<Rightarrow> if r = [] then Some (V4 v4) else None
      | None \<Rightarrow> (case read_ipv6_addr s of Some (v6, r) \<Rightarrow> if r = [] then Some (V6 v6) else None | None \<Rightarrow> None))"

text \<open>\<^verbatim>\<open>Ipv4Addr::from(u32)\<close>.\<close>

definition ipv4_of_u32 :: "32 word \<Rightarrow> ipv4" where
  "ipv4_of_u32 n = Ipv4 (ucast (drop_bit 24 n)) (ucast (drop_bit 16 n)) (ucast (drop_bit 8 n)) (ucast n)"

section \<open>parser.rs\<close>

record ssh_target =
  sh_user :: "string option"
  sh_host :: string
  sh_port :: "nat option"

definition is_ssh_token :: "string \<Rightarrow> bool" where
  "is_ssh_token token \<longleftrightarrow> token = ''ssh'' \<or> after_last (CHR ''/'') token = ''ssh''"

definition ARG_FLAGS :: "string list" where
  "ARG_FLAGS = [''-i'', ''-l'', ''-o'', ''-L'', ''-R'', ''-D'', ''-J'', ''-W'']"

text \<open>The loop over the tokens after \<^verbatim>\<open>ssh\<close>.\<close>

function ssh_args :: "string list \<Rightarrow> nat option \<Rightarrow> string option \<times> nat option" where
  "ssh_args [] port = (None, port)"
| "ssh_args (t # ts) port =
     (if t = ''-p'' \<or> t = ''-P'' then
        (case ts of [] \<Rightarrow> (None, port) | p # ts' \<Rightarrow> ssh_args ts' (from_str_radix 16 10 p))
      else if starts_with t ''-'' then ssh_args (if t \<in> set ARG_FLAGS then drop 1 ts else ts) port
      else if CHR ''='' \<notin> set t then (Some t, port)
      else ssh_args ts port)"
  by pat_completeness auto
termination
  by (relation "measure (\<lambda>(ts, _). length ts)") auto

definition split_user :: "string \<Rightarrow> string option \<times> string" where
  "split_user h = (if CHR ''@'' \<in> set h
     then let host = after_last (CHR ''@'') h in (Some (take (length h - length host - 1) h), host)
     else (None, h))"

definition parse_ssh_target :: "unicode \<Rightarrow> string \<Rightarrow> ssh_target option" where
  "parse_ssh_target U command =
     (case dropWhile (\<lambda>t. \<not> is_ssh_token t) (split_whitespace U command) of
        [] \<Rightarrow> None
      | _ # args \<Rightarrow>
          (case ssh_args args None of
             (None, _) \<Rightarrow> None
           | (Some h, port) \<Rightarrow> (case split_user h of (user, host) \<Rightarrow>
               Some \<lparr>sh_user = user, sh_host = host, sh_port = port\<rparr>)))"

definition check_systemctl_command :: "unicode \<Rightarrow> string \<Rightarrow> string option" where
  "check_systemctl_command U command =
     (case dropWhile (\<lambda>t. t \<noteq> ''systemctl'') (split_whitespace U command) of
        [] \<Rightarrow> None
      | _ # rest \<Rightarrow>
          (case List.find (\<lambda>t. \<not> starts_with t ''-'') (drop 1 rest) of
             None \<Rightarrow> None
           | Some service \<Rightarrow> Some (''systemctl '' @ (case rest of [] \<Rightarrow> [] | action # _ \<Rightarrow> action) @ '' '' @ service @
               '' - verify restart order and service dependencies before proceeding'')))"

definition has_secret_placeholders :: "string \<Rightarrow> bool" where
  "has_secret_placeholders input \<longleftrightarrow> contains input ''{{secret:'' \<or> contains input ''{{secret-raw:''"

section \<open>ssh.rs\<close>

definition trim_brackets :: "string \<Rightarrow> string" where
  "trim_brackets s = (let b = (\<lambda>c. c = CHR ''['' \<or> c = CHR '']'') in rev (dropWhile b (rev (dropWhile b s))))"

definition octal_like :: "string \<Rightarrow> bool" where
  "octal_like p \<longleftrightarrow> starts_with p ''0'' \<and> 1 < length p \<and> list_all is_ascii_digit p"

definition octal_octet :: "string \<Rightarrow> nat option" where
  "octal_octet p = (if octal_like p then from_str_radix 8 8 p else from_str_radix 8 10 p)"

definition is_reserved_ssh_target :: "unicode \<Rightarrow> bool \<Rightarrow> string \<Rightarrow> bool" where
  "is_reserved_ssh_target U allow_private host =
     (let host_trimmed = trim_brackets (to_lowercase U host) in
      case parse_ip host_trimmed of
        Some ip \<Rightarrow> is_ip_reserved allow_private ip
      | None \<Rightarrow>
          if host_trimmed = ''localhost'' \<or> ends_with host_trimmed ''.localhost''
             \<or> host_trimmed = ''metadata.google.internal'' \<or> host_trimmed = ''metadata.google'' then True
          else case Option.bind (strip_prefix ''0x'' host_trimmed) (from_str_radix 32 16) of
            Some num \<Rightarrow> is_ipv4_reserved allow_private (ipv4_of_u32 (of_nat num))
          | None \<Rightarrow>
              (case (if list_all is_ascii_digit host_trimmed \<and> host_trimmed \<noteq> [] \<and> length host_trimmed \<le> 10
                     then from_str_radix 32 10 host_trimmed else None) of
                 Some num \<Rightarrow> is_ipv4_reserved allow_private (ipv4_of_u32 (of_nat num))
               | None \<Rightarrow>
                   (case split_char (CHR ''.'') host_trimmed of
                      [a, b, c, d] \<Rightarrow>
                        if list_ex octal_like [a, b, c, d] then
                          (case (octal_octet a, octal_octet b, octal_octet c, octal_octet d) of
                             (Some w, Some x, Some y, Some z) \<Rightarrow>
                               is_ipv4_reserved allow_private (Ipv4 (of_nat w) (of_nat x) (of_nat y) (of_nat z))
                           | _ \<Rightarrow> False)
                        else False
                    | _ \<Rightarrow> False)))"

text \<open>\<open>lookup_host\<close> is the resolver: \<open>None\<close> when the lookup fails. The text of an address is an argument.\<close>

definition check_ssh_dns_rebind ::
    "(string \<Rightarrow> ip_addr list option) \<Rightarrow> (ip_addr \<Rightarrow> string) \<Rightarrow> bool \<Rightarrow> string \<Rightarrow> nat \<Rightarrow> string option" where
  "check_ssh_dns_rebind lookup_host show_ip allow_private host port =
     (if parse_ip host \<noteq> None then None
      else case lookup_host (host @ '':'' @ show_nat port) of
        None \<Rightarrow> None
      | Some resolved \<Rightarrow>
          (case List.find (is_ip_reserved allow_private) resolved of
             None \<Rightarrow> None
           | Some ip \<Rightarrow> Some (''SSH target '' @ host @ '' resolves to reserved/internal address '' @ show_ip ip @
               '' (DNS rebinding / SSRF prevention)'')))"

definition check_ssh_command :: "unicode \<Rightarrow> bool \<Rightarrow> gate_config \<Rightarrow> string \<Rightarrow> string option" where
  "check_ssh_command U allow_private config command =
     (case parse_ssh_target U command of
        None \<Rightarrow> None
      | Some target \<Rightarrow>
          let host = sh_host target in
          if is_reserved_ssh_target U allow_private host
          then Some (''SSH to reserved/internal target '' @ host @ '' blocked (SSRF prevention)'')
          else if \<exists>r\<in>set (gc_reserved_targets config). to_lowercase U host = to_lowercase U r
          then Some (''SSH to reserved target '' @ host @ '' blocked by configuration'')
          else None)"

section \<open>validator.rs\<close>

fun check_blocked_patterns :: "unicode \<Rightarrow> string \<Rightarrow> string list \<Rightarrow> string option" where
  "check_blocked_patterns U command [] = None"
| "check_blocked_patterns U command (p # ps) =
     (let trimmed = str_trim U p in
      if trimmed \<noteq> [] \<and> contains (to_lowercase U command) (to_lowercase U trimmed)
      then Some (''Command matched blocked pattern: '' @ trimmed)
      else check_blocked_patterns U command ps)"

text \<open>Rules are tried in order: \<open>first_of\<close> gives the reason of the first one that matches.\<close>

fun first_of :: "(bool \<times> string) list \<Rightarrow> string option" where
  "first_of [] = None"
| "first_of ((c, r) # rs) = (if c then Some r else first_of rs)"

definition or_else :: "'a option \<Rightarrow> 'a option \<Rightarrow> 'a option" where
  "or_else a b = (case a of None \<Rightarrow> b | Some x \<Rightarrow> Some x)"

definition rm_rules :: "string \<Rightarrow> string option" where
  "rm_rules c = first_of
     [(contains c ''rm -rf /'' \<and> \<not> contains c ''rm -rf /tmp'', ''Destructive rm -rf on critical path - not allowed''),
      (contains c ''rm -rf ~/'', ''Destructive rm -rf on home directory - not allowed''),
      (contains c ''rm -rf /home'', ''Destructive rm -rf on /home - not allowed''),
      (contains c ''rm -rf /var'', ''Destructive rm -rf on /var - not allowed''),
      (contains c ''rm -rf /etc'', ''Destructive rm -rf on /etc - not allowed''),
      (contains c ''rm -rf /usr'', ''Destructive rm -rf on /usr - not allowed''),
      (contains c ''rm -rf /opt'', ''Destructive rm -rf on /opt - not allowed''),
      (contains c ''rm -rf /boot'', ''Destructive rm -rf on /boot - not allowed'')]"

definition git_rules :: "string \<Rightarrow> string option" where
  "git_rules c = first_of
     [(contains c ''git push'' \<and> contains c ''--force'' \<and> (contains c ''main'' \<or> contains c ''master''),
         ''Force push to main/master branch blocked''),
      (contains c ''git reset --hard'', ''git reset --hard is destructive - use git stash instead'')]"

definition reboot_rules :: "unicode \<Rightarrow> gate_config \<Rightarrow> string \<Rightarrow> string option" where
  "reboot_rules U config c =
     (if contains c ''reboot'' \<or> contains c ''shutdown'' then
        (case List.find (\<lambda>s. sv_no_reboot s \<and> (contains c (to_lowercase U (sv_name s))
             \<or> (\<exists>a\<in>set (sv_aliases s). contains c (to_lowercase U a)))) (gc_servers config) of
           Some s \<Rightarrow> Some (''Reboot/shutdown of '' @ sv_name s @ '' blocked'' @
             (if sv_notes s = [] then [] else '' - '' @ sv_notes s))
         | None \<Rightarrow> if gc_servers config = [] then Some ''Reboot/shutdown commands require explicit confirmation'' else None)
      else None)"

definition seed_rules :: "string \<Rightarrow> string option" where
  "seed_rules c = first_of
     [(contains c ''seed'' \<and> contains c ''demo'',
         ''Seeding demo data blocked - do not seed demo data into any instance without explicit authorization''),
      (contains c ''seed'' \<and> (contains c ''production'' \<or> contains c ''prod''),
         ''Seeding production data blocked - do not seed real data into production without explicit authorization''),
      ((contains c ''sample'' \<or> contains c ''demo'') \<and> (contains c ''insert'' \<or> contains c ''create''),
         ''Inserting sample/demo data requires explicit authorization'')]"

definition service_rules :: "unicode \<Rightarrow> gate_config \<Rightarrow> string \<Rightarrow> string option" where
  "service_rules U config c =
     (if contains c ''systemctl stop'' \<or> contains c ''systemctl restart'' \<or> contains c ''podman stop'' \<or> contains c ''docker stop''
      then (case List.find (\<lambda>svc. contains c (to_lowercase U svc)) (gc_protected_services config) of
              Some svc \<Rightarrow> Some (''Stopping/restarting protected service '' @ svc @ '' requires explicit confirmation'')
            | None \<Rightarrow> None)
      else None)"

definition is_interpreter :: "string \<Rightarrow> bool" where
  "is_interpreter token =
     (let basename = after_last (CHR ''/'') token in
      basename = ''python'' \<or> basename = ''python3'' \<or> starts_with basename ''python3.''
      \<or> basename = ''perl'' \<or> basename = ''perl5'' \<or> basename = ''ruby'')"

text \<open>The loop over the tokens; the rest of the list after a token is what the code indexes by \<^verbatim>\<open>i + 1\<close> and \<^verbatim>\<open>i + 2\<close>.\<close>

fun interpreter_loop :: "string list \<Rightarrow> string option" where
  "interpreter_loop [] = None"
| "interpreter_loop (token # rest) =
     or_else (if is_interpreter token then
                (case rest of
                   flag # _ \<Rightarrow> if flag = ''-c'' \<or> flag = ''-e''
                     then Some (''Inline code execution via '' @ token @ '' '' @ flag @ '' blocked - use a script file instead'') else None
                 | [] \<Rightarrow> None)
              else None)
     (or_else (case rest of
                 next # flag # _ \<Rightarrow>
                   if token = ''env'' \<and> is_interpreter next \<and> (flag = ''-c'' \<or> flag = ''-e'')
                   then Some (''Inline code execution via env '' @ next @ '' '' @ flag @ '' blocked - use a script file instead'')
                   else None
               | _ \<Rightarrow> None)
     (or_else (if token = ''eval'' \<and> rest \<noteq> [] then Some ''eval command blocked - potential command injection vector'' else None)
     (interpreter_loop rest)))"

definition shell_pipe :: "string \<Rightarrow> bool" where
  "shell_pipe c \<longleftrightarrow> contains c ''| sh'' \<or> contains c ''| bash'' \<or> contains c ''|sh'' \<or> contains c ''|bash''
     \<or> contains c ''| /bin/sh'' \<or> contains c ''| /bin/bash''"

definition pipe_rules :: "string \<Rightarrow> string option" where
  "pipe_rules c = first_of
     [((contains c ''base64 -d'' \<or> contains c ''base64 --decode'') \<and> shell_pipe c,
         ''base64 decode piped to shell blocked - potential command obfuscation''),
      (contains c ''xxd -r'' \<and> shell_pipe c, ''hex decode piped to shell blocked - potential command obfuscation''),
      (contains c ''printf'' \<and> (contains c [CHR 0x5C, CHR ''x''] \<or> contains c [CHR 0x5C, CHR ''0'']) \<and> shell_pipe c,
         ''printf escape sequence piped to shell blocked - potential command obfuscation'')]"

definition assigns :: "string \<Rightarrow> string \<Rightarrow> bool" where
  "assigns c cmd \<longleftrightarrow> contains c (''='' @ [CHR 0x22] @ cmd @ [CHR 0x22]) \<or> contains c (''='' @ [CHR 0x27] @ cmd @ [CHR 0x27])
     \<or> contains c (''='' @ cmd @ '';'') \<or> contains c (''='' @ cmd @ '' '') \<or> contains c (''='' @ cmd @ ''&'')"

definition indirection_rules :: "string \<Rightarrow> string option" where
  "indirection_rules c =
     or_else (map_option (\<lambda>cmd. ''Shell variable indirection constructing '' @ quoted cmd @ '' command blocked'')
         (List.find (\<lambda>cmd. assigns c cmd \<and> CHR ''$'' \<in> set c)
            [''rm'', ''mkfs'', ''dd'', ''shutdown'', ''reboot'', ''kill'', ''pkill'']))
     (if CHR 0x60 \<in> set c then
        map_option (\<lambda>cmd. ''Command substitution constructing '' @ quoted cmd @ '' blocked'')
          (List.find (\<lambda>cmd. contains c ([CHR 0x60] @ ''echo '' @ cmd @ [CHR 0x60]) \<or> contains c ([CHR 0x60] @ ''printf '' @ cmd @ [CHR 0x60]))
             [''rm'', ''mkfs'', ''dd'', ''shutdown'', ''reboot''])
      else None)"

definition is_extra_interpreter :: "string \<Rightarrow> bool" where
  "is_extra_interpreter token =
     (let basename = after_last (CHR ''/'') token in
      basename \<in> set [''node'', ''nodejs'', ''deno'', ''bun'', ''lua'', ''luajit'', ''php'', ''tclsh'', ''wish'']
      \<or> starts_with basename ''lua5.'' \<or> starts_with basename ''php8.'')"

fun extra_loop :: "string list \<Rightarrow> string option" where
  "extra_loop [] = None"
| "extra_loop (token # rest) =
     or_else (if is_extra_interpreter token then
                (case rest of
                   flag # _ \<Rightarrow> if flag \<in> set [''-e'', ''-r'', ''eval'', ''--eval'', ''-c'']
                     then Some (''Inline code execution via '' @ token @ '' '' @ flag @ '' blocked - use a script file'') else None
                 | [] \<Rightarrow> None)
              else None)
     (extra_loop rest)"

definition drop_rules :: "string \<Rightarrow> string option" where
  "drop_rules c = first_of
     [(contains c ''drop table'', ''DROP TABLE statement requires manual confirmation''),
      (contains c ''drop database'', ''DROP DATABASE statement requires manual confirmation''),
      (contains c ''mkfs.'' \<or> contains c ''mkfs '', ''Disk format command blocked - requires manual confirmation'')]"

definition check_dangerous_patterns :: "unicode \<Rightarrow> gate_config \<Rightarrow> string \<Rightarrow> string option" where
  "check_dangerous_patterns U config command =
     (let c = to_lowercase U command; tokens = split_whitespace U c in
      or_else (rm_rules c) (or_else (git_rules c) (or_else (reboot_rules U config c) (or_else (seed_rules c)
      (or_else (service_rules U config c) (or_else (interpreter_loop tokens) (or_else (pipe_rules c)
      (or_else (indirection_rules c) (or_else (extra_loop tokens) (drop_rules c))))))))))"

end
