(* ===== verification/Gate.thy ===== *)
theory Gate
  imports Gate_Policy
begin

text \<open>
  Gate requests (\<^verbatim>\<open>kleos-lib/src/gate/mod.rs\<close> and \<^verbatim>\<open>approval.rs\<close>): every command an agent submits is checked and
  recorded; people answer requests that are pending; completed requests store their output with known secrets
  removed. The base64 encoders are arguments.
\<close>

section \<open>Scrubbing\<close>

record base64_engine =
  b64_standard :: "string \<Rightarrow> string"
  b64_url_safe :: "string \<Rightarrow> string"
  b64_no_pad :: "string \<Rightarrow> string"

definition MIN_ENCODED_SCRUB_LEN :: nat where
  "MIN_ENCODED_SCRUB_LEN = 8"

definition hex_nibble :: "nat \<Rightarrow> char" where
  "hex_nibble n = (if n < 10 then char_of (48 + n) else char_of (65 + n - 10))"

definition unreserved :: "char \<Rightarrow> bool" where
  "unreserved c \<longleftrightarrow> CHR ''A'' \<le> c \<and> c \<le> CHR ''Z'' \<or> CHR ''a'' \<le> c \<and> c \<le> CHR ''z'' \<or> CHR ''0'' \<le> c \<and> c \<le> CHR ''9''
     \<or> c \<in> {CHR ''-'', CHR ''_'', CHR ''.'', CHR ''~''}"

definition percent_encode_secret :: "string \<Rightarrow> string" where
  "percent_encode_secret input =
     concat (map (\<lambda>b. if unreserved b then [b]
        else [CHR ''%'', hex_nibble (of_char b div 16), hex_nibble (of_char b mod 16)]) input)"

definition replace_if :: "bool \<Rightarrow> string \<Rightarrow> string \<Rightarrow> string \<Rightarrow> string" where
  "replace_if applies p m t = (if applies \<and> contains t p then str_replace p (marker m) t else t)"

definition scrub_encoded :: "base64_engine \<Rightarrow> string \<Rightarrow> string \<Rightarrow> string" where
  "scrub_encoded B secret t =
     (let b64_std = b64_standard B secret; b64_url = b64_url_safe B secret; b64_nopad = b64_no_pad B secret;
          pct = percent_encode_secret secret in
      replace_if (pct \<noteq> secret) pct ''REDACTED:pct''
        (replace_if (b64_nopad \<noteq> b64_std) b64_nopad ''REDACTED:b64''
          (replace_if (b64_url \<noteq> b64_std) b64_url ''REDACTED:b64''
            (replace_if True b64_std ''REDACTED:b64'' t))))"

definition scrub_one :: "base64_engine \<Rightarrow> string \<Rightarrow> string \<Rightarrow> string" where
  "scrub_one B secret t =
     (if secret = [] then t
      else let t' = str_replace secret (marker ''REDACTED'') t in
        if MIN_ENCODED_SCRUB_LEN \<le> length secret then scrub_encoded B secret t' else t')"

definition scrub_output :: "base64_engine \<Rightarrow> string \<Rightarrow> string list \<Rightarrow> string" where
  "scrub_output B output known_secrets = fold (scrub_one B) known_secrets output"

section \<open>Requests\<close>

definition READ_ONLY_TOOLS :: "string list" where
  "READ_ONLY_TOOLS = [''Read'', ''Glob'', ''Grep'', ''LS'', ''TodoRead'']"

definition TOOLS_REQUIRING_APPROVAL :: "string list" where
  "TOOLS_REQUIRING_APPROVAL = [''Bash'', ''Write'', ''Edit'', ''WebFetch'', ''WebSearch'']"

definition APPROVAL_TIMEOUT_SECS :: int where
  "APPROVAL_TIMEOUT_SECS = 120"

record gate_check_request =
  gq_command :: string
  gq_agent :: string
  gq_context :: "string option"
  gq_tool_name :: "string option"
  gq_session_id :: "string option"
  gq_skip_approval :: bool

record gate_check_result =
  ga_allowed :: bool
  ga_reason :: "string option"
  ga_resolved_command :: "string option"
  ga_gate_id :: int
  ga_requires_approval :: bool
  ga_enrichment :: "string option"

record gate_row =
  gr_id :: int
  gr_user_id :: int
  gr_agent :: string
  gr_command :: string
  gr_context :: "string option"
  gr_status :: string
  gr_reason :: "string option"
  gr_output :: "string option"
  gr_session_id :: "string option"
  gr_created_at :: int
  gr_updated_at :: int

record memory_row =
  me_id :: int
  me_user_id :: int
  me_content :: string
  me_source :: string
  me_importance :: int
  me_is_static :: bool
  me_is_forgotten :: bool
  me_is_archived :: bool
  me_status :: string
  me_created_at :: int

record gate_db = database +
  gate_requests :: "gate_row table"
  memories :: "memory_row list"

record gate_request_insert =
  gi_user_id :: int
  gi_agent :: string
  gi_command :: string
  gi_context :: "string option"
  gi_status :: string
  gi_reason :: "string option"
  gi_session_id :: "string option"

definition store_gate_request :: "gate_request_insert \<Rightarrow> gate_db \<Rightarrow> int \<times> gate_db" where
  "store_gate_request r db =
     (case insert_row (\<lambda>i. \<lparr>gr_id = i, gr_user_id = gi_user_id r, gr_agent = gi_agent r, gr_command = gi_command r,
          gr_context = gi_context r, gr_status = gi_status r, gr_reason = gi_reason r, gr_output = None,
          gr_session_id = gi_session_id r, gr_created_at = now db, gr_updated_at = now db\<rparr>) (gate_requests db) of
        (i, t) \<Rightarrow> (i, db\<lparr>gate_requests := t\<rparr>))"

text \<open>A blocked command: the row and the answer, as every blocking branch builds them.\<close>

definition insert_of :: "gate_check_request \<Rightarrow> int \<Rightarrow> string option \<Rightarrow> string \<Rightarrow> string option \<Rightarrow> gate_request_insert" where
  "insert_of req user session status reason =
     \<lparr>gi_user_id = user, gi_agent = gq_agent req, gi_command = gq_command req, gi_context = gq_context req,
      gi_status = status, gi_reason = reason, gi_session_id = session\<rparr>"

definition block_request :: "gate_check_request \<Rightarrow> int \<Rightarrow> string option \<Rightarrow> string \<Rightarrow> gate_db \<Rightarrow> gate_check_result \<times> gate_db" where
  "block_request req user session reason db =
     (case store_gate_request (insert_of req user session ''blocked'' (Some reason)) db of
        (i, db') \<Rightarrow> (\<lparr>ga_allowed = False, ga_reason = Some reason, ga_resolved_command = Some (gq_command req),
           ga_gate_id = i, ga_requires_approval = False, ga_enrichment = None\<rparr>, db'))"

definition SECRETS_REASON :: string where
  "SECRETS_REASON = ''Command contains secret placeholders -- resolve before execution''"

definition check_command_with_context ::
    "unicode \<Rightarrow> bool \<Rightarrow> gate_config \<Rightarrow> gate_check_request \<Rightarrow> int \<Rightarrow> string option \<Rightarrow> string list \<Rightarrow> string option
     \<Rightarrow> gate_db \<Rightarrow> gate_check_result \<times> gate_db" where
  "check_command_with_context U allow_private config req user resolved_command blocked_patterns session db =
     (if (case gq_tool_name req of Some tool \<Rightarrow> tool \<in> set READ_ONLY_TOOLS | None \<Rightarrow> False)
      then (case store_gate_request (insert_of req user session ''allowed'' None) db of
              (i, db') \<Rightarrow> (\<lparr>ga_allowed = True, ga_reason = None, ga_resolved_command = Some (gq_command req),
                 ga_gate_id = i, ga_requires_approval = False, ga_enrichment = None\<rparr>, db'))
      else let c = (case resolved_command of Some r \<Rightarrow> r | None \<Rightarrow> gq_command req) in
        case or_else (check_dangerous_patterns U config c) (check_blocked_patterns U c blocked_patterns) of
          Some reason \<Rightarrow> block_request req user session reason db
        | None \<Rightarrow>
            (case (if contains c ''ssh '' \<or> starts_with c ''ssh'' then check_ssh_command U allow_private config c else None) of
               Some reason \<Rightarrow> block_request req user session reason db
             | None \<Rightarrow>
                 let enrichment = (if contains c ''systemctl '' then check_systemctl_command U c else None);
                     has_secrets = has_secret_placeholders c;
                     reason = (if has_secrets then Some SECRETS_REASON else None) in
                 case store_gate_request (insert_of req user session (if has_secrets then ''pending_secrets'' else ''allowed'') reason) db of
                   (i, db') \<Rightarrow>
                     (\<lparr>ga_allowed = (\<not> has_secrets), ga_reason = reason,
                       ga_resolved_command = (if \<not> has_secrets \<or> resolved_command \<noteq> None then Some (gq_command req) else None),
                       ga_gate_id = i, ga_requires_approval = has_secrets, ga_enrichment = enrichment\<rparr>, db')))"

definition check_command :: "unicode \<Rightarrow> bool \<Rightarrow> gate_config \<Rightarrow> gate_check_request \<Rightarrow> int \<Rightarrow> gate_db \<Rightarrow> gate_check_result \<times> gate_db" where
  "check_command U allow_private default_config req user db =
     check_command_with_context U allow_private default_config req user None [] (gq_session_id req) db"

section \<open>Decisions\<close>

record respond_ok =
  ro_approved :: bool
  ro_command :: "string option"

definition of_user :: "int \<Rightarrow> int \<Rightarrow> gate_row \<Rightarrow> bool" where
  "of_user i user r \<longleftrightarrow> gr_id r = i \<and> gr_user_id r = user"

definition pending_of :: "int \<Rightarrow> int \<Rightarrow> gate_row \<Rightarrow> bool" where
  "pending_of i user r \<longleftrightarrow> of_user i user r \<and> gr_status r = ''pending''"

definition set_decision :: "int \<Rightarrow> int \<Rightarrow> string \<Rightarrow> string \<Rightarrow> gate_db \<Rightarrow> gate_db" where
  "set_decision i user status reason db =
     db\<lparr>gate_requests := update_where (pending_of i user)
       (\<lambda>r. r\<lparr>gr_status := status, gr_reason := Some reason, gr_updated_at := now db\<rparr>) (gate_requests db)\<rparr>"

definition respond_to_gate ::
    "int \<Rightarrow> bool \<Rightarrow> string option \<Rightarrow> int \<Rightarrow> string option \<Rightarrow> gate_db \<Rightarrow> respond_ok result \<times> gate_db" where
  "respond_to_gate i approved reason user responder db =
     (let status = (if approved then ''approved'' else ''denied'');
          reason_str = (case reason of Some r \<Rightarrow> r | None \<Rightarrow> if approved then ''approved by user'' else ''denied by user'');
          row = find_where (of_user i user) (gate_requests db) in
      if approved \<and> responder \<noteq> None \<and> map_option gr_agent row = responder
      then (Err (Forbidden (''agent '' @ quoted (the responder) @ '' may not approve its own gate request '' @ show_int i)), db)
      else if count_where (pending_of i user) (gate_requests db) = 0
      then (case row of
              None \<Rightarrow> (Err (NotFound (''gate request '' @ show_int i @ '' not found'')), db)
            | Some r \<Rightarrow> (Err (Conflict (''gate request '' @ show_int i @ '' is already '' @ gr_status r)), db))
      else (Ok \<lparr>ro_approved = approved, ro_command = (if approved then map_option gr_command row else None)\<rparr>,
            set_decision i user status reason_str db))"

record gate_decision =
  gd_status :: string
  gd_reason :: "string option"
  gd_command :: "string option"

definition mark_gate_timed_out :: "int \<Rightarrow> int \<Rightarrow> gate_db \<Rightarrow> bool \<times> gate_db" where
  "mark_gate_timed_out i user db =
     (0 < count_where (pending_of i user) (gate_requests db), set_decision i user ''denied'' ''approval timed out'' db)"

definition read_gate_decision :: "gate_db \<Rightarrow> int \<Rightarrow> int \<Rightarrow> gate_decision option" where
  "read_gate_decision db i user =
     map_option (\<lambda>r. \<lparr>gd_status = gr_status r, gd_reason = gr_reason r, gd_command = Some (gr_command r)\<rparr>)
       (find_where (of_user i user) (gate_requests db))"

section \<open>Completion\<close>

definition complete_gate :: "base64_engine \<Rightarrow> int \<Rightarrow> string \<Rightarrow> string list \<Rightarrow> int \<Rightarrow> gate_db \<Rightarrow> unit result \<times> gate_db" where
  "complete_gate B i output known_secrets user db =
     (if count_where (of_user i user) (gate_requests db) = 0
      then (Err (NotFound (''gate request '' @ show_int i @ '' not found'')), db)
      else (Ok (), db\<lparr>gate_requests := update_where (of_user i user)
        (\<lambda>r. r\<lparr>gr_status := ''completed'', gr_output := Some (scrub_output B output known_secrets), gr_updated_at := now db\<rparr>)
        (gate_requests db)\<rparr>))"

datatype latest_gate_completion = Completed int nat | NoOpenGate | AwaitingMemory int

definition latest_open :: "gate_db \<Rightarrow> int \<Rightarrow> string \<Rightarrow> gate_row option" where
  "latest_open db user session =
     List.find (\<lambda>r. gr_user_id r = user \<and> gr_session_id r = Some session \<and> gr_output r = None) (rev (trows (gate_requests db)))"

definition complete_latest_gate ::
    "base64_engine \<Rightarrow> int \<Rightarrow> string \<Rightarrow> string \<Rightarrow> string list \<Rightarrow> gate_db \<Rightarrow> latest_gate_completion result \<times> gate_db" where
  "complete_latest_gate B user session output known_secrets db =
     (case latest_open db user session of
        None \<Rightarrow> (Ok NoOpenGate, db)
      | Some r \<Rightarrow>
          let stored = length (filter (\<lambda>m. me_source m = gr_agent r \<and> gr_created_at r \<le> me_created_at m) (memories db)) in
          if stored = 0 then (Ok (AwaitingMemory (gr_id r)), db)
          else (case complete_gate B (gr_id r) output known_secrets user db of
                  (Inl e, db') \<Rightarrow> (Err e, db')
                | (Inr _, db') \<Rightarrow> (Ok (Completed (gr_id r) stored), db')))"

section \<open>approval.rs\<close>

record pending_approval =
  pa_gate_id :: int
  pa_agent :: string
  pa_tool_name :: string
  pa_command :: string
  pa_created_at :: int

text \<open>Instants here are in seconds; \<^verbatim>\<open>as_secs\<close> truncates, which the comparison with a whole number does not see.\<close>

definition cleanup_expired_approvals :: "int \<Rightarrow> (int \<times> pending_approval) list \<Rightarrow> (int \<times> pending_approval) list" where
  "cleanup_expired_approvals t approvals = filter (\<lambda>(_, p). t - pa_created_at p < APPROVAL_TIMEOUT_SECS) approvals"

end
