(* ===== verification/Gate_Properties.thy ===== *)
theory Gate_Properties
  imports Gate
begin

text \<open>
  Properties of the gate: what scrubbing removes, what a check lets through and records, and that a request is
  decided once.
\<close>

section \<open>Scrubbing\<close>


















definition demo_base64 :: base64_engine where
  "demo_base64 = \<lparr>b64_standard = (\<lambda>s. if s = ''my-api-key-12345'' then ''bXktYXBpLWtleS0xMjM0NQ=='' else ''AA==''),
     b64_url_safe = (\<lambda>s. ''-A==''), b64_no_pad = (\<lambda>s. ''AA'')\<rparr>"


text \<open>The condition on brackets is needed: a secret that starts with the end of a marker survives its own removal.\<close>

lemma secret_with_bracket_survives:
  "contains (scrub_output demo_base64 ''D]xx'' [''D]x'']) ''D]x''"
  by code_simp

text \<open>
  The exception for \<^verbatim>\<open>/tmp\<close> in the first rule applies to the whole command, so it also hides a removal of the root.
\<close>

lemma tmp_exception_hides_root:
  "rm_rules ''rm -rf /'' \<noteq> None" "rm_rules ''rm -rf /tmp; rm -rf /'' = None"
  by code_simp+

section \<open>The life of a request\<close>

text \<open>
  The steps of the library: a request is stored (also with the status pending, as the function allows), checked,
  answered, timed out or completed, and memories arrive and time passes in between.
\<close>

inductive gate_step :: "gate_db \<Rightarrow> gate_db \<Rightarrow> bool" where
  store: "gate_step db (snd (store_gate_request r db))"
| check: "gate_step db (snd (check_command_with_context U allow config req user resolved patterns session db))"
| respond: "gate_step db (snd (respond_to_gate i approved reason user responder db))"
| timeout: "gate_step db (snd (mark_gate_timed_out i user db))"
| complete: "gate_step db (snd (complete_gate B i out secrets user db))"
| complete_latest: "gate_step db (snd (complete_latest_gate B user session out secrets db))"
| other: "gate_requests db' = gate_requests db \<Longrightarrow> gate_step db db'"

definition gate_inv :: "gate_db \<Rightarrow> bool" where
  "gate_inv db \<longleftrightarrow> wf_table gr_id (gate_requests db)"

text \<open>How a row may develop: who asked for what never changes, and a decision is only ever completed.\<close>

definition row_advances :: "gate_row \<Rightarrow> gate_row \<Rightarrow> bool" where
  "row_advances r r' \<longleftrightarrow> gr_id r' = gr_id r \<and> gr_user_id r' = gr_user_id r \<and> gr_agent r' = gr_agent r \<and> gr_command r' = gr_command r
     \<and> gr_status r' \<in> {gr_status r, ''completed''} \<union> (if gr_status r = ''pending'' then {''approved'', ''denied''} else {})"

definition gate_advances :: "gate_db \<Rightarrow> gate_db \<Rightarrow> bool" where
  "gate_advances db db' \<longleftrightarrow> tseq (gate_requests db) \<le> tseq (gate_requests db')
     \<and> (\<forall>r\<in>set (trows (gate_requests db)). \<exists>r'\<in>set (trows (gate_requests db')). row_advances r r')"

lemma row_advances_refl [simp]: "row_advances r r"
  by (simp add: row_advances_def)

lemma row_advances_trans: "row_advances a b \<Longrightarrow> row_advances b c \<Longrightarrow> row_advances a c"
  by (auto simp: row_advances_def split: if_splits)

lemma gate_advances_refl: "gate_advances db db"
  unfolding gate_advances_def using row_advances_refl by blast

lemma gate_advances_trans: "gate_advances a b \<Longrightarrow> gate_advances b c \<Longrightarrow> gate_advances a c"
  unfolding gate_advances_def using row_advances_trans by (meson order_trans)

text \<open>Every operation appends a row or updates rows in a way they may develop.\<close>

definition gate_change :: "gate_db \<Rightarrow> gate_db \<Rightarrow> bool" where
  "gate_change db db' \<longleftrightarrow> gate_requests db' = gate_requests db
     \<or> (\<exists>mk. (\<forall>i. gr_id (mk i) = i) \<and> gate_requests db' = snd (insert_row mk (gate_requests db)))
     \<or> (\<exists>P f. (\<forall>r. P r \<longrightarrow> row_advances r (f r)) \<and> (\<forall>r. gr_id (f r) = gr_id r) \<and> gate_requests db' = update_where P f (gate_requests db))"

lemma change_same: "gate_requests db' = gate_requests db \<Longrightarrow> gate_change db db'"
  by (simp add: gate_change_def)

lemma change_insert:
  "gate_requests db' = snd (insert_row mk (gate_requests db)) \<Longrightarrow> (\<And>i. gr_id (mk i) = i) \<Longrightarrow> gate_change db db'"
  unfolding gate_change_def by blast

lemma change_update:
  "gate_requests db' = update_where P f (gate_requests db) \<Longrightarrow> (\<And>r. P r \<Longrightarrow> row_advances r (f r)) \<Longrightarrow> (\<And>r. gr_id (f r) = gr_id r)
   \<Longrightarrow> gate_change db db'"
  unfolding gate_change_def by blast

lemma change_store:
  assumes "store_gate_request r db = (i, db')"
  shows "gate_change db db'"
proof (rule change_insert)
  show "gate_requests db' = snd (insert_row (\<lambda>i. \<lparr>gr_id = i, gr_user_id = gi_user_id r, gr_agent = gi_agent r,
      gr_command = gi_command r, gr_context = gi_context r, gr_status = gi_status r, gr_reason = gi_reason r, gr_output = None,
      gr_session_id = gi_session_id r, gr_created_at = now db, gr_updated_at = now db\<rparr>) (gate_requests db))"
    using assms by (auto simp: store_gate_request_def split: prod.splits)
qed simp

lemma change_block: "block_request req user session reason db = (x, db') \<Longrightarrow> gate_change db db'"
  by (auto simp: block_request_def split: prod.splits intro: change_store)

lemma change_check:
  assumes "check_command_with_context U allow config req user resolved patterns session db = (x, db')"
  shows "gate_change db db'"
  using assms unfolding check_command_with_context_def Let_def
  by (auto split: prod.splits option.splits if_splits intro: change_store change_block)

lemma change_set_decision:
  "status \<in> {''approved'', ''denied''} \<Longrightarrow> gate_change db (set_decision i user status reason db)"
  by (rule change_update [where P = "pending_of i user"
        and f = "\<lambda>r. r\<lparr>gr_status := status, gr_reason := Some reason, gr_updated_at := now db\<rparr>"])
    (auto simp: row_advances_def pending_of_def set_decision_def)

lemma change_complete: "gate_change db (snd (complete_gate B i out secrets user db))"
proof (cases "count_where (of_user i user) (gate_requests db) = 0")
  case True
  then show ?thesis by (simp add: complete_gate_def change_same)
next
  case False
  then show ?thesis
    by (intro change_update [where P = "of_user i user" and f = "\<lambda>r. r\<lparr>gr_status := ''completed'',
          gr_output := Some (scrub_output B out secrets), gr_updated_at := now db\<rparr>"])
      (auto simp: row_advances_def complete_gate_def)
qed

lemma change_respond: "gate_change db (snd (respond_to_gate i approved reason user responder db))"
  by (auto simp: respond_to_gate_def Let_def change_set_decision change_same split: option.split)

lemma change_complete_latest: "gate_change db (snd (complete_latest_gate B user session out secrets db))"
proof -
  have "gate_change db db'" if "complete_gate B i out secrets user db = (x, db')" for i x db'
    using change_complete [of db B i out secrets user] that by simp
  then show ?thesis by (auto simp: complete_latest_gate_def Let_def change_same split: option.split prod.split sum.split)
qed

lemma gate_step_change: "gate_step db db' \<Longrightarrow> gate_change db db'"
proof (induction rule: gate_step.induct)
  case (store db r)
  show ?case using change_store [of r db] by (cases "store_gate_request r db") simp
next
  case (check db U allow config req user resolved patterns session)
  show ?case using change_check [of U allow config req user resolved patterns session db]
    by (cases "check_command_with_context U allow config req user resolved patterns session db") simp
next
  case (timeout db i user)
  show ?case by (simp add: mark_gate_timed_out_def change_set_decision)
qed (simp_all add: change_respond change_complete change_complete_latest change_same)

lemma change_inv: "gate_inv db \<Longrightarrow> gate_change db db' \<Longrightarrow> gate_inv db'"
  unfolding gate_inv_def gate_change_def by (elim disjE exE conjE) (simp_all add: wf_insert_row wf_update_where)

lemma change_advances:
  assumes "gate_change db db'"
  shows "gate_advances db db'"
proof -
  have "\<exists>r'\<in>set (map (\<lambda>r. if P r then f r else r) rows). row_advances r r'"
    if "\<forall>r. P r \<longrightarrow> row_advances r (f r)" "r \<in> set rows" for P f r rows
    using that by (intro bexI [of _ "if P r then f r else r"]) auto
  moreover have "\<exists>r'\<in>set rows \<union> A. row_advances r r'" if "r \<in> set rows" for r rows A
    using that by (intro bexI [of _ r]) simp_all
  ultimately show ?thesis
    using assms gate_advances_refl unfolding gate_change_def gate_advances_def
    by (elim disjE exE conjE) (simp_all add: table_simps)
qed

interpretation gate: state_machine gate_step gate_inv
  by unfold_locales (metis change_inv gate_step_change)

lemma pending_unique: "gate_inv db \<Longrightarrow> r \<in> set (trows (gate_requests db)) \<Longrightarrow> gr_status r \<noteq> ''pending'' \<Longrightarrow> gr_id r = i
    \<Longrightarrow> \<not> (\<exists>x\<in>set (trows (gate_requests db)). pending_of i user x)"
  using wf_table_unique [of gr_id "gate_requests db"] by (auto simp: gate_inv_def pending_of_def of_user_def)

lemma count_where_0: "count_where P t = 0 \<longleftrightarrow> \<not> (\<exists>x\<in>set (trows t). P x)"
  by (auto simp: count_where_def filter_empty_conv)

lemma respond_refused:
  assumes "count_where (pending_of i user) (gate_requests db) = 0"
  shows "\<exists>e. respond_to_gate i approved reason user responder db = (Err e, db)"
  using assms by (auto simp: respond_to_gate_def Let_def split: option.split)

text \<open>A response that succeeds: it found a pending request of the user, which somebody else opened.\<close>

lemma respond_Ok:
  assumes inv: "gate_inv db" and ok: "respond_to_gate i approved reason user responder db = (Ok ok, db')"
  obtains r where "r \<in> set (trows (gate_requests db))" "pending_of i user r" "approved \<Longrightarrow> responder \<noteq> Some (gr_agent r)"
    "ro_approved ok = approved" "ro_command ok = (if approved then Some (gr_command r) else None)"
    "\<exists>r'\<in>set (trows (gate_requests db')). row_advances r r' \<and> gr_status r' = (if approved then ''approved'' else ''denied'')"
proof -
  have "count_where (pending_of i user) (gate_requests db) \<noteq> 0"
    using ok respond_refused [of i user db approved reason responder] by auto
  then obtain r where r: "r \<in> set (trows (gate_requests db))" "pending_of i user r" by (auto simp: count_where_0)
  have find: "find_where (of_user i user) (gate_requests db) = Some r"
    using wf_table_find2 [of gr_id "gate_requests db" r "\<lambda>r. gr_user_id r = user"] inv r
    by (simp add: gate_inv_def pending_of_def of_user_def [abs_def])
  have "approved \<Longrightarrow> responder \<noteq> Some (gr_agent r)" "ro_approved ok = approved"
      "ro_command ok = (if approved then Some (gr_command r) else None)"
      and db': "\<exists>why. db' = set_decision i user (if approved then ''approved'' else ''denied'') why db"
    using ok by (auto simp: respond_to_gate_def Let_def find split: if_splits)
  moreover have "\<exists>r'\<in>set (trows (gate_requests db')). row_advances r r' \<and> gr_status r' = (if approved then ''approved'' else ''denied'')"
  proof -
    let ?st = "if approved then ''approved'' else ''denied''"
    obtain why where "db' = set_decision i user ?st why db" using db' ..
    then have "r\<lparr>gr_status := ?st, gr_reason := Some why, gr_updated_at := now db\<rparr> \<in> set (trows (gate_requests db'))"
      using r update_where_row [of r "gate_requests db" "pending_of i user" "\<lambda>r. r\<lparr>gr_status := ?st, gr_reason := Some why, gr_updated_at := now db\<rparr>"]
      by (simp add: set_decision_def)
    then show ?thesis using r(2) by (rule_tac bexI) (auto simp: row_advances_def pending_of_def)
  qed
  ultimately show ?thesis using that r by blast
qed

text \<open>
  Property C23. A gate request is decided once, by somebody else. When a response succeeds, the request was
  pending and belonged to the responder's user, an approval did not come from the agent that asked, and the
  decision is recorded. Whatever happens afterwards, through any sequence of checks, responses, time-outs and
  completions, every further response to that request is refused without effect, the time-out does not apply, and
  the stored decision is the one that was made unless the request has been completed.
\<close>

theorem one_decision_per_gate:
  assumes inv: "gate_inv db" and ok: "respond_to_gate i approved reason user responder db = (Ok ok, db1)"
    and later: "gate_step\<^sup>*\<^sup>* db1 db2"
  shows "(\<exists>r\<in>set (trows (gate_requests db)). pending_of i user r \<and> (approved \<longrightarrow> responder \<noteq> Some (gr_agent r) \<and> ro_command ok = Some (gr_command r)))
    \<and> (\<exists>e. respond_to_gate i approved' reason' user' responder' db2 = (Err e, db2))
    \<and> mark_gate_timed_out i user' db2 = (False, db2)
    \<and> (\<exists>d. read_gate_decision db2 i user = Some d \<and> gd_status d \<in> {if approved then ''approved'' else ''denied'', ''completed''})"
proof -
  obtain r where r: "r \<in> set (trows (gate_requests db))" "pending_of i user r" "approved \<Longrightarrow> responder \<noteq> Some (gr_agent r)"
      "ro_command ok = (if approved then Some (gr_command r) else None)"
    and dec: "\<exists>r'\<in>set (trows (gate_requests db1)). row_advances r r' \<and> gr_status r' = (if approved then ''approved'' else ''denied'')"
    using inv ok by (rule respond_Ok) blast
  obtain r1 where r1: "r1 \<in> set (trows (gate_requests db1))" "row_advances r r1" "gr_status r1 = (if approved then ''approved'' else ''denied'')"
    using dec by blast
  have "gate_step db (snd (respond_to_gate i approved reason user responder db))" by (rule gate_step.respond)
  then have "gate_step db db1" by (simp add: ok)
  then have inv1: "gate_inv db1" using inv gate.step_keeps by blast
  then have inv2: "gate_inv db2" using gate.steps_keep later by blast
  have "gate_advances db1 db2"
    using gate.steps_keep_relation [OF later inv1, of gate_advances] gate_advances_refl gate_advances_trans change_advances gate_step_change by blast
  then obtain r2 where r2: "r2 \<in> set (trows (gate_requests db2))" "row_advances r1 r2" using r1 by (auto simp: gate_advances_def)
  then have st: "gr_id r2 = i" "gr_user_id r2 = user" "gr_status r2 \<in> {if approved then ''approved'' else ''denied'', ''completed''}"
    using r1 r(2) by (auto simp: row_advances_def pending_of_def of_user_def split: if_splits)
  then have none: "count_where (pending_of i u) (gate_requests db2) = 0" for u
    using pending_unique [OF inv2 r2(1)] by (auto simp: count_where_0 split: if_splits)
  have "mark_gate_timed_out i user' db2 = (False, db2)"
    using none [of user'] by (simp add: mark_gate_timed_out_def set_decision_def count_where_0 update_where_none)
  moreover have "read_gate_decision db2 i user = Some \<lparr>gd_status = gr_status r2, gd_reason = gr_reason r2, gd_command = Some (gr_command r2)\<rparr>"
    using wf_table_find2 [of gr_id "gate_requests db2" r2 "\<lambda>r. gr_user_id r = user"] inv2 r2 st
    by (simp add: gate_inv_def read_gate_decision_def of_user_def [abs_def])
  ultimately show ?thesis using r st respond_refused [OF none] by auto
qed

definition demo_gate :: gate_db where
  "demo_gate = \<lparr>now = 7, gate_requests = \<lparr>trows = [\<lparr>gr_id = 1, gr_user_id = 1, gr_agent = ''agent-x'', gr_command = ''deploy'',
     gr_context = None, gr_status = ''pending'', gr_reason = None, gr_output = None, gr_session_id = None, gr_created_at = 5,
     gr_updated_at = 5\<rparr>], tseq = 1\<rparr>, memories = []\<rparr>"

theorem one_decision_per_gate_witness:
  "\<exists>ok db1. respond_to_gate 1 True None 1 (Some ''approver'') demo_gate = (Ok ok, db1)
     \<and> mark_gate_timed_out 1 1 db1 = (False, db1) \<and> ro_command ok = Some ''deploy''"
proof -
  have inv: "gate_inv demo_gate" by (simp add: gate_inv_def demo_gate_def wf_table_def)
  obtain ok db1 where ok: "respond_to_gate 1 True None 1 (Some ''approver'') demo_gate = (Ok ok, db1)" "ro_command ok = Some ''deploy''"
    by (simp add: respond_to_gate_def demo_gate_def find_where_def of_user_def pending_of_def count_where_def)
  from one_decision_per_gate [OF inv ok(1) rtranclp.rtrancl_refl, of _ _ 1] ok show ?thesis by blast
qed

text \<open>
  Completing does not look at the status, so a request that is still pending, or was denied, can be completed; a
  pending one can then no longer be decided.
\<close>

lemma pending_gate_can_be_completed:
  "fst (complete_gate B 1 ''ran it'' [] 1 demo_gate) = Ok ()
   \<and> count_where (pending_of 1 1) (gate_requests (snd (complete_gate B 1 ''ran it'' [] 1 demo_gate))) = 0"
  by (simp add: complete_gate_def demo_gate_def count_where_def of_user_def pending_of_def update_where_def)

end
