(* ===== verification/Gate_Server.thy ===== *)
theory Gate_Server
  imports Gate_Properties
begin

text \<open>
  The HTTP handlers of the gate (\<^verbatim>\<open>kleos-server/src/routes/gate/mod.rs\<close>). A check that needs a person waits for an
  answer with a time limit; the model splits the handler there, so that other requests run in between: the first
  part registers the wait, the second resumes with the answer that was sent or with none (time-out, or the sender
  was dropped). The state is the database, the map of pending approvals and the answers sent and not yet received.

  Arguments: resolving secrets through the credential service, the brain's veto (an associative memory over
  floating-point vectors), coverage by a forge specification, parsing JSON, and the \<^verbatim>\<open>Debug\<close> form of a text.
\<close>

section \<open>State and environment\<close>

record agent_row =
  ag_id :: int
  ag_name :: string
  ag_is_active :: bool

record gate_server =
  gs_db :: gate_db
  gs_agents :: "agent_row list"
  gs_pending :: "(int \<times> pending_approval) list"
  gs_sent :: "(int \<times> bool) list"

record gate_env =
  ge_unicode :: unicode
  ge_allow_private :: bool
  ge_config :: gate_config
  ge_base64 :: base64_engine
  ge_resolve_shell_safe :: "int \<Rightarrow> string \<Rightarrow> string \<Rightarrow> string result"
  ge_resolve_text :: "int \<Rightarrow> string \<Rightarrow> string \<Rightarrow> string result"
  ge_brain :: "int \<Rightarrow> string \<Rightarrow> string option"
  ge_forge_mode :: string
  ge_exempt_contains :: "string option"
  ge_spec_covers :: "int \<Rightarrow> string \<Rightarrow> string \<Rightarrow> bool result"
  ge_parse_json :: "string \<Rightarrow> json option"
  ge_debug :: "string \<Rightarrow> string"
  ge_lookup_host :: "string \<Rightarrow> ip_addr list option"
  ge_show_ip :: "ip_addr \<Rightarrow> string"

record gate_auth =
  au_user :: int
  au_agent_id :: "int option"

section \<open>Helpers of the check\<close>

definition check_agent :: "agent_row list \<Rightarrow> gate_auth \<Rightarrow> string \<Rightarrow> unit result" where
  "check_agent agents auth agent =
     (case au_agent_id auth of
        None \<Rightarrow> Ok ()
      | Some bound_id \<Rightarrow>
          (case List.find (\<lambda>a. ag_id a = bound_id \<and> ag_is_active a) agents of
             Some a \<Rightarrow>
               if ag_name a = agent then Ok ()
               else Err (Forbidden (''api key is bound to agent '' @ quoted (ag_name a) @ '' but request declared agent '' @ quoted agent))
           | None \<Rightarrow> Err (Forbidden (''api key bound to agent id '' @ show_int bound_id @ '' which no longer exists or is revoked''))))"

fun resolve_patterns :: "(string \<Rightarrow> string result) \<Rightarrow> string list \<Rightarrow> string list result" where
  "resolve_patterns f [] = Ok []"
| "resolve_patterns f (p # ps) =
     (case f p of Inl e \<Rightarrow> Err e | Inr q \<Rightarrow> (case resolve_patterns f ps of Inl e \<Rightarrow> Err e | Inr qs \<Rightarrow> Ok (q # qs)))"

text \<open>\<^verbatim>\<open>LIKE '%text%'\<close>, which SQLite compares without regard to the case of ASCII letters.\<close>

definition sql_like :: "string \<Rightarrow> string \<Rightarrow> bool" where
  "sql_like s p \<longleftrightarrow> contains (to_ascii_lowercase s) (to_ascii_lowercase p)"

definition active_rule :: "int \<Rightarrow> memory_row \<Rightarrow> bool" where
  "active_rule user m \<longleftrightarrow> me_is_static m \<and> 8 \<le> me_importance m \<and> \<not> me_is_forgotten m \<and> me_user_id m = user
     \<and> me_status m \<noteq> ''pending'' \<and> \<not> me_is_archived m"

definition by_importance :: "memory_row list \<Rightarrow> memory_row list" where
  "by_importance = sort_key (\<lambda>m. - me_importance m)"

definition agent_model_enrichment :: "gate_db \<Rightarrow> int \<Rightarrow> string option" where
  "agent_model_enrichment db user =
     (let rules = take 3 (by_importance (filter (\<lambda>m. active_rule user m \<and>
            (sql_like (me_content m) ''agent.model.preference'' \<or> sql_like (me_content m) ''force-agent-models''
             \<or> sql_like (me_content m) ''delegate to opencode'' \<or> sql_like (me_content m) ''MODEL DELEGATION'')) (memories db))) in
      if rules = [] then None
      else Some (''AGENT MODEL PREFERENCE:'' @ [CHR 0x0A] @ join ([CHR 0x0A] @ ''---'' @ [CHR 0x0A]) (map me_content rules)))"

definition usable_path :: "string \<Rightarrow> bool" where
  "usable_path p \<longleftrightarrow> p \<noteq> [] \<and> p \<noteq> ''<unknown>''"

definition path_from_context :: "gate_env \<Rightarrow> string option \<Rightarrow> string option" where
  "path_from_context E context =
     (case context of
        None \<Rightarrow> None
      | Some ctx \<Rightarrow>
          (case ge_parse_json E (dropWhile (\<lambda>c. c \<noteq> CHR ''{'') ctx) of
             Some (JObj m) \<Rightarrow>
               (case map_get ''file_path'' m of Some (JStr p) \<Rightarrow> if usable_path p then Some p else None | _ \<Rightarrow> None)
           | _ \<Rightarrow> None))"

definition extract_write_edit_path :: "gate_env \<Rightarrow> string \<Rightarrow> string option \<Rightarrow> string option" where
  "extract_write_edit_path E command context =
     (case (case strip_prefix ''Write '' command of Some p \<Rightarrow> Some p | None \<Rightarrow> strip_prefix ''Edit '' command) of
        Some path \<Rightarrow>
          (let trimmed = str_trim (ge_unicode E) path in
           if usable_path trimmed then Some trimmed else path_from_context E context)
      | None \<Rightarrow> path_from_context E context)"

definition EXEMPT_BASENAMES :: "string list" where
  "EXEMPT_BASENAMES = [''CLAUDE.md'', ''AGENTS.md'', ''GEMINI.md'', ''README.md'']"

definition EXEMPT_EXTS :: "string list" where
  "EXEMPT_EXTS = [''.md'', ''.txt'', ''.json'', ''.yaml'', ''.yml'', ''.toml'', ''.lock'', ''.env'', ''.cfg'', ''.ini'', ''.conf'',
     ''.csv'', ''.xml'', ''.html'', ''.css'', ''.svg'', ''.sh'']"

text \<open>\<^verbatim>\<open>Path::file_name\<close>: the last component, ignoring empty and current-directory parts; none after \<^verbatim>\<open>..\<close>.\<close>

definition file_name :: "string \<Rightarrow> string option" where
  "file_name p =
     (case rev (filter (\<lambda>c. c \<noteq> [] \<and> c \<noteq> ''.'') (split_char (CHR ''/'') p)) of
        [] \<Rightarrow> None | c # _ \<Rightarrow> if c = ''..'' then None else Some c)"

definition is_forge_exempt :: "gate_env \<Rightarrow> string \<Rightarrow> bool" where
  "is_forge_exempt E path =
     (if contains path ''.claude/hooks/'' then True
      else if (case ge_exempt_contains E of
                 Some extra \<Rightarrow> \<exists>frag\<in>set (map (str_trim (ge_unicode E)) (split_char (CHR '','') extra)). frag \<noteq> [] \<and> contains path frag
               | None \<Rightarrow> False) then True
      else let basename = (case file_name path of Some n \<Rightarrow> n | None \<Rightarrow> []) in
        if basename \<in> set EXEMPT_BASENAMES then True
        else \<exists>ext\<in>set EXEMPT_EXTS. ends_with (to_lowercase (ge_unicode E) basename) ext)"

definition no_session_reason :: "gate_env \<Rightarrow> string \<Rightarrow> string" where
  "no_session_reason E path = ''BLOCKED: Write/Edit to code file '' @ ge_debug E path @ '' requires an active agent-forge spec but '' @
     ''no session_id was provided -- cannot verify spec coverage. Ensure the hook sets session_id and run '' @
     [CHR 0x60] @ ''kleos-cli forge spec-task'' @ [CHR 0x60] @ '' first.''"

definition no_spec_reason :: "gate_env \<Rightarrow> string \<Rightarrow> string \<Rightarrow> string" where
  "no_spec_reason E path sid = ''BLOCKED: no active agent-forge spec covers this file this session. Run '' @
     [CHR 0x60] @ ''kleos-cli forge spec-task'' @ [CHR 0x60] @ '' (or the forge.spec_task MCP tool) declaring this file in '' @
     ''files_to_touch, then retry. ZERO code without agent-forge. [file='' @ ge_debug E path @ '' session='' @ ge_debug E sid @ '']''"

definition spec_error_reason :: "gate_env \<Rightarrow> eng_error \<Rightarrow> string \<Rightarrow> string \<Rightarrow> string" where
  "spec_error_reason E e path sid = ''BLOCKED: forge spec coverage check failed with an internal error -- failing closed. Error: '' @
     error_text e @ ''. Contact the operator or retry. [file='' @ ge_debug E path @ '' session='' @ ge_debug E sid @ '']''"

definition spec_warning :: "gate_env \<Rightarrow> string \<Rightarrow> string" where
  "spec_warning E path = ''agent-forge: no spec covers '' @ ge_debug E path @ '' this session -- allowed in warn mode. Run '' @
     [CHR 0x60] @ ''kleos-cli forge spec-task'' @ [CHR 0x60] @ '' to track this work.''"

definition add_enrichment :: "string \<Rightarrow> string \<Rightarrow> gate_check_result \<Rightarrow> gate_check_result" where
  "add_enrichment sep extra res =
     (let e = (case ga_enrichment res of Some e \<Rightarrow> e | None \<Rightarrow> []) in
      res\<lparr>ga_enrichment := Some (e @ (if e = [] then [] else sep) @ extra)\<rparr>)"

text \<open>The forge part of the check: \<open>Some\<close> when the handler returns there.\<close>

definition forge_check ::
    "gate_env \<Rightarrow> gate_check_request \<Rightarrow> int \<Rightarrow> gate_check_result \<Rightarrow> gate_db \<Rightarrow> (gate_check_result \<times> gate_db) option" where
  "forge_check E req user res db =
     (let tool = (case gq_tool_name req of Some t \<Rightarrow> t | None \<Rightarrow> []) in
      if ga_allowed res \<and> ge_forge_mode E \<noteq> ''off'' \<and> (tool = ''Write'' \<or> tool = ''Edit'') then
        (case extract_write_edit_path E (gq_command req) (gq_context req) of
           None \<Rightarrow> Some (res, db)
         | Some path \<Rightarrow>
             if is_forge_exempt E path then Some (res, db)
             else (case gq_session_id req of
                     None \<Rightarrow> Some (block_request req user None (no_session_reason E path) db)
                   | Some sid \<Rightarrow>
                       if sid = [] then Some (block_request req user None (no_session_reason E path) db)
                       else (case ge_spec_covers E user sid path of
                               Inr True \<Rightarrow> Some (res, db)
                             | Inr False \<Rightarrow>
                                 if ge_forge_mode E = ''deny'' then Some (block_request req user (Some sid) (no_spec_reason E path sid) db)
                                 else Some (add_enrichment [CHR 0x0A] (spec_warning E path) res, db)
                             | Inl e \<Rightarrow> Some (block_request req user (Some sid) (spec_error_reason E e path sid) db))))
      else None)"

section \<open>The check\<close>

datatype check_outcome = Failed eng_error | Answer gate_check_result | Waiting gate_check_result

definition ssh_like :: "string \<Rightarrow> bool" where
  "ssh_like c \<longleftrightarrow> contains c ''ssh '' \<or> starts_with c ''ssh''"

definition dns_check :: "gate_env \<Rightarrow> string \<Rightarrow> string option" where
  "dns_check E c =
     (if ssh_like c then
        (case parse_ssh_target (ge_unicode E) c of
           None \<Rightarrow> None
         | Some target \<Rightarrow>
             check_ssh_dns_rebind (ge_lookup_host E) (ge_show_ip E) (ge_allow_private E) (sh_host target)
               (case sh_port target of Some p \<Rightarrow> p | None \<Rightarrow> 22))
      else None)"

text \<open>The part after the policy of the library has answered.\<close>

definition after_policy ::
    "gate_env \<Rightarrow> gate_check_request \<Rightarrow> int \<Rightarrow> string \<Rightarrow> gate_check_result \<Rightarrow> gate_db \<Rightarrow> check_outcome \<times> gate_db" where
  "after_policy E req user resolved res db =
     (case (if ga_allowed res then ge_brain E user resolved else None) of
        Some reason \<Rightarrow> (case block_request req user (gq_session_id req) reason db of (r, db') \<Rightarrow> (Answer r, db'))
      | None \<Rightarrow>
          let res1 = (if ga_allowed res \<and> gq_tool_name req = Some ''Agent''
                      then (case agent_model_enrichment db user of
                              Some directive \<Rightarrow> add_enrichment [CHR 0x0A, CHR 0x0A] directive res | None \<Rightarrow> res)
                      else res) in
          case forge_check E req user res1 db of
            Some (r, db') \<Rightarrow> (Answer r, db')
          | None \<Rightarrow>
              (case (if ga_allowed res1 then dns_check E resolved else None) of
                 Some reason \<Rightarrow> (case block_request req user (gq_session_id req) reason db of (r, db') \<Rightarrow> (Answer r, db'))
               | None \<Rightarrow>
                   if ga_allowed res1 \<and> \<not> ga_requires_approval res1 \<and> \<not> gq_skip_approval req
                      \<and> (case gq_tool_name req of Some t \<Rightarrow> t | None \<Rightarrow> []) \<in> set TOOLS_REQUIRING_APPROVAL
                   then (Waiting res1, db) else (Answer res1, db)))"

definition check_handler :: "gate_env \<Rightarrow> gate_auth \<Rightarrow> gate_check_request \<Rightarrow> gate_server \<Rightarrow> check_outcome \<times> gate_server" where
  "check_handler E auth req srv =
     (case check_agent (gs_agents srv) auth (gq_agent req) of
        Inl e \<Rightarrow> (Failed e, srv)
      | Inr _ \<Rightarrow>
          (case ge_resolve_shell_safe E (au_user auth) (gq_agent req) (gq_command req) of
             Inl e \<Rightarrow> (Failed e, srv)
           | Inr resolved \<Rightarrow>
               (case resolve_patterns (ge_resolve_text E (au_user auth) (gq_agent req)) (gc_blocked_patterns (ge_config E)) of
                  Inl e \<Rightarrow> (Failed e, srv)
                | Inr patterns \<Rightarrow>
                    (case check_command_with_context (ge_unicode E) (ge_allow_private E) (ge_config E) req (au_user auth)
                            (Some resolved) patterns (gq_session_id req) (gs_db srv) of
                       (res, db1) \<Rightarrow>
                         (case after_policy E req (au_user auth) resolved res db1 of
                            (Waiting r, db2) \<Rightarrow>
                              (Waiting r, srv\<lparr>gs_db := db2,
                                 gs_pending := cleanup_expired_approvals (now db2) (filter (\<lambda>(i, _). i \<noteq> ga_gate_id r) (gs_pending srv)) @
                                   [(ga_gate_id r, \<lparr>pa_gate_id = ga_gate_id r, pa_agent = gq_agent req,
                                      pa_tool_name = (case gq_tool_name req of Some t \<Rightarrow> t | None \<Rightarrow> []),
                                      pa_command = gq_command req, pa_created_at = now db2\<rparr>)]\<rparr>)
                          | (out, db2) \<Rightarrow> (out, srv\<lparr>gs_db := db2\<rparr>))))))"

text \<open>The rest of the handler after the wait; \<open>sent\<close> is the answer received, \<open>None\<close> for a time-out or a dropped sender.\<close>

definition approved_after_wait :: "int \<Rightarrow> int \<Rightarrow> bool option \<Rightarrow> gate_db \<Rightarrow> bool \<times> gate_db" where
  "approved_after_wait gate_id user sent db =
     (case sent of
        Some decision \<Rightarrow> (decision, db)
      | None \<Rightarrow>
          (case mark_gate_timed_out gate_id user db of
             (True, db') \<Rightarrow> (False, db')
           | (False, db') \<Rightarrow>
               (case read_gate_decision db' gate_id user of
                  Some d \<Rightarrow> (gd_status d = ''approved'', db') | None \<Rightarrow> (False, db'))))"

definition resume_check ::
    "gate_auth \<Rightarrow> gate_check_request \<Rightarrow> gate_check_result \<Rightarrow> bool option \<Rightarrow> gate_server \<Rightarrow> gate_check_result \<times> gate_server" where
  "resume_check auth req res sent srv =
     (let gate_id = ga_gate_id res in
      case approved_after_wait gate_id (au_user auth) sent (gs_db srv) of
        (approved, db') \<Rightarrow>
          (if approved then res
           else \<lparr>ga_allowed = False,
             ga_reason = Some ((case gq_tool_name req of Some t \<Rightarrow> t | None \<Rightarrow> []) @ '' denied -- approval timed out or rejected''),
             ga_resolved_command = ga_resolved_command res, ga_gate_id = gate_id, ga_requires_approval = False, ga_enrichment = None\<rparr>,
           srv\<lparr>gs_db := db', gs_pending := filter (\<lambda>(i, _). i \<noteq> gate_id) (gs_pending srv),
             gs_sent := filter (\<lambda>(i, _). i \<noteq> gate_id) (gs_sent srv)\<rparr>))"

section \<open>The other handlers\<close>

definition respond_handler :: "gate_auth \<Rightarrow> int \<Rightarrow> bool \<Rightarrow> string option \<Rightarrow> gate_server \<Rightarrow> respond_ok result \<times> gate_server" where
  "respond_handler auth gate_id approved reason srv =
     (case (case au_agent_id auth of
              None \<Rightarrow> Ok None
            | Some bound_id \<Rightarrow>
                (case List.find (\<lambda>a. ag_id a = bound_id) (gs_agents srv) of
                   Some a \<Rightarrow> Ok (Some (ag_name a))
                 | None \<Rightarrow> Err (Auth (''api key bound to agent id '' @ show_int bound_id @ '' which no longer exists'')))) of
        Inl e \<Rightarrow> (Err e, srv)
      | Inr responder \<Rightarrow>
          (case respond_to_gate gate_id approved reason (au_user auth) responder (gs_db srv) of
             (Inl e, db') \<Rightarrow> (Err e, srv\<lparr>gs_db := db'\<rparr>)
           | (Inr ok, db') \<Rightarrow>
               (Ok ok, srv\<lparr>gs_db := db', gs_pending := filter (\<lambda>(i, _). i \<noteq> gate_id) (gs_pending srv),
                  gs_sent := (if gate_id \<in> fst ` set (gs_pending srv) then gs_sent srv @ [(gate_id, approved)] else gs_sent srv)\<rparr>)))"

definition complete_handler ::
    "gate_env \<Rightarrow> gate_auth \<Rightarrow> int \<Rightarrow> string \<Rightarrow> string list \<Rightarrow> (int \<Rightarrow> string) \<Rightarrow> gate_server \<Rightarrow> nat result \<times> gate_server" where
  "complete_handler E auth gate_id output known_secrets datetime srv =
     (let db = gs_db srv in
      case find_where (of_user gate_id (au_user auth)) (gate_requests db) of
        None \<Rightarrow> (Err (NotFound (''gate request '' @ show_int gate_id @ '' not found'')), srv)
      | Some r \<Rightarrow>
          let stored = length (filter (\<lambda>m. me_user_id m = au_user auth \<and> me_source m = gr_agent r
                \<and> gr_created_at r \<le> me_created_at m) (memories db)) in
          if stored = 0
          then (Err (InvalidInput (''gate '' @ show_int gate_id @ '' cannot be completed: agent '' @ quoted (gr_agent r) @
                  '' has not stored any memories since the gate was opened at '' @ datetime (gr_created_at r) @
                  ''. Store the outcome first.'')), srv)
          else (case complete_gate (ge_base64 E) gate_id output known_secrets (au_user auth) db of
                  (Inl e, db') \<Rightarrow> (Err e, srv\<lparr>gs_db := db'\<rparr>)
                | (Inr _, db') \<Rightarrow> (Ok stored, srv\<lparr>gs_db := db'\<rparr>)))"

definition complete_latest_handler ::
    "gate_env \<Rightarrow> gate_auth \<Rightarrow> string \<Rightarrow> string \<Rightarrow> string list \<Rightarrow> gate_server \<Rightarrow> latest_gate_completion result \<times> gate_server" where
  "complete_latest_handler E auth session output known_secrets srv =
     (case complete_latest_gate (ge_base64 E) (au_user auth) session output known_secrets (gs_db srv) of
        (x, db') \<Rightarrow> (x, srv\<lparr>gs_db := db'\<rparr>))"

definition BASELINE_PROHIBITIONS :: "string list" where
  "BASELINE_PROHIBITIONS = [''never'', ''do not'', ''don'' @ [CHR 0x27] @ ''t'', ''must not'', ''prohibited'', ''forbidden'', ''blocked'', ''banned'']"

record guard_answer =
  gu_signal :: string
  gu_rules :: "memory_row list"
  gu_message :: string

definition guard_handler :: "gate_env \<Rightarrow> gate_auth \<Rightarrow> string \<Rightarrow> gate_server \<Rightarrow> guard_answer result" where
  "guard_handler E auth action srv =
     (let U = ge_unicode E in
      if str_trim U action = [] then Err (InvalidInput ''action (string) required - describe what you are about to do'')
      else let rules = take 20 (by_importance (filter (active_rule (au_user auth)) (memories (gs_db srv)))) in
        if rules = [] then Ok \<lparr>gu_signal = ''allow'', gu_rules = [], gu_message = ''No conflicting rules found.''\<rparr>
        else let words = filter (\<lambda>w. 3 < length w) (split_whitespace U (to_lowercase U action));
                 matched = filter (\<lambda>r. let content = to_lowercase U (me_content r) in
                    (\<exists>k\<in>set BASELINE_PROHIBITIONS. contains content k) \<and> (\<exists>w\<in>set words. contains content w)) rules in
          Ok (if matched = []
              then \<lparr>gu_signal = ''allow'', gu_rules = [],
                gu_message = ''No direct conflicts detected. Note: LLM-based semantic matching not available.''\<rparr>
              else \<lparr>gu_signal = ''warn'', gu_rules = matched,
                gu_message = ''Potential rule conflicts detected. Review before proceeding.''\<rparr>))"

end
