(* ===== verification/Gate_Flow.thy ===== *)
theory Gate_Flow
  imports Gate_Server
begin

text \<open>
  The gate as a whole: what a check that is allowed has passed, and how the approval of commands works out when all
  handlers run together.
\<close>

section \<open>What an allowed check has passed\<close>

definition tool_of :: "gate_check_request \<Rightarrow> string" where
  "tool_of req = (case gq_tool_name req of Some t \<Rightarrow> t | None \<Rightarrow> [])"








definition forge_governs :: "gate_env \<Rightarrow> gate_check_request \<Rightarrow> bool" where
  "forge_governs E req \<longleftrightarrow> ge_forge_mode E \<noteq> ''off'' \<and> (tool_of req = ''Write'' \<or> tool_of req = ''Edit'')"


text \<open>Answers that differ in the enrichment only.\<close>

definition same_answer :: "gate_check_result \<Rightarrow> gate_check_result \<Rightarrow> bool" where
  "same_answer r r' \<longleftrightarrow> ga_allowed r' = ga_allowed r \<and> ga_gate_id r' = ga_gate_id r \<and> ga_requires_approval r' = ga_requires_approval r"

lemma same_answer_add [simp]: "same_answer r (add_enrichment sep e r)" "same_answer r r"
  by (simp_all add: same_answer_def add_enrichment_def Let_def)



lemma forge_check_None: "forge_check E req user res db = None \<Longrightarrow> ga_allowed res \<Longrightarrow> \<not> forge_governs E req"
  by (auto simp: forge_check_def forge_governs_def tool_of_def Let_def split: if_splits option.splits sum.splits bool.splits)














section \<open>Approvals\<close>
















end
