(* ===== verification/Simhash.thy ===== *)
theory Simhash
  imports Text_Ops
begin

text \<open>
  Near-duplicate detection (\<^verbatim>\<open>kleos-lib/src/memory/simhash.rs\<close>): tokens, the FNV-1a hash, the 64-bit
  fingerprint and the Hamming distance. The vote counters are \<^verbatim>\<open>i32\<close> in the source; a text would need
  $2^{31}$ different tokens to overflow one, so they are integers here. The fingerprint is shown to be the
  majority vote of the set of tokens, bit by bit.
\<close>

unbundle bit_operations_syntax

section \<open>Tokens\<close>

definition SIMHASH_THRESHOLD :: nat where
  "SIMHASH_THRESHOLD = 3"

definition ascii_alphanumeric :: "char \<Rightarrow> bool" where
  "ascii_alphanumeric c \<longleftrightarrow> (CHR ''0'' \<le> c \<and> c \<le> CHR ''9'') \<or> (CHR ''a'' \<le> c \<and> c \<le> CHR ''z'')
     \<or> (CHR ''A'' \<le> c \<and> c \<le> CHR ''Z'')"

text \<open>\<^verbatim>\<open>seen.insert(t)\<close> is true for a token that was not seen yet.\<close>

fun unseen :: "string set \<Rightarrow> string list \<Rightarrow> string list" where
  "unseen seen [] = []"
| "unseen seen (t # ts) = (if t \<in> seen then unseen seen ts else t # unseen (insert t seen) ts)"

text \<open>After the replacement only ASCII letters, digits and spaces are left, so splitting at white space
  needs no Unicode table.\<close>

definition canonical_tokens :: "unicode \<Rightarrow> string \<Rightarrow> string list" where
  "canonical_tokens U text =
     (let normalized = map (\<lambda>c. if ascii_alphanumeric c then c else CHR '' '') (to_lowercase U text)
      in unseen {} (filter (\<lambda>t. 3 \<le> length t) (ascii_words [] normalized)))"

section \<open>Fingerprints\<close>

definition fnv1a_32 :: "string \<Rightarrow> 32 word" where
  "fnv1a_32 s = fold (\<lambda>b h. (h XOR of_char b) * 0x01000193) s 0x811c9dc5"

text \<open>Bits 0 to 31 of a token are those of its hash, bits 32 to 63 those of the token with a NUL byte.\<close>

definition token_bit :: "string \<Rightarrow> nat \<Rightarrow> bool" where
  "token_bit t i = (if i < 32 then fnv1a_32 t AND push_bit i 1 \<noteq> 0
                    else fnv1a_32 (t @ [CHR 0x00]) AND push_bit (i - 32) 1 \<noteq> 0)"

definition add_token :: "string \<Rightarrow> int list \<Rightarrow> int list" where
  "add_token t v = map (\<lambda>i. if token_bit t i then v ! i + 1 else v ! i - 1) [0..<64]"

definition fingerprint :: "int list \<Rightarrow> 64 word" where
  "fingerprint v = fold (\<lambda>b f. if v ! b > 0 then f OR push_bit b 1 else f) [0..<64] 0"

definition simhash :: "unicode \<Rightarrow> string \<Rightarrow> 64 word" where
  "simhash U text =
     (let tokens = canonical_tokens U text in
      if tokens = [] then 0 else fingerprint (fold add_token tokens (replicate 64 0)))"

definition hamming_distance :: "64 word \<Rightarrow> 64 word \<Rightarrow> nat" where
  "hamming_distance a b = length (filter (bit (a XOR b)) [0..<64])"

definition is_near_duplicate :: "unicode \<Rightarrow> string \<Rightarrow> string \<Rightarrow> bool" where
  "is_near_duplicate U a b \<longleftrightarrow> hamming_distance (simhash U a) (simhash U b) \<le> SIMHASH_THRESHOLD"

section \<open>Facts\<close>

lemma set_unseen: "set (unseen seen ts) = set ts - seen"
  by (induction seen ts rule: unseen.induct) auto

lemma distinct_unseen: "distinct (unseen seen ts)"
  by (induction seen ts rule: unseen.induct) (auto simp: set_unseen)

lemma distinct_tokens: "distinct (canonical_tokens U text)"
  by (simp add: canonical_tokens_def Let_def distinct_unseen)

lemma length_votes: "length v = 64 \<Longrightarrow> length (fold add_token ts v) = 64"
  by (induction ts arbitrary: v) (simp_all add: add_token_def)

lemma votes:
  "length v = 64 \<Longrightarrow> i < 64 \<Longrightarrow> fold add_token ts v ! i
     = v ! i + int (length (filter (\<lambda>t. token_bit t i) ts)) - int (length (filter (\<lambda>t. \<not> token_bit t i) ts))"
proof (induction ts arbitrary: v)
  case (Cons t ts)
  have "length (add_token t v) = 64" by (simp add: add_token_def)
  then show ?case using Cons by (simp add: add_token_def)
qed simp

lemma bit_fold_or:
  fixes f :: "'a::len word"
  assumes "\<forall>b\<in>set bs. b < LENGTH('a)"
  shows "bit (fold (\<lambda>b f. if P b then f OR push_bit b 1 else f) bs f) i \<longleftrightarrow> bit f i \<or> (i \<in> set bs \<and> P i)"
  using assms
proof (induction bs arbitrary: f)
  case (Cons b bs)
  then have "bit (push_bit b 1 :: 'a word) i \<longleftrightarrow> i = b" by (auto simp: bit_simps)
  with Cons show ?case by (auto simp: bit_or_iff)
qed simp

lemma bit_fingerprint: "bit (fingerprint v) i \<longleftrightarrow> i < 64 \<and> v ! i > 0"
  unfolding fingerprint_def by (subst bit_fold_or) auto

lemma card_filter: "distinct ts \<Longrightarrow> length (filter P ts) = card {t \<in> set ts. P t}"
  by (metis distinct_card distinct_filter set_filter)

lemma hamming_self [simp]: "hamming_distance a a = 0"
  by (simp add: hamming_distance_def)

lemma hamming_sym: "hamming_distance a b = hamming_distance b a"
  by (simp add: hamming_distance_def xor.commute)

lemma hamming_zero: "hamming_distance a b = 0 \<longleftrightarrow> a = b"
proof
  assume "hamming_distance a b = 0"
  then have "\<not> bit (a XOR b) i" if "i < 64" for i
    using that by (simp add: hamming_distance_def filter_empty_conv)
  then have "bit a i \<longleftrightarrow> bit b i" if "i < 64" for i using that by (simp add: bit_xor_iff)
  then show "a = b" by (intro bit_word_eqI) simp
qed simp

lemma hamming_triangle: "hamming_distance a c \<le> hamming_distance a b + hamming_distance b c"
proof -
  have count: "length (filter P xs) \<le> length (filter Q xs) + length (filter R xs)"
    if "\<And>x. P x \<Longrightarrow> Q x \<or> R x" for P Q R and xs :: "nat list"
    using that by (induction xs) (auto simp: le_SucI)
  show ?thesis unfolding hamming_distance_def by (rule count) (auto simp: bit_xor_iff)
qed

text \<open>A text with no ASCII word of three letters has the fingerprint zero.\<close>

lemma ascii_words_blank: "\<forall>c\<in>set s. c = CHR '' '' \<Longrightarrow> ascii_words [] s = []"
  by (induction s) (auto simp: ascii_space_def)

lemma simhash_no_ascii:
  assumes "\<forall>c\<in>set (to_lowercase U s). \<not> ascii_alphanumeric c"
  shows "simhash U s = 0"
proof -
  have "ascii_words [] (map (\<lambda>c. if ascii_alphanumeric c then c else CHR '' '') (to_lowercase U s)) = []"
    using assms by (intro ascii_words_blank) auto
  then show ?thesis by (simp add: simhash_def canonical_tokens_def Let_def)
qed

text \<open>
  Property C36. The fingerprint is a majority vote: bit \<open>i\<close> is set exactly when more than half of the
  different tokens of the text have bit \<open>i\<close> in their hash. So the order of the words and their repetition
  do not matter.
\<close>

theorem simhash_is_majority:
  "bit (simhash U text) i \<longleftrightarrow>
     i < 64 \<and> card (set (canonical_tokens U text)) < 2 * card {t \<in> set (canonical_tokens U text). token_bit t i}"
proof -
  let ?ts = "canonical_tokens U text"
  have len: "length ?ts = length (filter (\<lambda>t. token_bit t i) ?ts) + length (filter (\<lambda>t. \<not> token_bit t i) ?ts)"
    by (rule sum_length_filter_compl [symmetric])
  have "bit (simhash U text) i \<longleftrightarrow> i < 64 \<and> fold add_token ?ts (replicate 64 0) ! i > 0"
    by (cases "?ts = []") (auto simp: simhash_def Let_def bit_fingerprint)
  also have "\<dots> \<longleftrightarrow> i < 64 \<and> length ?ts < 2 * length (filter (\<lambda>t. token_bit t i) ?ts)"
    using len by (auto simp: votes)
  finally show ?thesis
    using distinct_tokens [of U "text"] by (simp add: card_filter distinct_card)
qed

end
