(* ===== verification/Utf8.thy ===== *)
theory Utf8
  imports Text_Ops
begin

text \<open>
  Byte positions in a \<^verbatim>\<open>str\<close>. A text is its UTF-8 byte string; \<^verbatim>\<open>&s[a..b]\<close> panics unless both ends lie on
  character boundaries, so a slice is an option here. The theory has the loops that move a position to a boundary,
  white space and \<^verbatim>\<open>trim\<close>, and the facts about well-formed texts that keep positions on boundaries.
\<close>

section \<open>Boundaries and slices\<close>

definition is_continuation :: "char \<Rightarrow> bool" where
  "is_continuation c \<longleftrightarrow> 0x80 \<le> (of_char c :: nat) \<and> (of_char c :: nat) < 0xC0"

definition is_char_start :: "char \<Rightarrow> bool" where
  "is_char_start c \<longleftrightarrow> \<not> is_continuation c"

definition is_char_boundary :: "string \<Rightarrow> nat \<Rightarrow> bool" where
  "is_char_boundary s i \<longleftrightarrow> i = 0 \<or> i = length s \<or> i < length s \<and> is_char_start (s ! i)"

definition bytes_between :: "string \<Rightarrow> nat \<Rightarrow> nat \<Rightarrow> string" where
  "bytes_between s a b = take (b - a) (drop a s)"

definition slice :: "string \<Rightarrow> nat \<Rightarrow> nat \<Rightarrow> string option" where
  "slice s a b =
     (if a \<le> b \<and> is_char_boundary s a \<and> is_char_boundary s b then Some (bytes_between s a b) else None)"

text \<open>The loops that step back, or forward, to a boundary.\<close>

fun step_back :: "string \<Rightarrow> nat \<Rightarrow> nat" where
  "step_back s 0 = 0"
| "step_back s (Suc i) = (if is_char_boundary s (Suc i) then Suc i else step_back s i)"

function step_forward :: "string \<Rightarrow> nat \<Rightarrow> nat" where
  "step_forward s i = (if i < length s \<and> \<not> is_char_boundary s i then step_forward s (i + 1) else i)"
  by pat_completeness auto
termination
  by (relation "measure (\<lambda>(s, i). length s - i)") auto

declare step_forward.simps [simp del]

section \<open>Well-formed texts\<close>

text \<open>
  The length of a sequence by its first byte. The check accepts every UTF-8 text, and also overlong three-byte forms
  and surrogates, which do not matter for boundaries.
\<close>

definition seq_len :: "char \<Rightarrow> nat" where
  "seq_len c = (let n = of_char c :: nat in
     if n < 0x80 then 1 else if 0xC2 \<le> n \<and> n < 0xE0 then 2 else if 0xE0 \<le> n \<and> n < 0xF0 then 3
     else if 0xF0 \<le> n \<and> n < 0xF5 then 4 else 0)"

function utf8 :: "string \<Rightarrow> bool" where
  "utf8 [] = True"
| "utf8 (c # s) = (seq_len c \<noteq> 0 \<and> seq_len c - 1 \<le> length s
     \<and> list_all is_continuation (take (seq_len c - 1) s) \<and> utf8 (drop (seq_len c - 1) s))"
  by pat_completeness auto
termination
  by (relation "measure length") auto

section \<open>White space\<close>

text \<open>
  The characters with the Unicode property \<^verbatim>\<open>White_Space\<close>, as \<^verbatim>\<open>char::is_whitespace\<close> and \<^verbatim>\<open>\s\<close> in a regular
  expression test it, and the length in bytes of the one a text starts with, or 0.
\<close>

definition white_chars :: "string list" where
  "white_chars = [
     [CHR '' ''], [CHR 0x09], [CHR 0x0A], [CHR 0x0B], [CHR 0x0C], [CHR 0x0D], [CHR 0xC2, CHR 0x85],
     [CHR 0xC2, CHR 0xA0], [CHR 0xE1, CHR 0x9A, CHR 0x80], [CHR 0xE2, CHR 0x80, CHR 0x80],
     [CHR 0xE2, CHR 0x80, CHR 0x81], [CHR 0xE2, CHR 0x80, CHR 0x82], [CHR 0xE2, CHR 0x80, CHR 0x83],
     [CHR 0xE2, CHR 0x80, CHR 0x84], [CHR 0xE2, CHR 0x80, CHR 0x85], [CHR 0xE2, CHR 0x80, CHR 0x86],
     [CHR 0xE2, CHR 0x80, CHR 0x87], [CHR 0xE2, CHR 0x80, CHR 0x88], [CHR 0xE2, CHR 0x80, CHR 0x89],
     [CHR 0xE2, CHR 0x80, CHR 0x8A], [CHR 0xE2, CHR 0x80, CHR 0xA8], [CHR 0xE2, CHR 0x80, CHR 0xA9],
     [CHR 0xE2, CHR 0x80, CHR 0xAF], [CHR 0xE2, CHR 0x81, CHR 0x9F], [CHR 0xE3, CHR 0x80, CHR 0x80]]"

definition white_len :: "string \<Rightarrow> nat" where
  "white_len s = (case find (starts_with s) white_chars of None \<Rightarrow> 0 | Some w \<Rightarrow> length w)"

lemma white_chars_code: "list_all (\<lambda>w. w \<noteq> [] \<and> length w = seq_len (hd w) \<and> list_all is_continuation (tl w)) white_chars"
  by code_simp

lemma white_char:
  assumes "w \<in> set white_chars"
  shows "w \<noteq> []" "length w = seq_len (hd w)" "list_all is_continuation (tl w)"
  using white_chars_code assms by (simp_all add: list_all_iff)

lemma white_len_cases:
  obtains "white_len s = 0" | w t where "s = w @ t" "w \<in> set white_chars" "white_len s = length w" "w \<noteq> []"
proof (cases "find (starts_with s) white_chars")
  case None
  then show thesis using that(1) by (simp add: white_len_def)
next
  case (Some w)
  then have "w \<in> set white_chars" "starts_with s w" by (auto simp: find_Some_iff)
  moreover from this obtain t where "s = w @ t" by (auto simp: starts_with_prefix prefix_def)
  ultimately show thesis using that(2) [of w t] Some white_char(1) by (simp add: white_len_def)
qed

function trim_start :: "string \<Rightarrow> string" where
  "trim_start s = (if white_len s = 0 then s else trim_start (drop (white_len s) s))"
  by pat_completeness auto
termination
proof (relation "measure length")
  fix s assume "white_len s \<noteq> 0"
  then show "(drop (white_len s) s, s) \<in> measure length" by (cases s rule: white_len_cases) simp_all
qed simp

declare trim_start.simps [simp del]

definition white_tail :: "string \<Rightarrow> nat" where
  "white_tail s = (case filter (\<lambda>k. k \<le> length s \<and> white_len (drop (length s - k) s) = k) [1, 2, 3] of
     [] \<Rightarrow> 0 | k # _ \<Rightarrow> k)"

function trim_end :: "string \<Rightarrow> string" where
  "trim_end s = (if white_tail s = 0 \<or> s = [] then s else trim_end (take (length s - white_tail s) s))"
  by pat_completeness auto
termination
  by (relation "measure length") auto

declare trim_end.simps [simp del]

definition trim_white :: "string \<Rightarrow> string" where
  "trim_white s = trim_end (trim_start s)"

section \<open>Facts about positions\<close>

lemma boundary_simps [simp]: "is_char_boundary s 0" "is_char_boundary s (length s)"
  by (simp_all add: is_char_boundary_def)

lemma boundary_le: "is_char_boundary s i \<Longrightarrow> i \<le> length s"
  by (auto simp: is_char_boundary_def)

lemma length_bytes_between [simp]: "b \<le> length s \<Longrightarrow> length (bytes_between s a b) = b - a"
  by (simp add: bytes_between_def)

lemma nth_bytes_between: "a + i < b \<Longrightarrow> b \<le> length s \<Longrightarrow> bytes_between s a b ! i = s ! (a + i)"
  by (simp add: bytes_between_def)

lemma slice_some: "a \<le> b \<Longrightarrow> is_char_boundary s a \<Longrightarrow> is_char_boundary s b \<Longrightarrow> slice s a b = Some (bytes_between s a b)"
  by (simp add: slice_def)

lemma slice_eq_Some:
  "slice s a b = Some w \<longleftrightarrow> a \<le> b \<and> is_char_boundary s a \<and> is_char_boundary s b \<and> w = bytes_between s a b"
  by (auto simp: slice_def)

lemma ascii_boundary: "i < length s \<Longrightarrow> (of_char (s ! i) :: nat) < 0x80 \<Longrightarrow> is_char_boundary s i"
  by (simp add: is_char_boundary_def is_char_start_def is_continuation_def)

lemma boundary_inside:
  assumes "is_char_boundary s a" "is_char_boundary s b" "a \<le> b" "i \<le> b - a"
  shows "is_char_boundary (bytes_between s a b) i \<longleftrightarrow> is_char_boundary s (a + i)"
proof -
  have b: "b \<le> length s" by (rule boundary_le [OF assms(2)])
  consider "i = 0" | "i = b - a" "i \<noteq> 0" | "i \<noteq> 0" "a + i < b" using assms(3,4) by linarith
  then show ?thesis
  proof cases
    case 2
    then have "is_char_boundary (bytes_between s a b) i" using b by (simp add: is_char_boundary_def)
    then show ?thesis using 2 assms by simp
  next
    case 3
    then show ?thesis using b nth_bytes_between [of a i b s] by (auto simp: is_char_boundary_def)
  qed (use assms in simp)
qed

lemma step_back_le: "step_back s i \<le> i"
  by (induction i) auto

lemma step_back_boundary [simp]: "is_char_boundary s (step_back s i)"
  by (induction i) auto

lemma step_back_greatest: "is_char_boundary s j \<Longrightarrow> j \<le> i \<Longrightarrow> j \<le> step_back s i"
  by (induction i) (auto simp: le_Suc_eq)

lemma step_back_at: "is_char_boundary s i \<Longrightarrow> step_back s i = i"
  by (cases i) auto

lemma step_forward_ge: "i \<le> step_forward s i"
  by (induction s i rule: step_forward.induct) (subst step_forward.simps, auto)

lemma step_forward_boundary: "i \<le> length s \<Longrightarrow> is_char_boundary s (step_forward s i)"
proof (induction s i rule: step_forward.induct)
  case (1 s i)
  then show ?case by (subst step_forward.simps) (cases "i = length s", auto)
qed

lemma step_forward_least: "is_char_boundary s j \<Longrightarrow> i \<le> j \<Longrightarrow> step_forward s i \<le> j"
proof (induction s i rule: step_forward.induct)
  case (1 s i)
  show ?case
  proof (cases "i < length s \<and> \<not> is_char_boundary s i")
    case True
    then have "i + 1 \<le> j" using 1(2,3) by (cases "i = j") auto
    then show ?thesis using True 1 by (subst step_forward.simps) simp
  qed (use 1 in \<open>subst step_forward.simps, auto\<close>)
qed

section \<open>Facts about well-formed texts\<close>

lemma seq_len_start: "seq_len c \<noteq> 0 \<Longrightarrow> is_char_start c"
  by (auto simp: seq_len_def Let_def is_char_start_def is_continuation_def split: if_splits)

lemma utf8_first: "utf8 s \<Longrightarrow> s \<noteq> [] \<Longrightarrow> is_char_start (hd s)"
  by (cases s) (auto intro: seq_len_start)

lemma inside_sequence:
  assumes "list_all is_continuation (take n s)" "is_char_boundary (c # s) i" "n \<le> length s"
  obtains "i = 0" | "Suc n \<le> i"
proof -
  have "Suc n \<le> i" if "i \<noteq> 0"
  proof (rule ccontr)
    assume "\<not> Suc n \<le> i"
    then obtain j where j: "i = Suc j" "j < n" using \<open>i \<noteq> 0\<close> by (cases i) auto
    then have "is_char_start (s ! j)" using assms(2,3) by (auto simp: is_char_boundary_def)
    moreover have "is_continuation (s ! j)" using assms(1,3) j by (auto simp: list_all_length)
    ultimately show False by (simp add: is_char_start_def)
  qed
  then show thesis using that by blast
qed

lemma boundary_drop:
  "is_char_boundary s i \<Longrightarrow> k \<le> i \<Longrightarrow> is_char_boundary (drop k s) (i - k)"
  by (auto simp: is_char_boundary_def)

lemma utf8_split:
  "utf8 s \<Longrightarrow> is_char_boundary s i \<Longrightarrow> utf8 (take i s) \<and> utf8 (drop i s)"
proof (induction s arbitrary: i rule: utf8.induct)
  case (2 c s)
  let ?n = "seq_len c - 1"
  have wf: "seq_len c \<noteq> 0" "?n \<le> length s" "list_all is_continuation (take ?n s)" "utf8 (drop ?n s)" using 2(2) by simp_all
  from wf(3) 2(3) wf(2) show ?case
  proof (cases rule: inside_sequence)
    case 2
    then have "is_char_boundary (drop (seq_len c) (c # s)) (i - seq_len c)" using \<open>is_char_boundary (c # s) i\<close> wf(1)
      by (intro boundary_drop) simp_all
    then have rest: "utf8 (take (i - seq_len c) (drop ?n s))" "utf8 (drop (i - seq_len c) (drop ?n s))"
      using "2.IH" [OF wf(4)] wf(1) by (simp_all del: drop_drop add: drop_Cons')
    have i: "i = Suc (?n + (i - seq_len c))" using 2 wf(1) by simp
    have "drop ?n (take (i - 1) s) = take (i - seq_len c) (drop ?n s)" "take ?n (take (i - 1) s) = take ?n s"
      "drop (i - 1) s = drop (i - seq_len c) (drop ?n s)"
      using i by (simp_all add: drop_take min_def)
    then have "utf8 (c # take (i - 1) s)" "utf8 (drop (i - 1) s)" using rest wf i by simp_all
    then show ?thesis using i by (metis diff_Suc_1 drop_Suc_Cons take_Suc_Cons)
  qed (use 2 in simp)
qed simp

lemma utf8_bytes_between:
  assumes "utf8 s" "is_char_boundary s a" "is_char_boundary s b" "a \<le> b"
  shows "utf8 (bytes_between s a b)"
  using utf8_split [OF _ boundary_drop [OF assms(3,4)]] utf8_split [OF assms(1,2)] by (simp add: bytes_between_def)

lemma utf8_boundary: "utf8 (drop i s) \<Longrightarrow> i \<le> length s \<Longrightarrow> is_char_boundary s i"
  using utf8_first [of "drop i s"] by (auto simp: is_char_boundary_def hd_drop_conv_nth)

lemma utf8_white: "utf8 s \<Longrightarrow> utf8 (drop (white_len s) s)"
proof (cases s rule: white_len_cases)
  case (2 w t)
  assume "utf8 s"
  moreover obtain c u where "w = c # u" using 2(4) by (cases w) auto
  moreover have "length w = seq_len (hd w)" using white_char(2) 2(2) by blast
  ultimately show "utf8 (drop (white_len s) s)" using 2 by (simp add: drop_Cons')
qed simp

lemma white_len_le: "white_len s \<le> length s"
  by (cases s rule: white_len_cases) simp_all

lemma utf8_ascii: "utf8 (c # s) \<Longrightarrow> (of_char c :: nat) < 0x80 \<Longrightarrow> utf8 s"
  by (simp add: seq_len_def)

lemma white_tail_white: "white_tail s \<noteq> 0 \<Longrightarrow> white_tail s \<le> length s \<and> white_len (drop (length s - white_tail s) s) = white_tail s"
  by (auto simp: white_tail_def split: list.splits if_splits)

lemma utf8_white_tail: "utf8 s \<Longrightarrow> utf8 (take (length s - white_tail s) s)"
proof (cases "white_tail s = 0")
  case False
  assume "utf8 s"
  let ?i = "length s - white_tail s"
  have t: "white_tail s \<le> length s" "white_len (drop ?i s) = white_tail s" using white_tail_white [OF False] by simp_all
  have "is_char_boundary s ?i"
  proof (cases "drop ?i s" rule: white_len_cases)
    case (2 w u)
    then have "is_char_start (hd (drop ?i s))" using white_char [OF 2(2)] seq_len_start [of "hd w"] by (cases w) auto
    then show ?thesis using t False by (auto simp: is_char_boundary_def hd_drop_conv_nth)
  qed (use t False in simp)
  then show ?thesis using utf8_split [OF \<open>utf8 s\<close>] by blast
qed simp

lemma trim_start_facts: "utf8 s \<Longrightarrow> utf8 (trim_start s)" "\<exists>a. s = a @ trim_start s"
proof -
  show "utf8 s \<Longrightarrow> utf8 (trim_start s)"
    by (induction s rule: trim_start.induct) (subst trim_start.simps, auto intro: utf8_white)
  show "\<exists>a. s = a @ trim_start s"
  proof (induction s rule: trim_start.induct)
    case (1 s)
    show ?case
    proof (cases "white_len s = 0")
      case False
      then obtain a where "drop (white_len s) s = a @ trim_start (drop (white_len s) s)" using 1 by blast
      moreover have "trim_start s = trim_start (drop (white_len s) s)" using False by (subst trim_start.simps) simp
      ultimately have "s = (take (white_len s) s @ a) @ trim_start s" by (metis append.assoc append_take_drop_id)
      then show ?thesis by blast
    qed (subst trim_start.simps, simp)
  qed
qed

lemma trim_end_facts: "utf8 s \<Longrightarrow> utf8 (trim_end s)" "\<exists>b. s = trim_end s @ b"
proof -
  show "utf8 s \<Longrightarrow> utf8 (trim_end s)"
    by (induction s rule: trim_end.induct) (subst trim_end.simps, auto intro: utf8_white_tail)
  show "\<exists>b. s = trim_end s @ b"
  proof (induction s rule: trim_end.induct)
    case (1 s)
    show ?case
    proof (cases "white_tail s = 0 \<or> s = []")
      case False
      then obtain b where "take (length s - white_tail s) s = trim_end (take (length s - white_tail s) s) @ b" using 1 by blast
      moreover have "trim_end s = trim_end (take (length s - white_tail s) s)" using False by (subst trim_end.simps) simp
      ultimately have "s = trim_end s @ (b @ drop (length s - white_tail s) s)" by (metis append.assoc append_take_drop_id)
      then show ?thesis by blast
    qed (subst trim_end.simps, auto)
  qed
qed

lemma utf8_trim: "utf8 s \<Longrightarrow> utf8 (trim_white s)"
  by (simp add: trim_white_def trim_start_facts trim_end_facts)

lemma trim_inside: "\<exists>a b. s = a @ trim_white s @ b"
proof -
  obtain a where a: "s = a @ trim_start s" using trim_start_facts(2) by blast
  obtain b where b: "trim_start s = trim_white s @ b" using trim_end_facts(2) unfolding trim_white_def by blast
  show ?thesis by (rule exI [of _ a], rule exI [of _ b]) (use a b in simp)
qed

lemma trim_length: "length (trim_white s) \<le> length s"
proof -
  obtain a b where "s = a @ trim_white s @ b" using trim_inside by blast
  then have "length s = length a + length (trim_white s) + length b" by (metis add.assoc length_append)
  then show ?thesis by linarith
qed

lemma white_len_0: "white_len s = 0 \<longleftrightarrow> (\<forall>w\<in>set white_chars. \<not> starts_with s w)"
  using white_char(1) by (auto simp: white_len_def find_None_iff find_Some_iff split: option.splits)

lemma white_len_prefix: "white_len (p @ q) = 0 \<Longrightarrow> white_len p = 0"
  unfolding white_len_0 by (auto simp: starts_with_prefix)

lemma white_len_trim_start: "white_len (trim_start s) = 0"
  by (induction s rule: trim_start.induct) (subst trim_start.simps, auto)

lemma trim_end_twice: "trim_end (trim_end s) = trim_end s"
proof (induction s rule: trim_end.induct)
  case (1 s)
  show ?case
  proof (cases "white_tail s = 0 \<or> s = []")
    case True
    then have "trim_end s = s" by (subst trim_end.simps) auto
    then show ?thesis by simp
  next
    case False
    then have "trim_end s = trim_end (take (length s - white_tail s) s)" by (subst trim_end.simps) simp
    then show ?thesis using 1 False by simp
  qed
qed

lemma trim_white_twice: "trim_white (trim_white s) = trim_white s"
proof -
  obtain b where "trim_start s = trim_white s @ b" using trim_end_facts(2) unfolding trim_white_def by blast
  then have "white_len (trim_white s) = 0" using white_len_trim_start [of s] white_len_prefix by metis
  then have "trim_start (trim_white s) = trim_white s" by (subst trim_start.simps) simp
  then show ?thesis using trim_end_twice unfolding trim_white_def by simp
qed

end
