(* ===== verification/Memory_Model.thy ===== *)
theory Memory_Model
  imports Simhash Utf8
begin

text \<open>
  The data of the memory store (\<^verbatim>\<open>kleos-lib/src/memory/types.rs\<close>, the tables of
  \<^verbatim>\<open>db/schema_sql.rs\<close>) and its pure helpers: tags and categories, importance, blobs of embeddings, the keys
  of the chunk index, the review gate. A \<^verbatim>\<open>f32\<close> or \<^verbatim>\<open>f64\<close> is its bit pattern. Columns written by
  \<^verbatim>\<open>datetime('now')\<close> are instants, except \<^verbatim>\<open>created_at\<close>, which callers compare as text.
\<close>

section \<open>Rows\<close>

type_synonym f32 = "32 word"
type_synonym f64 = "64 word"
type_synonym embedding = "f32 list"

definition f64_one :: f64 where
  "f64_one = 0x3FF0000000000000"

text \<open>The spaced-repetition columns and the affect columns are grouped; every operation copies them together.\<close>

record fsrs_columns =
  fsrs_stability :: "f64 option"
  fsrs_difficulty :: "f64 option"
  fsrs_storage_strength :: "f64 option"
  fsrs_retrieval_strength :: "f64 option"
  fsrs_learning_state :: "int option"
  fsrs_reps :: "int option"
  fsrs_lapses :: "int option"
  fsrs_last_review_at :: "string option"

record affect_columns =
  a_valence :: "f64 option"
  a_arousal :: "f64 option"
  a_dominant_emotion :: "string option"

record memory =
  m_id :: int
  m_content :: string
  m_category :: string
  m_source :: string
  m_session_id :: "string option"
  m_importance :: int
  m_embedding :: "string option"
  m_version :: int
  m_is_latest :: bool
  m_parent_memory_id :: "int option"
  m_root_memory_id :: "int option"
  m_source_count :: int
  m_is_static :: bool
  m_is_forgotten :: bool
  m_is_archived :: bool
  m_is_fact :: bool
  m_is_decomposed :: bool
  m_forget_after :: "string option"
  m_forget_reason :: "string option"
  m_model :: "string option"
  m_recall_hits :: int
  m_recall_misses :: int
  m_adaptive_score :: "f64 option"
  m_pagerank_score :: "f64 option"
  m_last_accessed_at :: "int option"
  m_access_count :: int
  m_tags :: "string option"
  m_episode_id :: "int option"
  m_decay_score :: "f64 option"
  m_confidence :: f64
  m_sync_id :: "string option"
  m_status :: string
  m_user_id :: int
  m_space_id :: "int option"
  m_fsrs :: fsrs_columns
  m_affect :: affect_columns
  m_created_at :: string
  m_updated_at :: int
  m_is_superseded :: bool
  m_is_consolidated :: bool
  m_lang :: "string option"

text \<open>The values an \<^verbatim>\<open>INSERT\<close> leaves to the defaults of the table; \<open>t\<close> is the time, \<open>now_text\<close> its text.\<close>

definition memory_defaults :: "int \<Rightarrow> int \<Rightarrow> string \<Rightarrow> memory" where
  "memory_defaults i t now_text = \<lparr>
     m_id = i, m_content = [], m_category = ''general'', m_source = ''unknown'', m_session_id = None,
     m_importance = 5, m_embedding = None, m_version = 1, m_is_latest = True, m_parent_memory_id = None,
     m_root_memory_id = None, m_source_count = 1, m_is_static = False, m_is_forgotten = False,
     m_is_archived = False, m_is_fact = False, m_is_decomposed = False, m_forget_after = None,
     m_forget_reason = None, m_model = None, m_recall_hits = 0, m_recall_misses = 0,
     m_adaptive_score = None, m_pagerank_score = Some 0, m_last_accessed_at = None, m_access_count = 0,
     m_tags = None, m_episode_id = None, m_decay_score = None, m_confidence = f64_one, m_sync_id = None,
     m_status = ''approved'', m_user_id = 1, m_space_id = None,
     m_fsrs = \<lparr>fsrs_stability = None, fsrs_difficulty = None, fsrs_storage_strength = Some f64_one,
       fsrs_retrieval_strength = Some f64_one, fsrs_learning_state = Some 0, fsrs_reps = Some 0,
       fsrs_lapses = Some 0, fsrs_last_review_at = None\<rparr>,
     m_affect = \<lparr>a_valence = None, a_arousal = None, a_dominant_emotion = None\<rparr>,
     m_created_at = now_text, m_updated_at = t, m_is_superseded = False, m_is_consolidated = False,
     m_lang = None\<rparr>"

record chunk_row =
  c_id :: int
  c_memory_id :: int
  c_chunk_idx :: nat
  c_content :: string
  c_embedding :: "string option"

record sync_row =
  v_id :: int
  v_memory_id :: int
  v_op :: string
  v_error :: string
  v_attempts :: int
  v_last_attempt_at :: "int option"

record link_row =
  l_id :: int
  l_source_id :: int
  l_target_id :: int
  l_similarity :: f64
  l_type :: string

type_synonym vindex = "int \<Rightarrow> embedding option"

text \<open>The two vector indexes are \<^verbatim>\<open>None\<close> when the database runs without them. \<open>content_bytes\<close> and
  \<open>memory_count\<close> are the rows of \<^verbatim>\<open>tenant_state\<close>, \<open>pagerank_dirty\<close> the counter of its table.\<close>

record mem_db = database +
  memories :: "memory table"
  memory_chunks :: "chunk_row table"
  vector_sync_pending :: "sync_row table"
  memory_links :: "link_row table"
  content_bytes :: "int option"
  memory_count :: "int option"
  pagerank_dirty :: "int option"
  vector_index :: "vindex option"
  chunk_vector_index :: "vindex option"

section \<open>Requests\<close>

record store_request =
  sr_content :: string
  sr_category :: string
  sr_source :: string
  sr_importance :: int
  sr_tags :: "string list option"
  sr_embedding :: "embedding option"
  sr_chunk_embeddings :: "(string \<times> embedding) list option"
  sr_session_id :: "string option"
  sr_is_static :: "bool option"
  sr_user_id :: "int option"
  sr_space_id :: "int option"
  sr_parent_memory_id :: "int option"
  sr_sync_id :: "string option"
  sr_created_at :: "string option"

definition default_store_request :: store_request where
  "default_store_request = \<lparr>sr_content = [], sr_category = ''general'', sr_source = ''unknown'',
     sr_importance = 5, sr_tags = None, sr_embedding = None, sr_chunk_embeddings = None,
     sr_session_id = None, sr_is_static = None, sr_user_id = None, sr_space_id = None,
     sr_parent_memory_id = None, sr_sync_id = None, sr_created_at = None\<rparr>"

record store_result =
  res_id :: int
  res_created :: bool
  res_duplicate_of :: "int option"
  res_pending :: bool

record update_request =
  ur_content :: "string option"
  ur_category :: "string option"
  ur_importance :: "int option"
  ur_tags :: "string list option"
  ur_is_static :: "bool option"
  ur_status :: "string option"
  ur_embedding :: "embedding option"
  ur_chunk_embeddings :: "(string \<times> embedding) list option"

record list_options =
  lo_limit :: "64 word"
  lo_offset :: "64 word"
  lo_category :: "string option"
  lo_source :: "string option"
  lo_user_id :: "int option"
  lo_space_id :: "int option"
  lo_include_forgotten :: bool
  lo_include_archived :: bool
  lo_from :: "string option"
  lo_to :: "string option"
  lo_include_pending :: bool

record quota_config =
  q_content_bytes :: "int option"
  q_memory_count :: "int option"
  q_disk_bytes :: "int option"

record valence_result =
  vr_valence :: f64
  vr_arousal :: f64
  vr_dominant_emotion :: string

section \<open>Environment\<close>

text \<open>
  What the store uses of other code: the Unicode tables, \<^verbatim>\<open>serde_json\<close> on tag lists, SQLite's
  \<^verbatim>\<open>json_each\<close>, \<^verbatim>\<open>datetime('now')\<close> and \<^verbatim>\<open>strftime\<close>, chrono's parsers (their result formatted for SQL), the
  floating-point normalisation of embeddings, the language detector, the emotion lexicon, how a float and a
  database error print, and the settings of the review gate.
\<close>

record mem_env =
  me_unicode :: unicode
  tags_to_json :: "string list \<Rightarrow> string"
  tags_of_json :: "string \<Rightarrow> string list option"
  json_each :: "string \<Rightarrow> string list option"
  datetime_text :: "int \<Rightarrow> string"
  strftime :: "string \<Rightarrow> string \<Rightarrow> string option"
  from_rfc3339 :: "string \<Rightarrow> string option"
  from_sql_datetime :: "string \<Rightarrow> string option"
  from_sql_date :: "string \<Rightarrow> string option"
  l2_normalize :: "embedding \<Rightarrow> embedding"
  whatlang_detect :: "string \<Rightarrow> (string \<times> bool) option"
  analyze_valence :: "string \<Rightarrow> valence_result"
  f64_display :: "f64 \<Rightarrow> string"
  null_error :: string
  fk_error :: string
  json_error :: string
  REVIEW_GATE_ENABLED :: bool
  REVIEW_GATE_SOURCES :: "string list"
  REVIEW_GATE_IMPORTANCE_THRESHOLD :: "int option"

text \<open>A vector index backend (\<^verbatim>\<open>trait VectorIndex\<close>): every call answers with an error or none, and leaves the
  index in some state. \<open>backend_ok\<close> is what the trait documents: an upsert, a removal, a batch of upserts;
  a failed call has touched at most the keys it was given.\<close>

record backend =
  b_insert :: "int \<Rightarrow> embedding \<Rightarrow> vindex \<Rightarrow> string option \<times> vindex"
  b_delete :: "int \<Rightarrow> vindex \<Rightarrow> string option \<times> vindex"
  b_insert_many :: "(int \<times> embedding) list \<Rightarrow> vindex \<Rightarrow> string option \<times> vindex"

definition upserts :: "(int \<times> embedding) list \<Rightarrow> vindex \<Rightarrow> vindex" where
  "upserts kvs ix = fold (\<lambda>(k, e) ix. ix(k := Some e)) kvs ix"

definition same_off :: "int set \<Rightarrow> vindex \<Rightarrow> vindex \<Rightarrow> bool" where
  "same_off K ix ix' \<longleftrightarrow> (\<forall>k. k \<notin> K \<longrightarrow> ix' k = ix k)"

definition backend_ok :: "backend \<Rightarrow> bool" where
  "backend_ok B \<longleftrightarrow>
     (\<forall>k e ix. case b_insert B k e ix of
        (None, ix') \<Rightarrow> ix' = ix(k := Some e) | (Some _, ix') \<Rightarrow> same_off {k} ix ix')
   \<and> (\<forall>k ix. case b_delete B k ix of
        (None, ix') \<Rightarrow> ix' = ix(k := None) | (Some _, ix') \<Rightarrow> same_off {k} ix ix')
   \<and> (\<forall>kvs ix. case b_insert_many B kvs ix of
        (None, ix') \<Rightarrow> ix' = upserts kvs ix | (Some _, ix') \<Rightarrow> same_off (fst ` set kvs) ix ix')"

text \<open>A backend that never fails, and one that always does.\<close>

definition good_backend :: backend where
  "good_backend = \<lparr>b_insert = (\<lambda>k e ix. (None, ix(k := Some e))), b_delete = (\<lambda>k ix. (None, ix(k := None))),
     b_insert_many = (\<lambda>kvs ix. (None, upserts kvs ix))\<rparr>"

definition down_backend :: backend where
  "down_backend = \<lparr>b_insert = (\<lambda>k e ix. (Some ''down'', ix)), b_delete = (\<lambda>k ix. (Some ''down'', ix)),
     b_insert_many = (\<lambda>kvs ix. (Some ''down'', ix))\<rparr>"

lemma good_backend_ok: "backend_ok good_backend" and down_backend_ok: "backend_ok down_backend"
  by (simp_all add: backend_ok_def good_backend_def down_backend_def same_off_def)

section \<open>Validation\<close>

definition MAX_CONTENT_SIZE :: nat where
  "MAX_CONTENT_SIZE = 102400"

definition MAX_SEARCH_LIMIT :: "64 word" where
  "MAX_SEARCH_LIMIT = 100"

definition MIN_IMPORTANCE :: int where
  "MIN_IMPORTANCE = 1"

definition MAX_IMPORTANCE :: int where
  "MAX_IMPORTANCE = 10"

definition clamp_importance_i64 :: "int \<Rightarrow> int" where
  "clamp_importance_i64 v = max MIN_IMPORTANCE (min MAX_IMPORTANCE v)"

definition clamp_importance :: "int \<Rightarrow> int" where
  "clamp_importance v = clamp_importance_i64 v"

definition too_large :: eng_error where
  "too_large = InvalidInput (''content exceeds maximum size of '' @ show_nat MAX_CONTENT_SIZE @ '' bytes'')"

definition validate_content :: "mem_env \<Rightarrow> string \<Rightarrow> unit result" where
  "validate_content E c =
     (if str_trim (me_unicode E) c = [] then Err (InvalidInput ''content must not be empty'')
      else if length c > MAX_CONTENT_SIZE then Err too_large
      else Ok ())"

section \<open>Tags, categories, language\<close>

text \<open>\<^verbatim>\<open>trim().to_lowercase()\<close> of every tag, without the empty ones.\<close>

definition normal_tags :: "mem_env \<Rightarrow> string list \<Rightarrow> string list" where
  "normal_tags E ts = filter (\<lambda>s. s \<noteq> []) (map (\<lambda>s. to_lowercase (me_unicode E) (str_trim (me_unicode E) s)) ts)"

definition normalize_tags :: "mem_env \<Rightarrow> string list option \<Rightarrow> string option" where
  "normalize_tags E tags = (case tags of
     None \<Rightarrow> None
   | Some t \<Rightarrow> let normalized = normal_tags E t in
       if normalized = [] then None else Some (tags_to_json E normalized))"

definition normalize_tags_json :: "mem_env \<Rightarrow> string \<Rightarrow> string option result" where
  "normalize_tags_json E raw = (case tags_of_json E raw of
     None \<Rightarrow> Err (InvalidInput ''tags must be a JSON array of strings'')
   | Some parsed \<Rightarrow> let normalized = normal_tags E parsed in
       Ok (if normalized = [] then None else Some (tags_to_json E normalized)))"

definition parse_tags_json :: "mem_env \<Rightarrow> string option \<Rightarrow> string list" where
  "parse_tags_json E tags = (case tags of
     None \<Rightarrow> [] | Some raw \<Rightarrow> (case tags_of_json E raw of None \<Rightarrow> [] | Some ts \<Rightarrow> ts))"

definition service_map :: "(string \<times> string) list" where
  "service_map = [(''kleos'', ''kleos''), (''engram'', ''engram''), (''credd'', ''credd''),
     (''kleos-ingest'', ''kleos-ingest''), (''eidolon'', ''eidolon'')]"

definition verb_map :: "(string \<times> string) list" where
  "verb_map = [(''deployed'', ''deploy''), (''shipped'', ''deploy''), (''pushed to'', ''deploy''),
     (''fixed'', ''fix''), (''bug'', ''bug''), (''decided'', ''decision''), (''setup'', ''setup''),
     (''configured'', ''setup'')]"

text \<open>The tags are sorted and freed of repetitions.\<close>

definition infer_tags :: "mem_env \<Rightarrow> string \<Rightarrow> string list" where
  "infer_tags E content =
     (let lower = to_lowercase (me_unicode E) content;
          tags = map snd (filter (\<lambda>(needle, tag). contains lower needle) service_map)
               @ map snd (filter (\<lambda>(needle, tag). contains lower needle) verb_map)
      in remdups_adj (sort tags))"

definition infer_category :: "mem_env \<Rightarrow> string \<Rightarrow> string option" where
  "infer_category E content =
     (let lower = to_lowercase (me_unicode E) content in
      if contains lower ''deployed'' \<or> contains lower ''shipped'' \<or> contains lower ''pushed to'' then Some ''state''
      else if contains lower ''decided'' \<or> contains lower ''chose'' \<or> contains lower ''rejected'' then Some ''decision''
      else if contains lower ''fixed'' \<or> contains lower ''bug'' \<or> contains lower ''broken'' \<or> contains lower ''error''
        then Some ''issue''
      else if contains lower ''how to'' \<or> contains lower ''step 1'' \<or> contains lower ''step 2'' then Some ''reference''
      else None)"

definition iso639_1 :: "string \<Rightarrow> string option" where
  "iso639_1 l = (if l = ''deu'' then Some ''de'' else if l = ''eng'' then Some ''en''
     else if l = ''fra'' then Some ''fr'' else None)"

text \<open>\<^verbatim>\<open>chars().count()\<close> of a UTF-8 byte string counts the bytes that are not continuation bytes.\<close>

definition char_count :: "string \<Rightarrow> nat" where
  "char_count s = length (filter is_char_start s)"

definition detect_lang :: "mem_env \<Rightarrow> string \<Rightarrow> string" where
  "detect_lang E s =
     (if char_count (str_trim (me_unicode E) s) < 20 then ''en''
      else case whatlang_detect E s of
        Some (l, True) \<Rightarrow> (case iso639_1 l of Some c \<Rightarrow> c | None \<Rightarrow> ''en'')
      | _ \<Rightarrow> ''en'')"

section \<open>The review gate\<close>

definition parse_gate_sources :: "unicode \<Rightarrow> string option \<Rightarrow> string list" where
  "parse_gate_sources U raw =
     filter (\<lambda>s. s \<noteq> []) (map (\<lambda>s. to_ascii_lowercase (str_trim U s))
       (split_comma [] (case raw of None \<Rightarrow> [] | Some r \<Rightarrow> r)))"

definition resolve_initial_status :: "string \<Rightarrow> int \<Rightarrow> bool \<Rightarrow> string list \<Rightarrow> int option \<Rightarrow> string" where
  "resolve_initial_status source importance enabled sources threshold =
     (if \<not> enabled then ''approved''
      else let source_gated = (\<exists>s\<in>set sources. s = to_ascii_lowercase source);
               importance_gated = (case threshold of None \<Rightarrow> False | Some t \<Rightarrow> importance > t)
           in if source_gated \<or> importance_gated then ''pending'' else ''approved'')"

definition normalize_created_at :: "mem_env \<Rightarrow> string \<Rightarrow> string result" where
  "normalize_created_at E raw =
     (let s = str_trim (me_unicode E) raw in
      if s = [] then Err (InvalidInput ''created_at must not be empty'')
      else case from_rfc3339 E s of
        Some t \<Rightarrow> Ok t
      | None \<Rightarrow> (case from_sql_datetime E s of
          Some t \<Rightarrow> Ok t
        | None \<Rightarrow> (case from_sql_date E s of
            Some t \<Rightarrow> Ok t
          | None \<Rightarrow> Err (InvalidInput (''created_at '' @ quoted s @ '' is not a recognized timestamp (expected RFC3339, ''
              @ quoted ''YYYY-MM-DD HH:MM:SS'' @ '', or '' @ quoted ''YYYY-MM-DD'' @ '')'')))))"

section \<open>Embeddings as bytes\<close>

definition to_le_bytes :: "f32 \<Rightarrow> string" where
  "to_le_bytes w = [char_of (unat w), char_of (unat w div 256), char_of (unat w div 65536),
     char_of (unat w div 16777216)]"

definition from_le_bytes :: "char \<Rightarrow> char \<Rightarrow> char \<Rightarrow> char \<Rightarrow> f32" where
  "from_le_bytes a b c d = word_of_nat (of_char a + 256 * of_char b + 65536 * of_char c + 16777216 * of_char d)"

definition embedding_to_blob :: "embedding \<Rightarrow> string" where
  "embedding_to_blob e = concat (map to_le_bytes e)"

text \<open>\<^verbatim>\<open>chunks_exact(4)\<close> drops a remainder of less than four bytes.\<close>

fun blob_to_embedding :: "string \<Rightarrow> embedding" where
  "blob_to_embedding (a # b # c # d # rest) = from_le_bytes a b c d # blob_to_embedding rest"
| "blob_to_embedding _ = []"

lemma base_256:
  fixes n :: nat
  assumes "n < 4294967296"
  shows "n mod 256 + 256 * (n div 256 mod 256) + 65536 * (n div 65536 mod 256) + 16777216 * (n div 16777216 mod 256) = n"
proof -
  have horner: "x + 256 * y + 65536 * z + 16777216 * c = n"
    if "n = 256 * a + x" "a = 256 * b + y" "b = 256 * c + z" for a b c x y z :: nat
    using that by simp
  have e: "n div 65536 = n div 256 div 256" "n div 16777216 = n div 256 div 256 div 256"
    by (simp_all flip: div_mult2_eq)
  from assms have "n div 16777216 < 256" by simp
  then have "n div 256 div 256 div 256 mod 256 = n div 256 div 256 div 256" by (simp only: e mod_less)
  with horner [of "n div 256" "n mod 256" "n div 256 div 256" "n div 256 mod 256"
      "n div 256 div 256 div 256" "n div 256 div 256 mod 256"]
  show ?thesis unfolding e by (simp only: mult_div_mod_eq)
qed

lemma from_to_le:
  obtains a b c d where "to_le_bytes w = [a, b, c, d]" "from_le_bytes a b c d = w"
proof
  let ?n = "unat w"
  show "to_le_bytes w = [char_of ?n, char_of (?n div 256), char_of (?n div 65536), char_of (?n div 16777216)]"
    by (rule to_le_bytes_def)
  have "?n < 4294967296" using unsigned_less [of w] by simp
  then have "word_of_nat (?n mod 256 + 256 * (?n div 256 mod 256) + 65536 * (?n div 65536 mod 256)
      + 16777216 * (?n div 16777216 mod 256)) = w" by (simp only: base_256) simp
  then show "from_le_bytes (char_of ?n) (char_of (?n div 256)) (char_of (?n div 65536)) (char_of (?n div 16777216)) = w"
    by (simp only: from_le_bytes_def of_char_of)
qed

lemma blob_roundtrip [simp]: "blob_to_embedding (embedding_to_blob e) = e"
proof (induction e)
  case (Cons w e)
  obtain a b c d where "to_le_bytes w = [a, b, c, d]" "from_le_bytes a b c d = w" by (rule from_to_le)
  with Cons show ?case by (simp add: embedding_to_blob_def)
qed (simp add: embedding_to_blob_def)

section \<open>Keys of the chunk index\<close>

definition i64_max :: int where
  "i64_max = 2 ^ 63 - 1"

definition i64_range :: "int \<Rightarrow> bool" where
  "i64_range v \<longleftrightarrow> - (2 ^ 63) \<le> v \<and> v \<le> i64_max"

definition chunk_lance_key :: "int \<Rightarrow> nat \<Rightarrow> int" where
  "chunk_lance_key memory_id chunk_idx =
     (if i64_range (memory_id * 1000) \<and> i64_range (memory_id * 1000 + int chunk_idx)
      then memory_id * 1000 + int chunk_idx else i64_max)"

text \<open>Division of \<^verbatim>\<open>i64\<close> truncates.\<close>

definition lance_key_to_memory_id :: "int \<Rightarrow> int" where
  "lance_key_to_memory_id k = (if k < 0 then - ((- k) div 1000) else k div 1000)"

lemma chunk_key_roundtrip:
  assumes "0 \<le> i" "c < 1000" "i * 1000 + int c \<le> i64_max"
  shows "lance_key_to_memory_id (chunk_lance_key i c) = i"
  using assms by (simp add: lance_key_to_memory_id_def chunk_lance_key_def i64_range_def i64_max_def)

text \<open>Chunk 1000 of a memory has the key of chunk 0 of the next memory.\<close>

lemma chunk_key_collision: "chunk_lance_key 1 1000 = chunk_lance_key 2 0"
  by (simp add: chunk_lance_key_def i64_range_def i64_max_def)

end
