(* ===== verification/Memory_Store.thy ===== *)
theory Memory_Store
  imports Memory_Model
begin

text \<open>
  The operations that change the memory store (\<^verbatim>\<open>kleos-lib/src/memory/mod.rs\<close>), quota enforcement inside its
  transactions (\<^verbatim>\<open>quota.rs\<close>) and the review inbox (\<^verbatim>\<open>inbox.rs\<close>). A transaction that fails leaves the database
  as it was. \<open>update\<close> reads in one database call and writes in another: it is split there, so that other
  calls can come between. Foreign keys are enforced (the pool refuses to start without them), as far as they
  stay inside the modelled tables. The in-memory cache of search results is not part of the state.
\<close>

section \<open>Statements\<close>

definition upd_memories :: "(memory \<Rightarrow> bool) \<Rightarrow> (memory \<Rightarrow> memory) \<Rightarrow> mem_db \<Rightarrow> mem_db" where
  "upd_memories P f db = db\<lparr>memories := update_where P f (memories db)\<rparr>"

definition owned_memory :: "int \<Rightarrow> int \<Rightarrow> memory \<Rightarrow> bool" where
  "owned_memory i u r \<longleftrightarrow> m_id r = i \<and> m_user_id r = u"

definition memory_exists :: "mem_db \<Rightarrow> int \<Rightarrow> bool" where
  "memory_exists db i \<longleftrightarrow> (\<exists>r\<in>set (trows (memories db)). m_id r = i)"

definition refs_ok :: "mem_db \<Rightarrow> int option \<Rightarrow> bool" where
  "refs_ok db ref = (case ref of None \<Rightarrow> True | Some i \<Rightarrow> memory_exists db i)"

definition insert_memory :: "mem_env \<Rightarrow> (memory \<Rightarrow> memory) \<Rightarrow> mem_db \<Rightarrow> (int \<times> mem_db) result" where
  "insert_memory E f db =
     (let (i, t) = insert_row (\<lambda>i. f (memory_defaults i (now db) (datetime_text E (now db)))) (memories db);
          r = f (memory_defaults i (now db) (datetime_text E (now db)))
      in if refs_ok db (m_parent_memory_id r) \<and> refs_ok db (m_root_memory_id r)
         then Ok (i, db\<lparr>memories := t\<rparr>) else Err (Database (fk_error E)))"

definition mark_pagerank_dirty :: "int \<Rightarrow> mem_db \<Rightarrow> mem_db" where
  "mark_pagerank_dirty delta db =
     db\<lparr>pagerank_dirty := Some (case pagerank_dirty db of None \<Rightarrow> delta | Some n \<Rightarrow> n + delta)\<rparr>"

definition record_vector_sync_failure :: "int \<Rightarrow> string \<Rightarrow> string \<Rightarrow> mem_db \<Rightarrow> mem_db" where
  "record_vector_sync_failure memory_id op err db =
     db\<lparr>vector_sync_pending := snd (insert_row (\<lambda>i. \<lparr>v_id = i, v_memory_id = memory_id, v_op = op, v_error = err,
        v_attempts = 0, v_last_attempt_at = None\<rparr>) (vector_sync_pending db))\<rparr>"

text \<open>A failed call of an index is recorded under the given name of the operation.\<close>

definition ledger :: "int \<Rightarrow> string \<Rightarrow> string option \<Rightarrow> mem_db \<Rightarrow> mem_db" where
  "ledger memory_id op err db = (case err of None \<Rightarrow> db | Some e \<Rightarrow> record_vector_sync_failure memory_id op e db)"

definition index_insert :: "backend \<Rightarrow> int \<Rightarrow> embedding \<Rightarrow> mem_db \<Rightarrow> mem_db" where
  "index_insert B i e db = (case vector_index db of
     None \<Rightarrow> db
   | Some ix \<Rightarrow> let (err, ix') = b_insert B i e ix in ledger i ''insert'' err (db\<lparr>vector_index := Some ix'\<rparr>))"

definition index_delete :: "backend \<Rightarrow> int \<Rightarrow> mem_db \<Rightarrow> mem_db" where
  "index_delete B i db = (case vector_index db of
     None \<Rightarrow> db
   | Some ix \<Rightarrow> let (err, ix') = b_delete B i ix in ledger i ''delete'' err (db\<lparr>vector_index := Some ix'\<rparr>))"

section \<open>Chunks\<close>

definition chunk_index_insert_many :: "backend \<Rightarrow> int \<Rightarrow> (int \<times> embedding) list \<Rightarrow> mem_db \<Rightarrow> mem_db" where
  "chunk_index_insert_many B memory_id batch db = (case chunk_vector_index db of
     None \<Rightarrow> db
   | Some ix \<Rightarrow> let (err, ix') = b_insert_many B batch ix in
       ledger memory_id ''chunk-insert'' err (db\<lparr>chunk_vector_index := Some ix'\<rparr>))"

text \<open>A failed removal from the chunk index is ignored.\<close>

definition chunk_index_delete :: "backend \<Rightarrow> int \<Rightarrow> mem_db \<Rightarrow> mem_db" where
  "chunk_index_delete B key db = (case chunk_vector_index db of
     None \<Rightarrow> db
   | Some ix \<Rightarrow> db\<lparr>chunk_vector_index := Some (snd (b_delete B key ix))\<rparr>)"

definition insert_chunk :: "int \<Rightarrow> nat \<Rightarrow> string \<Rightarrow> string option \<Rightarrow> chunk_row table \<Rightarrow> chunk_row table" where
  "insert_chunk memory_id idx content blob t =
     snd (insert_row (\<lambda>i. \<lparr>c_id = i, c_memory_id = memory_id, c_chunk_idx = idx, c_content = content,
       c_embedding = blob\<rparr>) t)"

fun insert_chunks :: "int \<Rightarrow> nat \<Rightarrow> (string \<times> embedding) list \<Rightarrow> chunk_row table \<Rightarrow> chunk_row table" where
  "insert_chunks memory_id idx [] t = t"
| "insert_chunks memory_id idx ((txt, e) # rest) t =
     insert_chunks memory_id (Suc idx) rest (insert_chunk memory_id idx txt (Some (embedding_to_blob e)) t)"

fun chunk_batch :: "int \<Rightarrow> nat \<Rightarrow> (string \<times> embedding) list \<Rightarrow> (int \<times> embedding) list" where
  "chunk_batch memory_id idx [] = []"
| "chunk_batch memory_id idx ((txt, e) # rest) = (chunk_lance_key memory_id idx, e) # chunk_batch memory_id (Suc idx) rest"

definition write_chunks :: "backend \<Rightarrow> int \<Rightarrow> (string \<times> embedding) list \<Rightarrow> mem_db \<Rightarrow> mem_db" where
  "write_chunks B memory_id chunks db =
     (let cleared = delete_where (\<lambda>c. c_memory_id c = memory_id) (memory_chunks db);
          db' = db\<lparr>memory_chunks := insert_chunks memory_id 0 chunks cleared\<rparr>
      in chunk_index_insert_many B memory_id (chunk_batch memory_id 0 chunks) db')"

definition chunks_of :: "mem_db \<Rightarrow> int \<Rightarrow> chunk_row list" where
  "chunks_of db memory_id = sort_key c_chunk_idx (select_where (\<lambda>c. c_memory_id c = memory_id) (memory_chunks db))"

text \<open>\<^verbatim>\<open>INSERT ... SELECT\<close> of the rows of the old version; the table is unique in memory and index.\<close>

definition copy_chunks :: "int \<Rightarrow> int \<Rightarrow> mem_db \<Rightarrow> mem_db option" where
  "copy_chunks old_id new_id db =
     (let olds = select_where (\<lambda>c. c_memory_id c = old_id) (memory_chunks db);
          taken = map c_chunk_idx (select_where (\<lambda>c. c_memory_id c = new_id) (memory_chunks db))
      in if \<exists>c\<in>set olds. c_chunk_idx c \<in> set taken then None
         else Some (db\<lparr>memory_chunks := fold (\<lambda>c. insert_chunk new_id (c_chunk_idx c) (c_content c) (c_embedding c))
                olds (memory_chunks db)\<rparr>))"

definition carry_forward_chunks :: "backend \<Rightarrow> int \<Rightarrow> int \<Rightarrow> mem_db \<Rightarrow> mem_db" where
  "carry_forward_chunks B old_id new_id db = (case copy_chunks old_id new_id db of
     None \<Rightarrow> db
   | Some db1 \<Rightarrow>
       if chunk_vector_index db1 = None then db1
       else let chunks = [(c_chunk_idx c, blob_to_embedding b). c \<leftarrow> chunks_of db1 new_id, b \<leftarrow> (case c_embedding c of None \<Rightarrow> [] | Some b \<Rightarrow> [b])];
                db2 = chunk_index_insert_many B new_id (map (\<lambda>(idx, e). (chunk_lance_key new_id idx, e)) chunks) db1
            in fold (\<lambda>(idx, e). chunk_index_delete B (chunk_lance_key old_id idx)) chunks db2)"

definition delete_chunk_vectors :: "backend \<Rightarrow> int \<Rightarrow> mem_db \<Rightarrow> mem_db" where
  "delete_chunk_vectors B memory_id db =
     fold (\<lambda>c. chunk_index_delete B (chunk_lance_key memory_id (c_chunk_idx c))) (chunks_of db memory_id) db"

section \<open>Quota\<close>

definition exceeds :: "int \<Rightarrow> int option \<Rightarrow> bool" where
  "exceeds v limit = (case limit of None \<Rightarrow> False | Some l \<Rightarrow> v > l)"

definition enforce_quota_in_tx :: "mem_env \<Rightarrow> quota_config \<Rightarrow> int \<Rightarrow> mem_db \<Rightarrow> unit result" where
  "enforce_quota_in_tx E q bytes db =
     (if q_content_bytes q = None \<and> q_memory_count q = None then Ok ()
      else case (content_bytes db, memory_count db) of
        (Some cur_bytes, Some cur_count) \<Rightarrow>
          if exceeds (cur_bytes + bytes) (q_content_bytes q)
          then Err (QuotaExceeded (''content quota exceeded: '' @ show_int cur_bytes @ '' + '' @ show_int bytes @ '' > ''
                 @ show_int (the (q_content_bytes q)) @ '' bytes''))
          else if exceeds (cur_count + 1) (q_memory_count q)
          then Err (QuotaExceeded (''memory count quota exceeded: '' @ show_int cur_count @ '' + 1 > ''
                 @ show_int (the (q_memory_count q)) @ '' memories''))
          else Ok ()
      | _ \<Rightarrow> Err (DatabaseMessage (''quota read failed: '' @ null_error E)))"

section \<open>Store\<close>

definition dup_candidate :: "int \<Rightarrow> int option \<Rightarrow> memory \<Rightarrow> bool" where
  "dup_candidate u space r \<longleftrightarrow> m_user_id r = u \<and> \<not> m_is_forgotten r \<and> m_is_latest r \<and> \<not> m_is_consolidated r
     \<and> \<not> m_is_archived r \<and> m_status r \<noteq> ''rejected'' \<and> m_space_id r = space"

text \<open>Newest first, the first row within distance two.\<close>

definition find_duplicate_memory :: "mem_env \<Rightarrow> int \<Rightarrow> int option \<Rightarrow> string \<Rightarrow> mem_db \<Rightarrow> int option" where
  "find_duplicate_memory E u space content db =
     map_option m_id (List.find
       (\<lambda>r. hamming_distance (simhash (me_unicode E) content) (simhash (me_unicode E) (m_content r)) < 3)
       (rev (select_where (dup_candidate u space) (memories db))))"

definition stored_tags :: "mem_env \<Rightarrow> string \<Rightarrow> string list option \<Rightarrow> string option" where
  "stored_tags E content tags =
     (if (case tags of None \<Rightarrow> False | Some t \<Rightarrow> t \<noteq> []) then normalize_tags E tags
      else let inferred = infer_tags E content in
        if inferred = [] then None else normalize_tags E (Some inferred))"

definition stored_category :: "mem_env \<Rightarrow> string \<Rightarrow> string \<Rightarrow> string" where
  "stored_category E content category =
     (if category = ''general'' then (case infer_category E content of None \<Rightarrow> ''general'' | Some c \<Rightarrow> c) else category)"

text \<open>\<^verbatim>\<open>UPDATE memories SET is_latest = 0 ... WHERE id = ?1 AND is_latest = 1 AND user_id = ?2\<close>.\<close>

definition latest_of :: "int \<Rightarrow> int \<Rightarrow> memory \<Rightarrow> bool" where
  "latest_of i u r \<longleftrightarrow> owned_memory i u r \<and> m_is_latest r"

definition supersede :: "int \<Rightarrow> int \<Rightarrow> mem_db \<Rightarrow> mem_db" where
  "supersede i u db = upd_memories (latest_of i u) (\<lambda>r. r\<lparr>m_is_latest := False, m_updated_at := now db\<rparr>) db"

text \<open>The columns the \<^verbatim>\<open>INSERT\<close> sets, with the embedding that is written right after it.\<close>

definition stored_row ::
  "mem_env \<Rightarrow> string \<Rightarrow> store_request \<Rightarrow> int \<Rightarrow> int \<Rightarrow> string option \<Rightarrow> string \<Rightarrow> string \<Rightarrow> int \<Rightarrow> int option \<Rightarrow> string option
     \<Rightarrow> memory \<Rightarrow> memory" where
  "stored_row E content req u importance tags category status version root created r =
     r\<lparr>m_content := content, m_category := category, m_source := sr_source req,
       m_session_id := sr_session_id req, m_importance := importance, m_version := version,
       m_is_latest := True, m_parent_memory_id := sr_parent_memory_id req, m_root_memory_id := root,
       m_is_static := (sr_is_static req = Some True), m_tags := tags, m_status := status,
       m_space_id := sr_space_id req, m_sync_id := sr_sync_id req, m_user_id := u,
       m_lang := Some (detect_lang E content),
       m_created_at := (case created of None \<Rightarrow> m_created_at r | Some t \<Rightarrow> t),
       m_embedding := map_option embedding_to_blob (sr_embedding req)\<rparr>"

definition store_transactional ::
  "mem_env \<Rightarrow> string \<Rightarrow> store_request \<Rightarrow> int \<Rightarrow> int \<Rightarrow> string option \<Rightarrow> string \<Rightarrow> string \<Rightarrow> mem_db \<Rightarrow> (int \<times> mem_db) result" where
  "store_transactional E content req u importance tags category status db =
     (let lineage = (case sr_parent_memory_id req of
            None \<Rightarrow> Ok (1, None)
          | Some p \<Rightarrow> (case find_where (\<lambda>r. m_id r = p) (memories db) of
              None \<Rightarrow> Err (NotFound (''parent memory '' @ show_int p @ '' not found''))
            | Some parent \<Rightarrow> Ok (m_version parent + 1,
                Some (case m_root_memory_id parent of None \<Rightarrow> p | Some root \<Rightarrow> root))))
      in case lineage of
        Err e \<Rightarrow> Err e
      | Ok (version, root) \<Rightarrow>
          (case (case sr_parent_memory_id req of
                   None \<Rightarrow> Ok db
                 | Some p \<Rightarrow> if count_where (latest_of p u) (memories db) = 0
                     then Err (Conflict (''parent memory '' @ show_int p
                            @ '' is not the latest version; refusing to fork the chain''))
                     else Ok (supersede p u db)) of
             Err e \<Rightarrow> Err e
           | Ok db1 \<Rightarrow>
               (case (case sr_created_at req of
                        None \<Rightarrow> Ok None | Some raw \<Rightarrow> map_sum id Some (normalize_created_at E raw)) of
                  Err e \<Rightarrow> Err e
                | Ok created \<Rightarrow>
                    insert_memory E (stored_row E content req u importance tags category status version root created) db1)))"

definition add_counter :: "int \<Rightarrow> int option \<Rightarrow> int option" where
  "add_counter d c = map_option (\<lambda>v. v + d) c"

definition store_valence :: "mem_env \<Rightarrow> int \<Rightarrow> string \<Rightarrow> mem_db \<Rightarrow> mem_db" where
  "store_valence E i content db =
     (let v = analyze_valence E content in
      if vr_dominant_emotion v = ''neutral'' then db
      else upd_memories (\<lambda>r. m_id r = i) (\<lambda>r. r\<lparr>m_affect := \<lparr>a_valence = Some (vr_valence v),
             a_arousal = Some (vr_arousal v), a_dominant_emotion = Some (vr_dominant_emotion v)\<rparr>\<rparr>) db)"

text \<open>The transaction of \<^verbatim>\<open>store\<close>: quota, insertion, counters.\<close>

definition store_tx ::
  "mem_env \<Rightarrow> string \<Rightarrow> store_request \<Rightarrow> int \<Rightarrow> int \<Rightarrow> string \<Rightarrow> quota_config option \<Rightarrow> mem_db \<Rightarrow> (int \<times> mem_db) result" where
  "store_tx E content req u importance status quota db =
     (case (case quota of None \<Rightarrow> Ok () | Some q \<Rightarrow> enforce_quota_in_tx E q (int (length content)) db) of
        Err e \<Rightarrow> Err e
      | Ok _ \<Rightarrow>
          (case store_transactional E content req u importance (stored_tags E content (sr_tags req))
                  (stored_category E content (sr_category req)) status db of
             Err e \<Rightarrow> Err e
           | Ok (i, db') \<Rightarrow> Ok (i, if quota = None then db'
               else db'\<lparr>content_bytes := add_counter (int (length content)) (content_bytes db'),
                        memory_count := add_counter 1 (memory_count db')\<rparr>)))"

definition initial_status :: "mem_env \<Rightarrow> store_request \<Rightarrow> string" where
  "initial_status E req = resolve_initial_status (sr_source req) (clamp_importance (sr_importance req))
     (REVIEW_GATE_ENABLED E) (REVIEW_GATE_SOURCES E) (REVIEW_GATE_IMPORTANCE_THRESHOLD E)"

definition normal_request :: "mem_env \<Rightarrow> store_request \<Rightarrow> store_request" where
  "normal_request E req = req\<lparr>sr_embedding := map_option (l2_normalize E) (sr_embedding req)\<rparr>"

text \<open>What follows the transaction: the vector index, the chunks, the page rank counter, the affect columns.\<close>

definition after_store :: "mem_env \<Rightarrow> backend \<Rightarrow> store_request \<Rightarrow> string \<Rightarrow> int \<Rightarrow> mem_db \<Rightarrow> mem_db" where
  "after_store E B req content i db =
     (let db1 = (case sr_embedding req of None \<Rightarrow> db | Some e \<Rightarrow> index_insert B i e db);
          db2 = (case sr_chunk_embeddings req of None \<Rightarrow> db1 | Some cs \<Rightarrow> write_chunks B i cs db1)
      in store_valence E i content (mark_pagerank_dirty 1 db2))"

definition store ::
  "mem_env \<Rightarrow> backend \<Rightarrow> store_request \<Rightarrow> quota_config option \<Rightarrow> bool \<Rightarrow> mem_db \<Rightarrow> store_result result \<times> mem_db" where
  "store E B req quota read_only db =
     (let content = str_trim (me_unicode E) (sr_content req) in
      if content = [] then (Err (InvalidInput ''content cannot be empty''), db)
      else if length content > MAX_CONTENT_SIZE then (Err too_large, db)
      else if read_only then (Err (QuotaExceeded ''tenant shard is in read-only mode (disk quota exceeded)''), db)
      else case sr_user_id req of
        None \<Rightarrow> (Err (InvalidInput ''user_id required''), db)
      | Some u \<Rightarrow>
          (case (if sr_parent_memory_id req = None then find_duplicate_memory E u (sr_space_id req) content db else None) of
             Some d \<Rightarrow> (Ok \<lparr>res_id = d, res_created = False, res_duplicate_of = Some d, res_pending = False\<rparr>, db)
           | None \<Rightarrow>
               (case store_tx E content (normal_request E req) u (clamp_importance (sr_importance req))
                       (initial_status E req) quota db of
                  Err e \<Rightarrow> (Err e, db)
                | Ok (i, db') \<Rightarrow>
                    (Ok \<lparr>res_id = i, res_created = True, res_duplicate_of = None,
                       res_pending = (initial_status E req = ''pending'')\<rparr>,
                     after_store E B (normal_request E req) content i db'))))"

section \<open>Reading one memory\<close>

text \<open>The embedding column is not read, and the owner is filled in from the caller.\<close>

definition row_to_memory :: "memory \<Rightarrow> int \<Rightarrow> memory" where
  "row_to_memory r u = r\<lparr>m_embedding := None, m_user_id := u\<rparr>"

definition get_internal :: "(memory \<Rightarrow> bool) \<Rightarrow> int \<Rightarrow> int \<Rightarrow> bool \<Rightarrow> mem_db \<Rightarrow> memory result \<times> mem_db" where
  "get_internal P i u log_access db = (case find_where (\<lambda>r. m_id r = i \<and> P r \<and> m_user_id r = u) (memories db) of
     None \<Rightarrow> (Err (NotFound (''memory '' @ show_int i @ '' not found'')), db)
   | Some r \<Rightarrow> (Ok (row_to_memory r u),
       if log_access then upd_memories (owned_memory i u) (\<lambda>r. r\<lparr>m_access_count := m_access_count r + 1,
         m_last_accessed_at := Some (now db), m_updated_at := now db\<rparr>) db else db))"

definition get_memory :: "int \<Rightarrow> int \<Rightarrow> mem_db \<Rightarrow> memory result \<times> mem_db" where
  "get_memory i u db = get_internal (\<lambda>r. \<not> m_is_forgotten r \<and> \<not> m_is_archived r) i u True db"

definition get_for_ownership :: "int \<Rightarrow> int \<Rightarrow> mem_db \<Rightarrow> memory result \<times> mem_db" where
  "get_for_ownership i u db = get_internal (\<lambda>r. \<not> m_is_forgotten r) i u False db"

end
