(* ===== verification/Memory_Edit.thy ===== *)
theory Memory_Edit
  imports Memory_Store
begin

text \<open>
  Editing, deleting, restoring and reviewing memories: the rest of the operations of
  \<^verbatim>\<open>kleos-lib/src/memory/mod.rs\<close> that change a row, and \<^verbatim>\<open>inbox.rs\<close>.
\<close>

section \<open>Update\<close>

text \<open>What \<^verbatim>\<open>update\<close> has computed when it enters its transaction.\<close>

record update_plan =
  up_id :: int
  up_user :: int
  up_old :: memory
  up_content :: string
  up_category :: string
  up_importance :: int
  up_is_static :: bool
  up_status :: string
  up_tags :: "string option"
  up_root :: int
  up_version :: int
  up_embedding :: "embedding option"
  up_chunks :: "(string \<times> embedding) list option"
  up_counters :: bool

definition or_old :: "'a option \<Rightarrow> 'a \<Rightarrow> 'a" where
  "or_old new old = (case new of None \<Rightarrow> old | Some v \<Rightarrow> v)"

definition update_read :: "mem_env \<Rightarrow> int \<Rightarrow> update_request \<Rightarrow> int \<Rightarrow> bool \<Rightarrow> mem_db \<Rightarrow> update_plan result" where
  "update_read E i req u counters db =
     (case find_where (\<lambda>r. m_id r = i \<and> \<not> m_is_forgotten r \<and> m_user_id r = u) (memories db) of
        None \<Rightarrow> Err (NotFound (''memory '' @ show_int i @ '' not found''))
      | Some r \<Rightarrow>
          (let old = row_to_memory r u;
               new_content = (case ur_content req of None \<Rightarrow> m_content old | Some c \<Rightarrow> str_trim (me_unicode E) c)
           in if new_content = [] then Err (InvalidInput ''content cannot be empty'')
              else if length new_content > MAX_CONTENT_SIZE then Err too_large
              else if \<not> (ur_status req = None \<or> ur_status req = Some (m_status old))
              then Err (InvalidInput ''status cannot be changed through update; use the approve/reject endpoints'')
              else Ok \<lparr>up_id = i, up_user = u, up_old = old, up_content = new_content,
                 up_category = or_old (ur_category req) (m_category old),
                 up_importance = clamp_importance (or_old (ur_importance req) (m_importance old)),
                 up_is_static = or_old (ur_is_static req) (m_is_static old), up_status = m_status old,
                 up_tags = (if ur_tags req = None then m_tags old else normalize_tags E (ur_tags req)),
                 up_root = or_old (m_root_memory_id old) (m_id old), up_version = m_version old + 1,
                 up_embedding = map_option (l2_normalize E) (ur_embedding req),
                 up_chunks = ur_chunk_embeddings req, up_counters = counters\<rparr>))"

text \<open>The new row carries the previous version's state forward; the embedding is the new one or the old blob.\<close>

definition new_version :: "mem_env \<Rightarrow> update_plan \<Rightarrow> string option \<Rightarrow> memory \<Rightarrow> memory" where
  "new_version E p blob r = (let old = up_old p in r\<lparr>
     m_content := up_content p, m_category := up_category p, m_source := m_source old,
     m_session_id := m_session_id old, m_importance := up_importance p, m_version := up_version p,
     m_is_latest := True, m_parent_memory_id := Some (m_id old), m_root_memory_id := Some (up_root p),
     m_is_static := up_is_static p, m_tags := up_tags p, m_status := up_status p, m_space_id := m_space_id old,
     m_fsrs := m_fsrs old, m_confidence := m_confidence old, m_model := m_model old,
     m_is_archived := m_is_archived old, m_is_fact := m_is_fact old, m_is_decomposed := m_is_decomposed old,
     m_source_count := m_source_count old, m_episode_id := m_episode_id old, m_forget_after := m_forget_after old,
     m_forget_reason := m_forget_reason old, m_decay_score := m_decay_score old, m_sync_id := m_sync_id old,
     m_affect := m_affect old, m_user_id := up_user p, m_lang := Some (detect_lang E (up_content p)),
     m_embedding := blob\<rparr>)"

definition stored_blob :: "mem_db \<Rightarrow> int \<Rightarrow> string option" where
  "stored_blob db i = (case find_where (\<lambda>r. m_id r = i) (memories db) of None \<Rightarrow> None | Some r \<Rightarrow> m_embedding r)"

definition update_transactional :: "mem_env \<Rightarrow> update_plan \<Rightarrow> mem_db \<Rightarrow> (int \<times> mem_db) result" where
  "update_transactional E p db =
     (if count_where (latest_of (up_id p) (up_user p)) (memories db) = 0
      then Err (NotFound (''memory '' @ show_int (up_id p) @ '' is no longer the latest version (concurrent update)''))
      else let blob = (case up_embedding p of Some e \<Rightarrow> Some (embedding_to_blob e) | None \<Rightarrow> stored_blob db (up_id p))
           in insert_memory E (new_version E p blob) (supersede (up_id p) (up_user p) db))"

definition update_tx :: "mem_env \<Rightarrow> update_plan \<Rightarrow> mem_db \<Rightarrow> (int \<times> mem_db) result" where
  "update_tx E p db = (case update_transactional E p db of
     Err e \<Rightarrow> Err e
   | Ok (i, db') \<Rightarrow>
       (let delta = int (length (up_content p)) - int (length (m_content (up_old p))) in
        Ok (i, if up_counters p \<and> delta \<noteq> 0
               then db'\<lparr>content_bytes := map_option (\<lambda>v. max 0 (v + delta)) (content_bytes db')\<rparr> else db')))"

text \<open>The old vector goes only after the new one is in.\<close>

definition swap_vectors :: "backend \<Rightarrow> update_plan \<Rightarrow> int \<Rightarrow> mem_db \<Rightarrow> mem_db" where
  "swap_vectors B p i db = (case vector_index db of
     None \<Rightarrow> db
   | Some ix \<Rightarrow>
       (case (case up_embedding p of Some e \<Rightarrow> Some e | None \<Rightarrow> map_option blob_to_embedding (stored_blob db i)) of
          None \<Rightarrow> db
        | Some e \<Rightarrow>
            (case b_insert B i e ix of
               (None, ix') \<Rightarrow> index_delete B (up_id p) (db\<lparr>vector_index := Some ix'\<rparr>)
             | (Some err, ix') \<Rightarrow> ledger i ''insert'' (Some err) (db\<lparr>vector_index := Some ix'\<rparr>))))"

definition after_update :: "backend \<Rightarrow> update_plan \<Rightarrow> int \<Rightarrow> mem_db \<Rightarrow> mem_db" where
  "after_update B p i db =
     (let db1 = swap_vectors B p i db;
          db2 = (case up_chunks p of Some cs \<Rightarrow> write_chunks B i cs db1 | None \<Rightarrow> carry_forward_chunks B (up_id p) i db1)
      in mark_pagerank_dirty 1 db2)"

definition update_commit :: "mem_env \<Rightarrow> backend \<Rightarrow> update_plan \<Rightarrow> mem_db \<Rightarrow> memory result \<times> mem_db" where
  "update_commit E B p db = (case update_tx E p db of
     Err e \<Rightarrow> (Err e, db)
   | Ok (i, db1) \<Rightarrow>
       (let db2 = after_update B p i db1 in
        (case find_where (owned_memory i (up_user p)) (memories db2) of
           None \<Rightarrow> Err (Internal ''failed to fetch newly created memory version'')
         | Some r \<Rightarrow> Ok (row_to_memory r (up_user p)), db2)))"

definition update_memory ::
  "mem_env \<Rightarrow> backend \<Rightarrow> int \<Rightarrow> update_request \<Rightarrow> int \<Rightarrow> bool \<Rightarrow> mem_db \<Rightarrow> memory result \<times> mem_db" where
  "update_memory E B i req u counters db = (case update_read E i req u counters db of
     Err e \<Rightarrow> (Err e, db) | Ok p \<Rightarrow> update_commit E B p db)"

section \<open>Delete, restore, purge\<close>

definition delete_memory :: "backend \<Rightarrow> int \<Rightarrow> int \<Rightarrow> mem_db \<Rightarrow> unit result \<times> mem_db" where
  "delete_memory B i u db =
     (let P = (\<lambda>r. owned_memory i u r \<and> \<not> m_is_forgotten r) in
      if count_where P (memories db) = 0
      then (Err (NotFound (''memory '' @ show_int i @ '' not found or already deleted'')), db)
      else (Ok (), mark_pagerank_dirty 1 (delete_chunk_vectors B i (index_delete B i
             (upd_memories P (\<lambda>r. r\<lparr>m_is_forgotten := True, m_forget_reason := Some ''user_deleted'',
                m_updated_at := now db\<rparr>) db)))))"

definition in_trash :: "memory \<Rightarrow> bool" where
  "in_trash r \<longleftrightarrow> m_is_forgotten r \<and> m_forget_reason r = Some ''user_deleted''"

definition restore :: "int \<Rightarrow> int \<Rightarrow> mem_db \<Rightarrow> memory result \<times> mem_db" where
  "restore i u db =
     (let P = (\<lambda>r. owned_memory i u r \<and> in_trash r) in
      if count_where P (memories db) = 0 then (Err (NotFound (''memory '' @ show_int i @ '' not found in trash'')), db)
      else get_memory i u (record_vector_sync_failure i ''insert'' ''restore-reinsert''
             (upd_memories P (\<lambda>r. r\<lparr>m_is_forgotten := False, m_forget_reason := None, m_updated_at := now db\<rparr>) db)))"

text \<open>SQLite's \<^verbatim>\<open>length\<close> of a text counts the characters before the first NUL.\<close>

definition sql_length :: "string \<Rightarrow> nat" where
  "sql_length s = char_count (takeWhile (\<lambda>c. c \<noteq> CHR 0x00) s)"

definition purgeable :: "int \<Rightarrow> mem_db \<Rightarrow> memory \<Rightarrow> bool" where
  "purgeable days db r \<longleftrightarrow> in_trash r \<and> before (Some (m_updated_at r)) (datetime_minus_days (now db) days)"

text \<open>\<^verbatim>\<open>DELETE\<close> fails when a row that stays refers to one that goes; chunks and links of deleted rows go too.\<close>

definition points_to :: "(memory \<Rightarrow> bool) \<Rightarrow> mem_db \<Rightarrow> int option \<Rightarrow> bool" where
  "points_to P db ref = (case ref of None \<Rightarrow> False
     | Some i \<Rightarrow> \<exists>d\<in>set (trows (memories db)). P d \<and> m_id d = i)"

definition delete_memories :: "mem_env \<Rightarrow> (memory \<Rightarrow> bool) \<Rightarrow> mem_db \<Rightarrow> (nat \<times> mem_db) result" where
  "delete_memories E P db =
     (if \<exists>r\<in>set (trows (memories db)). \<not> P r \<and> (points_to P db (m_parent_memory_id r) \<or> points_to P db (m_root_memory_id r))
      then Err (Database (fk_error E))
      else Ok (count_where P (memories db),
        db\<lparr>memories := delete_where P (memories db),
           memory_chunks := delete_where (\<lambda>c. points_to P db (Some (c_memory_id c))) (memory_chunks db),
           memory_links := delete_where (\<lambda>l. points_to P db (Some (l_source_id l)) \<or> points_to P db (Some (l_target_id l)))
             (memory_links db)\<rparr>))"

definition sub_counter :: "int \<Rightarrow> int option \<Rightarrow> int option" where
  "sub_counter d c = map_option (\<lambda>v. max 0 (v - d)) c"

definition purge_trashed :: "mem_env \<Rightarrow> int \<Rightarrow> bool \<Rightarrow> mem_db \<Rightarrow> nat result \<times> mem_db" where
  "purge_trashed E days counters db =
     (let del = select_where (purgeable days db) (memories db);
          del_bytes = sum_list (map (\<lambda>r. int (sql_length (m_content r))) del)
      in case delete_memories E (purgeable days db) db of
        Err e \<Rightarrow> (Err e, db)
      | Ok (n, db') \<Rightarrow> (Ok n, if counters \<and> (del_bytes > 0 \<or> length del > 0)
          then db'\<lparr>content_bytes := sub_counter del_bytes (content_bytes db'),
                   memory_count := sub_counter (int (length del)) (memory_count db')\<rparr> else db'))"

section \<open>Flags and links\<close>

definition mark_forgotten :: "backend \<Rightarrow> int \<Rightarrow> int \<Rightarrow> mem_db \<Rightarrow> unit result \<times> mem_db" where
  "mark_forgotten B i u db =
     (if count_where (owned_memory i u) (memories db) = 0 then (Err (NotFound (''memory '' @ show_int i @ '' not found'')), db)
      else (Ok (), mark_pagerank_dirty 1 (delete_chunk_vectors B i (index_delete B i
             (upd_memories (owned_memory i u) (\<lambda>r. r\<lparr>m_is_forgotten := True, m_updated_at := now db\<rparr>) db)))))"

definition set_archived :: "bool \<Rightarrow> int \<Rightarrow> int \<Rightarrow> mem_db \<Rightarrow> unit result \<times> mem_db" where
  "set_archived b i u db =
     (if count_where (owned_memory i u) (memories db) = 0 then (Err (NotFound (''memory '' @ show_int i @ '' not found'')), db)
      else (Ok (), mark_pagerank_dirty 1
             (upd_memories (owned_memory i u) (\<lambda>r. r\<lparr>m_is_archived := b, m_updated_at := now db\<rparr>) db)))"

definition mark_archived :: "int \<Rightarrow> int \<Rightarrow> mem_db \<Rightarrow> unit result \<times> mem_db" where
  "mark_archived = set_archived True"

definition mark_unarchived :: "int \<Rightarrow> int \<Rightarrow> mem_db \<Rightarrow> unit result \<times> mem_db" where
  "mark_unarchived = set_archived False"

definition update_forget_reason :: "int \<Rightarrow> string \<Rightarrow> int \<Rightarrow> mem_db \<Rightarrow> unit result \<times> mem_db" where
  "update_forget_reason i reason u db =
     (if count_where (owned_memory i u) (memories db) = 0 then (Err (NotFound (''memory '' @ show_int i @ '' not found'')), db)
      else (Ok (), upd_memories (owned_memory i u) (\<lambda>r. r\<lparr>m_forget_reason := Some reason\<rparr>) db))"

definition adjust_importance :: "int \<Rightarrow> int \<Rightarrow> int \<Rightarrow> mem_db \<Rightarrow> unit result \<times> mem_db" where
  "adjust_importance i u delta db =
     (let new = (\<lambda>v. if delta > 0 then min (v + delta) 10 else max (v + delta) 0) in
      if count_where (owned_memory i u) (memories db) = 0 then (Err (NotFound (''memory '' @ show_int i @ '' not found'')), db)
      else (Ok (), upd_memories (owned_memory i u) (\<lambda>r. r\<lparr>m_importance := new (m_importance r)\<rparr>) db))"

text \<open>A finite double is in $(0, 1]$ exactly when its bits, read as a number, are.\<close>

definition valid_similarity :: "f64 \<Rightarrow> bool" where
  "valid_similarity s \<longleftrightarrow> 0 < s \<and> s \<le> f64_one"

definition insert_link :: "mem_env \<Rightarrow> int \<Rightarrow> int \<Rightarrow> f64 \<Rightarrow> string \<Rightarrow> int \<Rightarrow> mem_db \<Rightarrow> unit result \<times> mem_db" where
  "insert_link E s t sim ty u db =
     (if \<not> valid_similarity sim
      then (Err (InvalidInput (''similarity must be in (0.0, 1.0], got '' @ f64_display E sim)), db)
      else if count_where (\<lambda>r. m_id r \<in> {s, t} \<and> m_user_id r = u \<and> \<not> m_is_forgotten r) (memories db) < 2
      then (Err (NotFound (''one or both memories ('' @ show_int s @ '', '' @ show_int t @ '') not found'')), db)
      else (Ok (), mark_pagerank_dirty 1
        (if \<exists>l\<in>set (trows (memory_links db)). l_source_id l = s \<and> l_target_id l = t \<and> l_type l = ty then db
         else db\<lparr>memory_links := snd (insert_row (\<lambda>i. \<lparr>l_id = i, l_source_id = s, l_target_id = t,
                l_similarity = sim, l_type = ty\<rparr>) (memory_links db))\<rparr>)))"

definition update_source_count :: "int \<Rightarrow> int \<Rightarrow> int \<Rightarrow> mem_db \<Rightarrow> unit result \<times> mem_db" where
  "update_source_count i n u db =
     (Ok (), upd_memories (owned_memory i u) (\<lambda>r. r\<lparr>m_source_count := n, m_updated_at := now db\<rparr>) db)"

definition update_memory_tags :: "mem_env \<Rightarrow> int \<Rightarrow> int \<Rightarrow> string list \<Rightarrow> mem_db \<Rightarrow> unit result \<times> mem_db" where
  "update_memory_tags E i u tags db = (case get_memory i u db of
     (Err e, db1) \<Rightarrow> (Err e, db1)
   | (Ok _, db1) \<Rightarrow>
       (let normalized = (if tags = [] then None else normalize_tags E (Some tags)) in
        (Ok (), upd_memories (\<lambda>r. m_id r = i) (\<lambda>r. r\<lparr>m_tags := normalized, m_updated_at := now db\<rparr>) db1)))"

section \<open>The inbox\<close>

definition pending_memory :: "int \<Rightarrow> int \<Rightarrow> memory \<Rightarrow> bool" where
  "pending_memory i u r \<longleftrightarrow> owned_memory i u r \<and> m_status r = ''pending''"

definition no_pending :: "int \<Rightarrow> eng_error" where
  "no_pending i = NotFound (''no pending memory '' @ show_int i @ '' for this user'')"

definition approve_memory :: "int \<Rightarrow> int \<Rightarrow> mem_db \<Rightarrow> unit result \<times> mem_db" where
  "approve_memory i u db =
     (if count_where (pending_memory i u) (memories db) = 0 then (Err (no_pending i), db)
      else (Ok (), upd_memories (pending_memory i u) (\<lambda>r. r\<lparr>m_status := ''approved'', m_updated_at := now db\<rparr>) db))"

definition reject_memory :: "int \<Rightarrow> int \<Rightarrow> mem_db \<Rightarrow> unit result \<times> mem_db" where
  "reject_memory i u db =
     (if count_where (pending_memory i u) (memories db) = 0 then (Err (no_pending i), db)
      else (Ok (), upd_memories (pending_memory i u)
             (\<lambda>r. r\<lparr>m_status := ''rejected'', m_is_archived := True, m_updated_at := now db\<rparr>) db))"

definition set_forget_reason :: "int \<Rightarrow> int \<Rightarrow> string \<Rightarrow> mem_db \<Rightarrow> unit result \<times> mem_db" where
  "set_forget_reason i u reason db = (Ok (), upd_memories (owned_memory i u) (\<lambda>r. r\<lparr>m_forget_reason := Some reason\<rparr>) db)"

text \<open>Each supplied field is checked in turn; the \<^verbatim>\<open>SET\<close> list they build is a function on rows.\<close>

definition edit_sets ::
  "mem_env \<Rightarrow> string option \<Rightarrow> string option \<Rightarrow> int option \<Rightarrow> string option \<Rightarrow> int \<Rightarrow> (memory \<Rightarrow> memory) result" where
  "edit_sets E content category importance tags t =
     (case (case content of None \<Rightarrow> Ok id
              | Some c \<Rightarrow> map_sum id (\<lambda>_. m_content_update (\<lambda>_. str_trim (me_unicode E) c)) (validate_content E c)) of
        Err e \<Rightarrow> Err e
      | Ok set_content \<Rightarrow>
          (case (case category of None \<Rightarrow> Ok id
                   | Some c \<Rightarrow> (let trimmed = str_trim (me_unicode E) c in
                       if trimmed = [] then Err (InvalidInput ''category must not be empty'')
                       else Ok (m_category_update (\<lambda>_. trimmed)))) of
             Err e \<Rightarrow> Err e
           | Ok set_category \<Rightarrow>
               (let set_importance = (case importance of None \<Rightarrow> id
                      | Some i \<Rightarrow> m_importance_update (\<lambda>_. clamp_importance_i64 i)) in
                case (case tags of None \<Rightarrow> Ok id
                        | Some raw \<Rightarrow> map_sum id (\<lambda>json. m_tags_update (\<lambda>_. json)) (normalize_tags_json E raw)) of
                  Err e \<Rightarrow> Err e
                | Ok set_tags \<Rightarrow> Ok (\<lambda>r. set_tags (set_importance (set_category (set_content
                    (r\<lparr>m_status := ''approved'', m_updated_at := t\<rparr>))))))))"

definition edit_and_approve ::
  "mem_env \<Rightarrow> int \<Rightarrow> int \<Rightarrow> string option \<Rightarrow> string option \<Rightarrow> int option \<Rightarrow> string option \<Rightarrow> mem_db \<Rightarrow> unit result \<times> mem_db" where
  "edit_and_approve E i u content category importance tags db =
     (case edit_sets E content category importance tags (now db) of
        Err e \<Rightarrow> (Err e, db)
      | Ok f \<Rightarrow>
          if count_where (pending_memory i u) (memories db) = 0 then (Err (no_pending i), db)
          else (Ok (), upd_memories (pending_memory i u) f db))"

end
