(* ===== verification/Memory_Queries.thy ===== *)
theory Memory_Queries
  imports Memory_Edit
begin

text \<open>
  The queries of the memory store (\<^verbatim>\<open>kleos-lib/src/memory/mod.rs\<close>) and of the inbox: listings, the calendar,
  the recall tiers, tags, links and version chains. Where SQL leaves the order of equal keys open the model
  takes the order of the rows.
\<close>

text \<open>\<^verbatim>\<open>ORDER BY k DESC\<close>.\<close>

definition desc_by :: "('a \<Rightarrow> 'k::linorder) \<Rightarrow> 'a list \<Rightarrow> 'a list" where
  "desc_by k xs = rev (sort_key k (rev xs))"

lemma set_desc_by [simp]: "set (desc_by k xs) = set xs"
  by (simp add: desc_by_def)

definition rows_to_memories :: "int \<Rightarrow> memory list \<Rightarrow> memory list" where
  "rows_to_memories u rs = map (\<lambda>r. row_to_memory r u) rs"

section \<open>Listings\<close>

definition matches :: "'a option \<Rightarrow> 'a \<Rightarrow> bool" where
  "matches want v = (case want of None \<Rightarrow> True | Some w \<Rightarrow> v = w)"

definition list_condition :: "list_options \<Rightarrow> int \<Rightarrow> memory \<Rightarrow> bool" where
  "list_condition opts u r \<longleftrightarrow> m_user_id r = u
     \<and> (lo_include_forgotten opts \<or> \<not> m_is_forgotten r) \<and> (lo_include_archived opts \<or> \<not> m_is_archived r)
     \<and> m_is_latest r \<and> \<not> m_is_consolidated r \<and> (lo_include_pending opts \<or> m_status r \<noteq> ''pending'')
     \<and> matches (lo_category opts) (m_category r) \<and> matches (lo_source opts) (m_source r)
     \<and> (case lo_space_id opts of None \<Rightarrow> True | Some s \<Rightarrow> m_space_id r = Some s)
     \<and> (case lo_from opts of None \<Rightarrow> True | Some f \<Rightarrow> f \<le> m_created_at r)
     \<and> (case lo_to opts of None \<Rightarrow> True | Some t \<Rightarrow> m_created_at r < t)"

definition list_memories :: "list_options \<Rightarrow> mem_db \<Rightarrow> memory list result" where
  "list_memories opts db = (case lo_user_id opts of
     None \<Rightarrow> Err (InvalidInput ''user_id is required for memory listing'')
   | Some u \<Rightarrow> Ok (rows_to_memories u (sql_limit (usize_as_i64 (lo_limit opts)) (sql_offset (usize_as_i64 (lo_offset opts))
       (rev (select_where (list_condition opts u) (memories db)))))))"

definition active_memory :: "int \<Rightarrow> memory \<Rightarrow> bool" where
  "active_memory u r \<longleftrightarrow> m_user_id r = u \<and> \<not> m_is_forgotten r \<and> \<not> m_is_archived r \<and> m_is_latest r
     \<and> \<not> m_is_consolidated r \<and> m_status r \<noteq> ''pending''"

definition in_space :: "int option \<Rightarrow> memory \<Rightarrow> bool" where
  "in_space space r = (case space of None \<Rightarrow> True | Some s \<Rightarrow> m_space_id r = Some s)"

definition list_static :: "int \<Rightarrow> int option \<Rightarrow> 64 word \<Rightarrow> mem_db \<Rightarrow> memory list" where
  "list_static u space limit db = rows_to_memories u (sql_limit (usize_as_i64 limit)
     (desc_by m_importance (desc_by m_created_at
       (select_where (\<lambda>r. active_memory u r \<and> m_is_static r \<and> in_space space r) (memories db)))))"

definition list_important :: "int \<Rightarrow> int option \<Rightarrow> int \<Rightarrow> 64 word \<Rightarrow> mem_db \<Rightarrow> memory list" where
  "list_important u space min_importance limit db = rows_to_memories u (sql_limit (usize_as_i64 limit)
     (desc_by m_importance (rev
       (select_where (\<lambda>r. active_memory u r \<and> min_importance \<le> m_importance r \<and> in_space space r) (memories db)))))"

definition list_trashed :: "int \<Rightarrow> 64 word \<Rightarrow> mem_db \<Rightarrow> memory list" where
  "list_trashed u limit db = rows_to_memories u (sql_limit (usize_as_i64 limit)
     (desc_by m_updated_at (select_where (\<lambda>r. m_user_id r = u \<and> in_trash r) (memories db))))"

definition inbox_condition :: "int \<Rightarrow> memory \<Rightarrow> bool" where
  "inbox_condition u r \<longleftrightarrow> m_status r = ''pending'' \<and> \<not> m_is_forgotten r \<and> m_user_id r = u"

definition inbox_list_pending :: "int \<Rightarrow> int \<Rightarrow> int \<Rightarrow> mem_db \<Rightarrow> memory list" where
  "inbox_list_pending u limit offset db =
     sql_limit limit (sql_offset offset (desc_by m_created_at (select_where (inbox_condition u) (memories db))))"

definition count_pending :: "int \<Rightarrow> mem_db \<Rightarrow> nat" where
  "count_pending u db = count_where (inbox_condition u) (memories db)"

section \<open>Calendar\<close>

text \<open>\<^verbatim>\<open>{:04}\<close> and \<^verbatim>\<open>{:02}\<close>: zeros between the sign and the digits.\<close>

definition zero_padded :: "nat \<Rightarrow> int \<Rightarrow> string" where
  "zero_padded w i = (let s = show_nat (nat \<bar>i\<bar>); sign = (if i < 0 then ''-'' else [])
     in sign @ replicate (w - length sign - length s) (CHR ''0'') @ s)"

definition calendar_rows ::
  "mem_env \<Rightarrow> int \<Rightarrow> (string \<times> string) list \<Rightarrow> mem_db \<Rightarrow> memory list" where
  "calendar_rows E u parts db =
     select_where (\<lambda>r. active_memory u r \<and> (\<forall>(fmt, v)\<in>set parts. strftime E fmt (m_created_at r) = Some v)) (memories db)"

definition bucket_counts :: "mem_env \<Rightarrow> string \<Rightarrow> bool \<Rightarrow> memory list \<Rightarrow> (string \<times> nat) list result" where
  "bucket_counts E fmt newest_first rows =
     (let buckets = map (\<lambda>r. strftime E fmt (m_created_at r)) rows in
      if None \<in> set buckets then Err (Database (null_error E))
      else let bs = map the buckets; keys = sort (remdups bs)
           in Ok (map (\<lambda>b. (b, count_list bs b)) (if newest_first then rev keys else keys)))"

definition calendar_counts ::
  "mem_env \<Rightarrow> int \<Rightarrow> string \<Rightarrow> int option \<Rightarrow> nat option \<Rightarrow> mem_db \<Rightarrow> (string \<times> nat) list result" where
  "calendar_counts E u granularity year month db =
     (if granularity = ''year'' then bucket_counts E ''%Y'' True (calendar_rows E u [] db)
      else if granularity = ''month'' then (case year of
        None \<Rightarrow> Err (InvalidInput ''year is required for month granularity'')
      | Some y \<Rightarrow> bucket_counts E ''%m'' False (calendar_rows E u [(''%Y'', zero_padded 4 y)] db))
      else if granularity = ''day'' then (case year of
        None \<Rightarrow> Err (InvalidInput ''year is required for day granularity'')
      | Some y \<Rightarrow> (case month of
          None \<Rightarrow> Err (InvalidInput ''month is required for day granularity'')
        | Some m \<Rightarrow> bucket_counts E ''%d'' False
            (calendar_rows E u [(''%Y'', zero_padded 4 y), (''%m'', zero_padded 2 (int m))] db)))
      else Err (InvalidInput (''invalid granularity: '' @ granularity)))"

section \<open>Recall tiers\<close>

text \<open>The first loop sends rows to the output until the cap, then to the deferred ones; the others push while
  there is room.\<close>

fun always_on :: "nat \<Rightarrow> 'a list \<Rightarrow> 'a list \<Rightarrow> 'a list \<Rightarrow> 'a list \<times> 'a list" where
  "always_on cap out deferred [] = (out, deferred)"
| "always_on cap out deferred (x # xs) =
     (if length out < cap then always_on cap (out @ [x]) deferred xs else always_on cap out (deferred @ [x]) xs)"

fun push_up_to :: "nat \<Rightarrow> 'a list \<Rightarrow> 'a list \<Rightarrow> 'a list" where
  "push_up_to limit out [] = out"
| "push_up_to limit out (x # xs) = (if length out \<ge> limit then out else push_up_to limit (out @ [x]) xs)"

definition compose_recall_tiers ::
  "'a list \<Rightarrow> 'a list \<Rightarrow> 'a list \<Rightarrow> 'a list \<Rightarrow> nat \<Rightarrow> nat \<Rightarrow> 'a list" where
  "compose_recall_tiers static_items important_items semantic_items recent_items limit min_semantic_slots =
     (let semantic_reserve = min (length semantic_items) min_semantic_slots;
          (out, deferred) = always_on (limit - semantic_reserve) [] [] (static_items @ important_items)
      in push_up_to limit (push_up_to limit (push_up_to limit out semantic_items) deferred) recent_items)"

section \<open>Tags\<close>

definition tag_rows :: "int \<Rightarrow> memory \<Rightarrow> bool" where
  "tag_rows u r \<longleftrightarrow> m_user_id r = u \<and> \<not> m_is_forgotten r \<and> m_is_latest r \<and> \<not> m_is_archived r
     \<and> m_status r \<noteq> ''pending'' \<and> m_tags r \<noteq> None"

definition list_all_tags :: "mem_env \<Rightarrow> int \<Rightarrow> mem_db \<Rightarrow> (string \<times> nat) list" where
  "list_all_tags E u db =
     (let tags = concat (map (\<lambda>r. parse_tags_json E (m_tags r))
            (select_where (\<lambda>r. tag_rows u r \<and> m_tags r \<noteq> Some ''[]'') (memories db)))
      in desc_by snd (map (\<lambda>t. (t, count_list tags t)) (sort (remdups tags))))"

definition tags_of_row :: "mem_env \<Rightarrow> memory \<Rightarrow> string list option" where
  "tags_of_row E r = (case m_tags r of None \<Rightarrow> Some [] | Some raw \<Rightarrow> json_each E raw)"

definition has_tags :: "mem_env \<Rightarrow> string list \<Rightarrow> bool \<Rightarrow> memory \<Rightarrow> bool" where
  "has_tags E wanted match_all r = (case tags_of_row E r of
     None \<Rightarrow> False
   | Some ts \<Rightarrow> if match_all then length (remdups (filter (\<lambda>t. t \<in> set wanted) ts)) = length wanted
       else \<exists>t\<in>set ts. t \<in> set wanted)"

definition search_by_tags :: "mem_env \<Rightarrow> int \<Rightarrow> string list \<Rightarrow> bool \<Rightarrow> 64 word \<Rightarrow> mem_db \<Rightarrow> memory list result" where
  "search_by_tags E u tags match_all limit db =
     (let normalized = normal_tags E tags; rows = select_where (tag_rows u) (memories db) in
      if normalized = [] then Ok []
      else if \<exists>r\<in>set rows. tags_of_row E r = None then Err (Database (json_error E))
      else Ok (rows_to_memories u (sql_limit (usize_as_i64 (min limit MAX_SEARCH_LIMIT))
             (desc_by m_created_at (filter (has_tags E normalized match_all) rows)))))"

section \<open>Links and versions\<close>

record linked_memory =
  lm_id :: int
  lm_similarity :: f64
  lm_type :: string
  lm_content :: string
  lm_category :: string

text \<open>One side of the \<^verbatim>\<open>UNION\<close>: the links of a memory joined with the rows at their other end.\<close>

definition link_side :: "(link_row \<Rightarrow> int) \<Rightarrow> (link_row \<Rightarrow> int) \<Rightarrow> int \<Rightarrow> int \<Rightarrow> mem_db \<Rightarrow> linked_memory list" where
  "link_side here there i u db =
     [\<lparr>lm_id = m_id m, lm_similarity = l_similarity l, lm_type = l_type l, lm_content = m_content m,
        lm_category = m_category m\<rparr>.
      l \<leftarrow> select_where (\<lambda>l. here l = i) (memory_links db),
      m \<leftarrow> select_where (\<lambda>m. m_id m = there l \<and> m_user_id m = u \<and> \<not> m_is_forgotten m) (memories db)]"

definition get_links_for :: "int \<Rightarrow> int \<Rightarrow> mem_db \<Rightarrow> linked_memory list" where
  "get_links_for i u db =
     remdups (link_side l_source_id l_target_id i u db @ link_side l_target_id l_source_id i u db)"

record version_entry =
  ve_id :: int
  ve_content :: string
  ve_version :: int
  ve_is_latest :: bool

definition to_version_entry :: "memory \<Rightarrow> version_entry" where
  "to_version_entry r = \<lparr>ve_id = m_id r, ve_content = m_content r, ve_version = m_version r, ve_is_latest = m_is_latest r\<rparr>"

definition in_chain :: "int \<Rightarrow> memory \<Rightarrow> bool" where
  "in_chain root r \<longleftrightarrow> m_root_memory_id r = Some root \<or> m_id r = root"

definition get_version_chain :: "int \<Rightarrow> int \<Rightarrow> mem_db \<Rightarrow> version_entry list result \<times> mem_db" where
  "get_version_chain i u db = (case get_memory i u db of
     (Err e, db1) \<Rightarrow> (Err e, db1)
   | (Ok m, db1) \<Rightarrow>
       (let root = or_old (m_root_memory_id m) (m_id m) in
        (Ok (map to_version_entry (sort_key m_version
           (select_where (\<lambda>r. in_chain root r \<and> m_user_id r = u) (memories db1)))), db1)))"

section \<open>Facts\<close>

lemma always_on_exact:
  "length out \<le> cap \<Longrightarrow> (deferred \<noteq> [] \<longrightarrow> length out = cap) \<Longrightarrow>
   always_on cap out deferred xs = (out @ take (cap - length out) xs, deferred @ drop (cap - length out) xs)"
proof (induction cap out deferred xs rule: always_on.induct)
  case (2 cap out deferred x xs)
  show ?case
  proof (cases "length out < cap")
    case True
    then have "deferred = []" using 2(4) by auto
    moreover have "cap - length out = Suc (cap - Suc (length out))" using True by simp
    ultimately show ?thesis using 2(1) True by simp
  next
    case False
    then have "length out = cap" using 2(3) by simp
    then show ?thesis using 2(2) False by simp
  qed
qed simp

lemma push_up_to_exact:
  "length out \<le> limit \<Longrightarrow> push_up_to limit out xs = take limit (out @ xs)"
  by (induction limit out xs rule: push_up_to.induct) (auto simp: take_Cons' not_less_eq_eq)

lemma push_take: "push_up_to limit (take limit xs) ys = take limit (xs @ ys)"
  by (cases "limit \<le> length xs") (simp_all add: push_up_to_exact)

lemma compose_take:
  "compose_recall_tiers st imp sem recent limit slots =
     (let cap = limit - min (length sem) slots in
      take limit (take cap (st @ imp) @ sem @ drop cap (st @ imp) @ recent))"
proof -
  define cap where "cap = limit - min (length sem) slots"
  have "always_on cap [] [] (st @ imp) = (take limit (take cap (st @ imp)), drop cap (st @ imp))"
    using always_on_exact [of "[]" cap "[]" "st @ imp"] by (simp add: min_absorb2 cap_def del: take_append drop_append)
  then show ?thesis
    unfolding compose_recall_tiers_def cap_def [symmetric] Let_def by (simp only: prod.case push_take append_assoc)
qed

text \<open>
  Property C35. Composing the recall tiers: the pinned and important rows up to the limit less the reserve, then
  the semantic rows, then the deferred pinned and important rows, then recent ones, cut at the limit. So as many
  semantic rows are returned as there are, up to the reserved slots and the limit.
\<close>

theorem compose_recall_tiers_exact:
  "compose_recall_tiers st imp sem recent limit slots =
     (let cap = limit - min (length sem) slots in
      take limit (take cap (st @ imp) @ sem @ drop cap (st @ imp) @ recent))
   \<and> (\<exists>pre post. compose_recall_tiers st imp sem recent limit slots
        = pre @ take (min limit (min (length sem) slots)) sem @ post)"
proof
  define k where "k = min limit (min (length sem) slots)"
  define pre where "pre = take (limit - min (length sem) slots) (st @ imp)"
  let ?rest = "drop (limit - min (length sem) slots) (st @ imp) @ recent"
  have "length pre + k \<le> limit" by (simp add: pre_def k_def)
  moreover have "length (take k sem) = k" by (simp add: k_def)
  ultimately have "take limit (pre @ (take k sem @ drop k sem) @ ?rest)
      = pre @ take k sem @ take (limit - length pre - k) (drop k sem @ ?rest)"
    by (simp only: append_assoc take_append take_all diff_diff_left)
  then show "\<exists>pre post. compose_recall_tiers st imp sem recent limit slots
      = pre @ take (min limit (min (length sem) slots)) sem @ post"
    unfolding compose_take Let_def pre_def [symmetric] k_def [symmetric] append_take_drop_id by blast
qed (rule compose_take)

end
