(* ===== verification/Chunking.thy ===== *)
theory Chunking
  imports Utf8 Json_Values
begin

text \<open>
  The two text chunkers: the one that prepares embeddings (\<^verbatim>\<open>kleos-lib/src/embeddings/chunking.rs\<close>) and the one that
  splits documents on ingestion (\<^verbatim>\<open>kleos-lib/src/ingestion/chunker.rs\<close>). Positions are byte offsets; slicing off a
  character boundary panics, which is the value None. A text that reaches a loop is longer than the chunk size, so
  the sizes are below the length of a string and the products of the code do not overflow.
\<close>

section \<open>Chunks for embeddings\<close>

definition floor_char_boundary :: "string \<Rightarrow> nat \<Rightarrow> nat" where
  "floor_char_boundary s idx = (if length s \<le> idx then length s else step_back s idx)"

text \<open>The end of the first match of \<^verbatim>\<open>[.!?]\s\<close>.\<close>

fun sentence_break :: "nat \<Rightarrow> string \<Rightarrow> nat option" where
  "sentence_break n [] = None"
| "sentence_break n (c # s) =
     (if c \<in> {CHR ''.'', CHR ''!'', CHR ''?''} \<and> white_len s \<noteq> 0 then Some (n + 1 + white_len s)
      else sentence_break (n + 1) s)"

text \<open>The last position below \<open>n\<close> with a property, as a loop over the bytes finds it.\<close>

fun last_index :: "(nat \<Rightarrow> bool) \<Rightarrow> nat \<Rightarrow> nat option" where
  "last_index P 0 = None"
| "last_index P (Suc n) = (if P n then Some n else last_index P n)"

definition rfind_space :: "string \<Rightarrow> nat option" where
  "rfind_space s = last_index (\<lambda>i. s ! i = CHR '' '') (length s)"

definition chunk_end :: "string \<Rightarrow> nat \<Rightarrow> nat \<Rightarrow> nat option" where
  "chunk_end s chunk_size start =
     (let e = floor_char_boundary s (min (start + chunk_size) (length s)) in
      case slice s start e of
        None \<Rightarrow> None
      | Some w \<Rightarrow>
          (let b = floor_char_boundary w (min (chunk_size * 7 div 10) (length w)) in
           if length s \<le> e then Some e
           else case slice w b (length w) of
             None \<Rightarrow> None
           | Some tail \<Rightarrow>
               (case sentence_break 0 tail of
                  Some k \<Rightarrow> Some (start + (b + k))
                | None \<Rightarrow>
                    (case rfind_space w of
                       Some pos \<Rightarrow> if chunk_size div 2 < pos then Some (start + pos) else Some e
                     | None \<Rightarrow> Some e))))"

definition next_start :: "string \<Rightarrow> nat \<Rightarrow> nat \<Rightarrow> nat \<Rightarrow> nat \<Rightarrow> nat" where
  "next_start s chunk_size overlap start e =
     (let step = e - start - overlap;
          next = floor_char_boundary s (start + max step (chunk_size * 3 div 10))
      in if next \<le> start then min (step_forward s (start + 1)) (length s) else next)"

lemma next_start_progress: "start < length s \<Longrightarrow> start < next_start s chunk_size overlap start e"
  using step_forward_ge [of "start + 1" s] by (auto simp: next_start_def Let_def)

function chunk_loop :: "string \<Rightarrow> nat \<Rightarrow> nat \<Rightarrow> nat \<Rightarrow> nat \<Rightarrow> string list \<Rightarrow> string list option" where
  "chunk_loop s chunk_size overlap max_chunks start chunks =
     (if start < length s \<and> length chunks < max_chunks then
        case chunk_end s chunk_size start of
          None \<Rightarrow> None
        | Some e \<Rightarrow>
            (case slice s start e of
               None \<Rightarrow> None
             | Some w \<Rightarrow>
                 (let chunk = trim_white w in
                  chunk_loop s chunk_size overlap max_chunks (next_start s chunk_size overlap start e)
                    (if chunk = [] then chunks else chunks @ [chunk])))
      else Some chunks)"
  by pat_completeness auto
termination
  by (relation "measure (\<lambda>(s, chunk_size, overlap, max_chunks, start, chunks). length s - start)")
    (auto intro: diff_less_mono2 next_start_progress)

declare chunk_loop.simps [simp del]

definition chunk_text_with_limit :: "string \<Rightarrow> nat \<Rightarrow> nat \<Rightarrow> nat \<Rightarrow> string list option" where
  "chunk_text_with_limit text chunk_size overlap max_chunks =
     (let s = trim_white text in
      if s = [] then Some []
      else if length s \<le> chunk_size then Some [s]
      else chunk_loop s chunk_size overlap max_chunks 0 [])"

definition chunk_text :: "string \<Rightarrow> nat \<Rightarrow> nat \<Rightarrow> string list option" where
  "chunk_text text chunk_size overlap = chunk_text_with_limit text chunk_size overlap 6"

section \<open>Chunks of documents\<close>


record chunk =
  ck_text :: string
  ck_index :: nat
  ck_total :: nat
  ck_document_title :: string
  ck_source :: string
  ck_metadata :: "(string \<times> json) list"
  ck_timestamp :: "string option"
























section \<open>Windows over a text\<close>



section \<open>Bounds of the positions\<close>







section \<open>The embedding chunker\<close>






text \<open>The chunks of a list of windows, and the loop as a traversal of windows.\<close>

definition window_texts :: "string \<Rightarrow> (nat \<times> nat) list \<Rightarrow> string list" where
  "window_texts s ws = filter (\<lambda>c. c \<noteq> []) (map (\<lambda>(a, b). trim_white (bytes_between s a b)) ws)"

lemma window_texts_simps [simp]:
  "window_texts s [] = []"
  "window_texts s ((a, b) # ws) = (if trim_white (bytes_between s a b) = [] then [] else [trim_white (bytes_between s a b)]) @ window_texts s ws"
  by (simp_all add: window_texts_def)



section \<open>The document chunker\<close>








section \<open>Properties\<close>








section \<open>Corner cases\<close>

text \<open>
  Both chunkers go on after the chunk that reaches the end of the text, so the last chunks are contained in the one
  before; the document of the witness above ends in such a fragment too.
\<close>

lemma last_chunk_repeats: "chunk_text ''abcdefghijkl'' 8 3 = Some [''abcdefgh'', ''fghijkl'', ''jkl'', ''l'']"
  by code_simp

text \<open>With a chunk size below the longest character text is lost: a four-byte character is skipped.\<close>

lemma tiny_chunks_lose_text:
  "chunk_text (''a'' @ [CHR 0xF0, CHR 0x9F, CHR 0x98, CHR 0xA4] @ ''b'') 3 0 = Some [''a'', ''b'']"
  by code_simp

end
