(* ===== verification/Memory_Vectors.thy ===== *)
theory Memory_Vectors
  imports Memory_Queries Chunking
begin

text \<open>
  Keeping the vector index in step with the table (\<^verbatim>\<open>kleos-lib/src/memory/vector_sync.rs\<close>): the replay of the
  ledger of failed index operations, the rebuild of both indexes and the backfill of missing embeddings.
  Embedding models are arguments.
\<close>

section \<open>Replay\<close>

record replay_report =
  rp_processed :: nat
  rp_succeeded :: nat
  rp_skipped :: nat
  rp_failed :: nat

definition empty_report :: replay_report where
  "empty_report = \<lparr>rp_processed = 0, rp_succeeded = 0, rp_skipped = 0, rp_failed = 0\<rparr>"

datatype replay_outcome = Synced | Skipped | Failed string

definition outcome_of :: "string option \<Rightarrow> replay_outcome" where
  "outcome_of err = (case err of None \<Rightarrow> Synced | Some e \<Rightarrow> Failed e)"

text \<open>The blobs of the rows that are to be inserted, read once for the batch.\<close>

definition fetch_embeddings_batch :: "mem_db \<Rightarrow> int list \<Rightarrow> int \<Rightarrow> string option" where
  "fetch_embeddings_batch db ids i = (if i \<in> set ids then stored_blob db i else None)"

definition delete_pending_batch :: "int list \<Rightarrow> mem_db \<Rightarrow> mem_db" where
  "delete_pending_batch ids db =
     (if ids = [] then db
      else db\<lparr>vector_sync_pending := delete_where (\<lambda>v. v_id v \<in> set ids) (vector_sync_pending db)\<rparr>)"

definition replay_chunk_insert :: "backend \<Rightarrow> int \<Rightarrow> mem_db \<Rightarrow> replay_outcome \<times> mem_db" where
  "replay_chunk_insert B memory_id db = (case chunk_vector_index db of
     None \<Rightarrow> (Skipped, db)
   | Some ix \<Rightarrow>
       (let rows = [(c_chunk_idx c, b). c \<leftarrow> chunks_of db memory_id, b \<leftarrow> (case c_embedding c of None \<Rightarrow> [] | Some b \<Rightarrow> [b])] in
        if rows = [] then (Skipped, db)
        else let (err, ix') = b_insert_many B (map (\<lambda>(idx, b). (chunk_lance_key memory_id idx, blob_to_embedding b)) rows) ix
             in (outcome_of err, db\<lparr>chunk_vector_index := Some ix'\<rparr>)))"

definition replay_op :: "backend \<Rightarrow> (int \<Rightarrow> string option) \<Rightarrow> sync_row \<Rightarrow> mem_db \<Rightarrow> replay_outcome \<times> mem_db" where
  "replay_op B embeddings v db = (case vector_index db of
     None \<Rightarrow> (Skipped, db)
   | Some ix \<Rightarrow>
       if v_op v = ''delete'' then
         (let (err, ix') = b_delete B (v_memory_id v) ix in (outcome_of err, db\<lparr>vector_index := Some ix'\<rparr>))
       else if v_op v = ''insert'' then
         (case embeddings (v_memory_id v) of
            Some blob \<Rightarrow>
              (let (err, ix') = b_insert B (v_memory_id v) (blob_to_embedding blob) ix
               in (outcome_of err, db\<lparr>vector_index := Some ix'\<rparr>))
          | None \<Rightarrow> (Skipped, db))
       else if v_op v = ''chunk-insert'' then replay_chunk_insert B (v_memory_id v) db
       else (Skipped, db))"

text \<open>One turn of the loop: the ids to clear, the report, the new attempt of a failed row.\<close>

definition process_one ::
  "backend \<Rightarrow> (int \<Rightarrow> string option) \<Rightarrow> sync_row \<Rightarrow> mem_db \<times> int list \<times> replay_report \<Rightarrow> mem_db \<times> int list \<times> replay_report" where
  "process_one B embeddings v s =
     (let (db, clear, rep) = s; (outcome, db1) = replay_op B embeddings v db;
          rep1 = rep\<lparr>rp_processed := rp_processed rep + 1\<rparr>
      in case outcome of
        Synced \<Rightarrow> (db1, clear @ [v_id v], rep1\<lparr>rp_succeeded := rp_succeeded rep + 1\<rparr>)
      | Skipped \<Rightarrow> (db1, clear @ [v_id v], rep1\<lparr>rp_skipped := rp_skipped rep + 1\<rparr>)
      | Failed e \<Rightarrow> (db1\<lparr>vector_sync_pending := update_where (\<lambda>w. v_id w = v_id v)
            (\<lambda>w. w\<lparr>v_error := e, v_attempts := v_attempts w + 1, v_last_attempt_at := Some (now db1)\<rparr>)
            (vector_sync_pending db1)\<rparr>, clear, rep1\<lparr>rp_failed := rp_failed rep + 1\<rparr>))"

definition process_pending_batch :: "backend \<Rightarrow> sync_row list \<Rightarrow> mem_db \<Rightarrow> replay_report \<times> mem_db" where
  "process_pending_batch B pending db =
     (let embeddings = fetch_embeddings_batch db (map v_memory_id (filter (\<lambda>v. v_op v = ''insert'') pending));
          (db1, clear, rep) = fold (process_one B embeddings) pending (db, [], empty_report)
      in (rep, delete_pending_batch clear db1))"

definition replay_vector_sync_pending :: "backend \<Rightarrow> 64 word \<Rightarrow> mem_db \<Rightarrow> replay_report \<times> mem_db" where
  "replay_vector_sync_pending B limit db = (case vector_index db of
     None \<Rightarrow> (empty_report, db)
   | Some _ \<Rightarrow> process_pending_batch B (sql_limit (usize_as_i64 limit) (trows (vector_sync_pending db))) db)"

definition replay_vector_sync_pending_for_user :: "backend \<Rightarrow> int \<Rightarrow> 64 word \<Rightarrow> mem_db \<Rightarrow> replay_report \<times> mem_db" where
  "replay_vector_sync_pending_for_user B u limit db = replay_vector_sync_pending B limit db"

definition vector_sync_pending_users :: "mem_db \<Rightarrow> int list" where
  "vector_sync_pending_users db = (if trows (vector_sync_pending db) = [] then [] else [0])"

section \<open>Rebuilding\<close>

definition embedded_rows :: "mem_db \<Rightarrow> (int \<times> string) list" where
  "embedded_rows db = [(m_id r, b). r \<leftarrow> select_where (\<lambda>r. \<not> m_is_forgotten r \<and> m_is_latest r) (memories db),
     b \<leftarrow> (case m_embedding r of None \<Rightarrow> [] | Some b \<Rightarrow> [b])]"

fun insert_each :: "backend \<Rightarrow> (int \<times> string) list \<Rightarrow> nat \<Rightarrow> vindex \<Rightarrow> (string + nat) \<times> vindex" where
  "insert_each B [] n ix = (Ok n, ix)"
| "insert_each B ((i, b) # rest) n ix = (case b_insert B i (blob_to_embedding b) ix of
     (Some e, ix') \<Rightarrow> (Err e, ix') | (None, ix') \<Rightarrow> insert_each B rest (Suc n) ix')"

definition build_lance_index_from_existing :: "backend \<Rightarrow> mem_db \<Rightarrow> (string + nat) \<times> mem_db" where
  "build_lance_index_from_existing B db = (case vector_index db of
     None \<Rightarrow> (Ok 0, db)
   | Some ix \<Rightarrow> let (res, ix') = insert_each B (embedded_rows db) 0 ix in (res, db\<lparr>vector_index := Some ix'\<rparr>))"

text \<open>The join of the chunks with their live memories, in batches of 64.\<close>

definition embedded_chunks :: "mem_db \<Rightarrow> (int \<times> embedding) list" where
  "embedded_chunks db = [(chunk_lance_key (c_memory_id c) (c_chunk_idx c), blob_to_embedding b).
     c \<leftarrow> trows (memory_chunks db),
     m \<leftarrow> select_where (\<lambda>m. m_id m = c_memory_id c \<and> \<not> m_is_forgotten m \<and> m_is_latest m) (memories db),
     b \<leftarrow> (case c_embedding c of None \<Rightarrow> [] | Some b \<Rightarrow> [b])]"

fun insert_batches :: "backend \<Rightarrow> (int \<times> embedding) list \<Rightarrow> (int \<times> embedding) list \<Rightarrow> nat \<Rightarrow> vindex \<Rightarrow> (string + nat) \<times> vindex" where
  "insert_batches B batch [] n ix =
     (if batch = [] then (Ok n, ix)
      else case b_insert_many B batch ix of (Some e, ix') \<Rightarrow> (Err e, ix') | (None, ix') \<Rightarrow> (Ok (n + length batch), ix'))"
| "insert_batches B batch (kv # rest) n ix =
     (let batch' = batch @ [kv] in
      if 64 \<le> length batch'
      then (case b_insert_many B batch' ix of
              (Some e, ix') \<Rightarrow> (Err e, ix') | (None, ix') \<Rightarrow> insert_batches B [] rest (n + length batch') ix')
      else insert_batches B batch' rest n ix)"

definition build_lance_chunk_index_from_existing :: "backend \<Rightarrow> mem_db \<Rightarrow> (string + nat) \<times> mem_db" where
  "build_lance_chunk_index_from_existing B db = (case chunk_vector_index db of
     None \<Rightarrow> (Ok 0, db)
   | Some ix \<Rightarrow> let (res, ix') = insert_batches B [] (embedded_chunks db) 0 ix
       in (res, db\<lparr>chunk_vector_index := Some ix'\<rparr>))"

section \<open>Backfill\<close>

text \<open>
  The embedding provider, and the chunk settings the database handle carries. Chunking a text does not panic
  (\<open>chunk_text_windows\<close>), so the branch for it is never taken.
\<close>

record embedder =
  embed :: "string \<Rightarrow> embedding result"
  embed_batch :: "string list \<Rightarrow> embedding list result"
  chunk_max_chars :: nat
  chunk_overlap :: nat
  chunk_max_chunks :: nat

definition chunk_and_embed :: "embedder \<Rightarrow> string \<Rightarrow> (string \<times> embedding) list result" where
  "chunk_and_embed M content =
     (case chunk_text_with_limit content (chunk_max_chars M) (chunk_overlap M) (chunk_max_chunks M) of
        None \<Rightarrow> Ok []
      | Some chunks \<Rightarrow>
          if chunks = [] then Ok []
          else case embed_batch M chunks of Err e \<Rightarrow> Err e | Ok es \<Rightarrow> Ok (zip chunks es))"

record backfill_report =
  bf_scanned :: nat
  bf_primary :: nat
  bf_chunks :: nat
  bf_failures :: nat

text \<open>SQLite's \<^verbatim>\<open>TRIM\<close> removes spaces.\<close>

definition has_content :: "string \<Rightarrow> bool" where
  "has_content s \<longleftrightarrow> dropWhile (\<lambda>c. c = CHR '' '') s \<noteq> []"

definition lacks_chunks :: "mem_db \<Rightarrow> memory \<Rightarrow> bool" where
  "lacks_chunks db r \<longleftrightarrow> (\<forall>c\<in>set (trows (memory_chunks db)). c_memory_id c \<noteq> m_id r)"

definition backfill_candidates :: "mem_db \<Rightarrow> 64 word option \<Rightarrow> (int \<times> string \<times> bool \<times> bool) list" where
  "backfill_candidates db limit =
     sql_limit (case limit of None \<Rightarrow> i64_max | Some n \<Rightarrow> usize_as_i64 n)
       (map (\<lambda>r. (m_id r, m_content r, m_embedding r = None, lacks_chunks db r))
         (rev (select_where (\<lambda>r. \<not> m_is_forgotten r \<and> m_is_latest r \<and> has_content (m_content r)
            \<and> (m_embedding r = None \<or> lacks_chunks db r)) (memories db))))"

text \<open>A failed batch is only logged.\<close>

definition flush_primary_batch :: "backend \<Rightarrow> (int \<times> embedding) list \<Rightarrow> mem_db \<Rightarrow> mem_db" where
  "flush_primary_batch B batch db =
     (if batch = [] then db else case vector_index db of
        None \<Rightarrow> db | Some ix \<Rightarrow> db\<lparr>vector_index := Some (snd (b_insert_many B batch ix))\<rparr>)"

definition persist_primary_db_only :: "int \<Rightarrow> embedding \<Rightarrow> mem_db \<Rightarrow> mem_db" where
  "persist_primary_db_only i e db = upd_memories (\<lambda>r. m_id r = i) (\<lambda>r. r\<lparr>m_embedding := Some (embedding_to_blob e)\<rparr>) db"

definition backfill_primary ::
  "embedder \<Rightarrow> backend \<Rightarrow> int \<Rightarrow> string \<Rightarrow> mem_db \<times> (int \<times> embedding) list \<times> backfill_report
     \<Rightarrow> mem_db \<times> (int \<times> embedding) list \<times> backfill_report" where
  "backfill_primary M B i content s =
     (let (db, batch, rep) = s;
          (db1, batch1, rep1) = (case embed M content of
             Ok e \<Rightarrow> (persist_primary_db_only i e db, batch @ [(i, e)], rep\<lparr>bf_primary := bf_primary rep + 1\<rparr>)
           | Err _ \<Rightarrow> (db, batch, rep\<lparr>bf_failures := bf_failures rep + 1\<rparr>))
      in if 32 \<le> length batch1 then (flush_primary_batch B batch1 db1, [], rep1) else (db1, batch1, rep1))"

definition backfill_chunks ::
  "embedder \<Rightarrow> backend \<Rightarrow> int \<Rightarrow> string \<Rightarrow> mem_db \<times> (int \<times> embedding) list \<times> backfill_report
     \<Rightarrow> mem_db \<times> (int \<times> embedding) list \<times> backfill_report" where
  "backfill_chunks M B i content s =
     (let (db, batch, rep) = s in
      case chunk_and_embed M content of
        Ok pairs \<Rightarrow> if pairs = [] then (db, batch, rep)
          else (write_chunks B i pairs db, batch, rep\<lparr>bf_chunks := bf_chunks rep + length pairs\<rparr>)
      | Err _ \<Rightarrow> (db, batch, rep\<lparr>bf_failures := bf_failures rep + 1\<rparr>))"

definition backfill_one ::
  "embedder \<Rightarrow> backend \<Rightarrow> int \<times> string \<times> bool \<times> bool \<Rightarrow> mem_db \<times> (int \<times> embedding) list \<times> backfill_report
     \<Rightarrow> mem_db \<times> (int \<times> embedding) list \<times> backfill_report" where
  "backfill_one M B cand s =
     (let (i, content, need_primary, need_chunks) = cand;
          s1 = (if need_primary then backfill_primary M B i content s else s)
      in if need_chunks then backfill_chunks M B i content s1 else s1)"

definition backfill_missing_embeddings_limited :: "embedder \<Rightarrow> backend \<Rightarrow> 64 word option \<Rightarrow> mem_db \<Rightarrow> backfill_report \<times> mem_db" where
  "backfill_missing_embeddings_limited M B limit db =
     (let cands = backfill_candidates db limit;
          start = \<lparr>bf_scanned = length cands, bf_primary = 0, bf_chunks = 0, bf_failures = 0\<rparr>;
          (db1, batch, rep) = fold (backfill_one M B) cands (db, [], start)
      in (rep, flush_primary_batch B batch db1))"

definition backfill_missing_embeddings :: "embedder \<Rightarrow> backend \<Rightarrow> mem_db \<Rightarrow> backfill_report \<times> mem_db" where
  "backfill_missing_embeddings M B db = backfill_missing_embeddings_limited M B None db"

text \<open>\<^verbatim>\<open>store_with_chunks\<close> and \<^verbatim>\<open>update_with_chunks\<close>: embeddings the caller did not give are computed; a failure
  leaves them out.\<close>

definition ok_option :: "'a result \<Rightarrow> 'a option" where
  "ok_option r = (case r of Ok v \<Rightarrow> Some v | Err _ \<Rightarrow> None)"

definition computed_chunks :: "embedder \<Rightarrow> string \<Rightarrow> (string \<times> embedding) list option" where
  "computed_chunks M content = (case chunk_and_embed M content of
     Ok pairs \<Rightarrow> if pairs = [] then None else Some pairs | Err _ \<Rightarrow> None)"

definition or_else_compute :: "'a option \<Rightarrow> 'a option \<Rightarrow> 'a option" where
  "or_else_compute given computed = (case given of None \<Rightarrow> computed | Some v \<Rightarrow> Some v)"

definition store_with_chunks :: "mem_env \<Rightarrow> backend \<Rightarrow> embedder \<Rightarrow> store_request \<Rightarrow> mem_db \<Rightarrow> store_result result \<times> mem_db" where
  "store_with_chunks E B M req db =
     store E B (req\<lparr>sr_embedding := or_else_compute (sr_embedding req) (ok_option (embed M (sr_content req))),
       sr_chunk_embeddings := or_else_compute (sr_chunk_embeddings req) (computed_chunks M (sr_content req))\<rparr>) None False db"

definition update_with_chunks ::
  "mem_env \<Rightarrow> backend \<Rightarrow> embedder \<Rightarrow> int \<Rightarrow> update_request \<Rightarrow> int \<Rightarrow> bool \<Rightarrow> mem_db \<Rightarrow> memory result \<times> mem_db" where
  "update_with_chunks E B M i req u counters db =
     (let req' = (case ur_content req of
            None \<Rightarrow> req
          | Some c \<Rightarrow> (let content = str_trim (me_unicode E) c in
              if content = [] then req
              else req\<lparr>ur_embedding := or_else_compute (ur_embedding req) (ok_option (embed M content)),
                ur_chunk_embeddings := or_else_compute (ur_chunk_embeddings req) (computed_chunks M content)\<rparr>))
      in update_memory E B i req' u counters db)"

end
