(* ===== verification/Memory_Chains.thy ===== *)
theory Memory_Chains
  imports Memory_Vectors
begin

text \<open>
  Version chains. The lineage of a row is what places it in a chain; most operations leave all lineages as they
  are, a store or an update adds one, a purge removes some. The calls of the store are the steps of a machine in
  which other calls may come between the read and the write of an update. In every state it reaches a chain is a
  line: versions are numbered from one without gaps and only the last is the latest.
\<close>

section \<open>What operations leave alone\<close>

named_theorems mem_frame \<open>parts of the database an operation does not touch\<close>

lemma frame_record [mem_frame]:
  "memories (record_vector_sync_failure i op e db) = memories db"
  "vector_index (record_vector_sync_failure i op e db) = vector_index db"
  "now (record_vector_sync_failure i op e db) = now db"
  by (simp_all add: record_vector_sync_failure_def)

lemma frame_ledger [mem_frame]:
  "memories (ledger i op err db) = memories db" "vector_index (ledger i op err db) = vector_index db"
  by (simp_all add: ledger_def mem_frame split: option.split)

lemma frame_pagerank [mem_frame]:
  "memories (mark_pagerank_dirty d db) = memories db" "vector_index (mark_pagerank_dirty d db) = vector_index db"
  "vector_sync_pending (mark_pagerank_dirty d db) = vector_sync_pending db"
  by (simp_all add: mark_pagerank_dirty_def)

lemma frame_index [mem_frame]:
  "memories (index_insert B i e db) = memories db" "memories (index_delete B i db) = memories db"
  by (simp_all add: index_insert_def index_delete_def mem_frame split: option.split prod.split)

lemma frame_chunk_index [mem_frame]:
  "memories (chunk_index_insert_many B i kvs db) = memories db"
  "vector_index (chunk_index_insert_many B i kvs db) = vector_index db"
  "memories (chunk_index_delete B k db) = memories db" "vector_index (chunk_index_delete B k db) = vector_index db"
  "vector_sync_pending (chunk_index_delete B k db) = vector_sync_pending db"
  by (simp_all add: chunk_index_insert_many_def chunk_index_delete_def mem_frame split: option.split prod.split)

lemma frame_write_chunks [mem_frame]:
  "memories (write_chunks B i cs db) = memories db" "vector_index (write_chunks B i cs db) = vector_index db"
  by (simp_all add: write_chunks_def Let_def mem_frame)

lemma frame_fold_chunk_delete:
  "memories (fold (\<lambda>c. chunk_index_delete B (key c)) cs db) = memories db"
  "vector_index (fold (\<lambda>c. chunk_index_delete B (key c)) cs db) = vector_index db"
  "vector_sync_pending (fold (\<lambda>c. chunk_index_delete B (key c)) cs db) = vector_sync_pending db"
  by (induction cs arbitrary: db) (simp_all add: mem_frame)

lemma frame_fold_chunk_delete2:
  "memories (fold (\<lambda>(idx, e). chunk_index_delete B (key idx)) cs db) = memories db"
  "vector_index (fold (\<lambda>(idx, e). chunk_index_delete B (key idx)) cs db) = vector_index db"
  "vector_sync_pending (fold (\<lambda>(idx, e). chunk_index_delete B (key idx)) cs db) = vector_sync_pending db"
  by (induction cs arbitrary: db) (auto simp: mem_frame)

lemma frame_delete_chunk_vectors [mem_frame]:
  "memories (delete_chunk_vectors B i db) = memories db" "vector_index (delete_chunk_vectors B i db) = vector_index db"
  "vector_sync_pending (delete_chunk_vectors B i db) = vector_sync_pending db"
  by (simp_all add: delete_chunk_vectors_def frame_fold_chunk_delete)

lemma frame_copy_chunks:
  "copy_chunks a b db = Some db' \<Longrightarrow> memories db' = memories db \<and> vector_index db' = vector_index db
     \<and> vector_sync_pending db' = vector_sync_pending db"
  by (auto simp: copy_chunks_def Let_def split: if_splits)

lemma frame_carry [mem_frame]:
  "memories (carry_forward_chunks B a b db) = memories db" "vector_index (carry_forward_chunks B a b db) = vector_index db"
  by (auto simp: carry_forward_chunks_def Let_def mem_frame frame_fold_chunk_delete2
      split: option.split dest!: frame_copy_chunks)

lemma frame_swap [mem_frame]: "memories (swap_vectors B p i db) = memories db"
  by (simp add: swap_vectors_def mem_frame split: option.split prod.split)

lemma frame_after_update [mem_frame]: "memories (after_update B p i db) = memories db"
  by (simp add: after_update_def Let_def mem_frame split: option.split)

lemma frame_replay_op [mem_frame]:
  "memories (snd (replay_op B em v db)) = memories db"
  "vector_sync_pending (snd (replay_op B em v db)) = vector_sync_pending db"
  by (simp_all add: replay_op_def replay_chunk_insert_def Let_def case_prod_beta split: option.split)

lemma frame_process_one: "memories (fst (process_one B em v s)) = memories (fst s)"
  using frame_replay_op [of B em v "fst s"]
  by (auto simp: process_one_def Let_def split: prod.split replay_outcome.split)

lemma frame_process_fold: "memories (fst (fold (process_one B em) vs s)) = memories (fst s)"
  by (induction vs arbitrary: s) (simp_all add: frame_process_one)

lemma frame_replay [mem_frame]: "memories (snd (replay_vector_sync_pending B l db)) = memories db"
proof -
  have "memories (fst (fold (process_one B em) vs (db, [], empty_report))) = memories db" for em vs
    using frame_process_fold [of B em vs "(db, [], empty_report)"] by simp
  then show ?thesis
    by (auto simp: replay_vector_sync_pending_def process_pending_batch_def Let_def delete_pending_batch_def
        split: option.split prod.split) (metis fst_conv)+
qed

lemma frame_flush [mem_frame]: "memories (flush_primary_batch B batch db) = memories db"
  by (simp add: flush_primary_batch_def split: option.split)

lemma frame_builds [mem_frame]:
  "memories (snd (build_lance_index_from_existing B db)) = memories db"
  "memories (snd (build_lance_chunk_index_from_existing B db)) = memories db"
  by (simp_all add: build_lance_index_from_existing_def build_lance_chunk_index_from_existing_def case_prod_beta
      split: option.split)

section \<open>Lineages\<close>

record lineage =
  g_id :: int
  g_version :: int
  g_root :: int
  g_parent :: "int option"
  g_user :: int
  g_latest :: bool

definition lineage_of :: "memory \<Rightarrow> lineage" where
  "lineage_of r = \<lparr>g_id = m_id r, g_version = m_version r, g_root = or_old (m_root_memory_id r) (m_id r),
     g_parent = m_parent_memory_id r, g_user = m_user_id r, g_latest = m_is_latest r\<rparr>"

definition lins :: "mem_db \<Rightarrow> lineage list" where
  "lins db = map lineage_of (trows (memories db))"

definition mseq :: "mem_db \<Rightarrow> int" where
  "mseq db = tseq (memories db)"

lemma lins_memories: "memories db' = memories db \<Longrightarrow> lins db' = lins db \<and> mseq db' = mseq db"
  by (simp add: lins_def mseq_def)

lemma lins_frame [simp]:
  "lins (mark_pagerank_dirty d db) = lins db" "lins (index_delete B i db) = lins db"
  "lins (delete_chunk_vectors B i db) = lins db" "lins (record_vector_sync_failure i op e db) = lins db"
  "lins (after_update B p i db) = lins db"
  "mseq (mark_pagerank_dirty d db) = mseq db" "mseq (index_delete B i db) = mseq db"
  "mseq (delete_chunk_vectors B i db) = mseq db" "mseq (record_vector_sync_failure i op e db) = mseq db"
  "mseq (after_update B p i db) = mseq db"
  by (simp_all add: lins_def mseq_def mem_frame)

text \<open>An update of columns that are not part of the lineage.\<close>

lemma lins_upd [simp]:
  "(\<And>r. P r \<Longrightarrow> lineage_of (f r) = lineage_of r) \<Longrightarrow> lins (upd_memories P f db) = lins db"
  "mseq (upd_memories P f db) = mseq db"
  by (simp_all add: lins_def mseq_def upd_memories_def table_simps)

section \<open>Changes\<close>

inductive lin_change :: "lineage list \<times> int \<Rightarrow> lineage list \<times> int \<Rightarrow> bool" where
  same: "lin_change (ls, n) (ls, n)"
| fresh: "g_id g = n + 1 \<Longrightarrow> g_version g = 1 \<Longrightarrow> g_root g = n + 1 \<Longrightarrow> g_parent g = None \<Longrightarrow>
    lin_change (ls, n) (ls @ [g], n + 1)"
| extend: "q \<in> set ls \<Longrightarrow> g_latest q \<Longrightarrow> g_id g = n + 1 \<Longrightarrow> g_version g = g_version q + 1 \<Longrightarrow>
    g_root g = g_root q \<Longrightarrow> g_parent g = Some (g_id q) \<Longrightarrow> g_user g = g_user q \<Longrightarrow>
    lin_change (ls, n) (map (\<lambda>h. if g_id h = g_id q then h\<lparr>g_latest := False\<rparr> else h) ls @ [g], n + 1)"
| purge: "\<forall>h\<in>set ls. \<forall>p\<in>set ls. Q h \<and> g_parent h = Some (g_id p) \<longrightarrow> Q p \<Longrightarrow> lin_change (ls, n) (filter Q ls, n)"

definition chain_inv :: "lineage list \<times> int \<Rightarrow> bool" where
  "chain_inv s \<longleftrightarrow> (case s of (ls, n) \<Rightarrow>
     sorted_wrt (<) (map g_id ls) \<and> (\<forall>g\<in>set ls. 0 < g_id g \<and> g_id g \<le> n \<and> g_root g \<le> g_id g \<and> 1 \<le> g_version g) \<and> 0 \<le> n
   \<and> (\<forall>g\<in>set ls. \<forall>h\<in>set ls. g_root g = g_root h \<longrightarrow>
        (g_version g = g_version h \<longrightarrow> g = h) \<and> g_user g = g_user h \<and> (g_latest g \<longrightarrow> g_version h \<le> g_version g))
   \<and> (\<forall>g\<in>set ls. \<forall>h\<in>set ls. g_id h = g_root g \<longrightarrow> g_root h = g_id h)
   \<and> (\<forall>g\<in>set ls. case g_parent g of None \<Rightarrow> g_version g = 1
        | Some p \<Rightarrow> \<exists>q\<in>set ls. g_id q = p \<and> g_version g = g_version q + 1 \<and> g_root q = g_root g))"

lemma chain_inv_old:
  "chain_inv (ls, n) \<Longrightarrow> g \<in> set ls \<Longrightarrow> 0 < g_id g \<and> g_id g \<le> n \<and> g_root g \<le> g_id g \<and> 1 \<le> g_version g"
  unfolding chain_inv_def prod.case by blast

lemma chain_inv_sorted: "chain_inv (ls, n) \<Longrightarrow> sorted_wrt (<) (map g_id ls) \<and> 0 \<le> n"
  unfolding chain_inv_def prod.case by blast

lemma chain_inv_pair:
  "chain_inv (ls, n) \<Longrightarrow> g \<in> set ls \<Longrightarrow> h \<in> set ls \<Longrightarrow> g_root g = g_root h \<Longrightarrow>
     (g_version g = g_version h \<longrightarrow> g = h) \<and> g_user g = g_user h \<and> (g_latest g \<longrightarrow> g_version h \<le> g_version g)"
  unfolding chain_inv_def prod.case by blast

lemma chain_inv_root:
  "chain_inv (ls, n) \<Longrightarrow> g \<in> set ls \<Longrightarrow> h \<in> set ls \<Longrightarrow> g_id h = g_root g \<Longrightarrow> g_root h = g_id h"
  unfolding chain_inv_def prod.case by blast

lemma chain_inv_case:
  "chain_inv (ls, n) \<Longrightarrow> g \<in> set ls \<Longrightarrow> case g_parent g of None \<Rightarrow> g_version g = 1
     | Some p \<Rightarrow> \<exists>q\<in>set ls. g_id q = p \<and> g_version g = g_version q + 1 \<and> g_root q = g_root g"
  unfolding chain_inv_def prod.case by blast

lemma chain_inv_orphan: "chain_inv (ls, n) \<Longrightarrow> g \<in> set ls \<Longrightarrow> g_parent g = None \<Longrightarrow> g_version g = 1"
  by (drule (1) chain_inv_case) simp

lemma chain_inv_parent:
  assumes "chain_inv (ls, n)" "g \<in> set ls" "g_parent g = Some p"
  obtains q where "q \<in> set ls" "g_id q = p" "g_version g = g_version q + 1" "g_root q = g_root g"
  using chain_inv_case [OF assms(1,2)] assms(3) that by auto

lemma chain_invI:
  assumes "sorted_wrt (<) (map g_id ls)" "0 \<le> n"
    and "\<And>g. g \<in> set ls \<Longrightarrow> 0 < g_id g \<and> g_id g \<le> n \<and> g_root g \<le> g_id g \<and> 1 \<le> g_version g"
    and "\<And>g h. g \<in> set ls \<Longrightarrow> h \<in> set ls \<Longrightarrow> g_root g = g_root h \<Longrightarrow>
      (g_version g = g_version h \<longrightarrow> g = h) \<and> g_user g = g_user h \<and> (g_latest g \<longrightarrow> g_version h \<le> g_version g)"
    and "\<And>g h. g \<in> set ls \<Longrightarrow> h \<in> set ls \<Longrightarrow> g_id h = g_root g \<Longrightarrow> g_root h = g_id h"
    and "\<And>g. g \<in> set ls \<Longrightarrow> g_parent g = None \<Longrightarrow> g_version g = 1"
    and "\<And>g p. g \<in> set ls \<Longrightarrow> g_parent g = Some p \<Longrightarrow>
      \<exists>q\<in>set ls. g_id q = p \<and> g_version g = g_version q + 1 \<and> g_root q = g_root g"
  shows "chain_inv (ls, n)"
  unfolding chain_inv_def prod.case
proof (intro conjI ballI)
  show "case g_parent g of None \<Rightarrow> g_version g = 1
      | Some p \<Rightarrow> \<exists>q\<in>set ls. g_id q = p \<and> g_version g = g_version q + 1 \<and> g_root q = g_root g"
    if "g \<in> set ls" for g using assms(6,7) [OF that] by (simp split: option.split)
qed (use assms(1-5) in blast)+

lemma chain_inv_same_id:
  assumes "chain_inv (ls, n)" "g \<in> set ls" "h \<in> set ls" "g_id g = g_id h"
  shows "g = h"
proof -
  have "distinct (map g_id ls)" using chain_inv_sorted [OF assms(1)] by (simp add: strict_sorted_iff)
  with assms show ?thesis by (simp add: distinct_map_eq [of g_id ls])
qed

lemma chain_inv_fresh:
  assumes inv: "chain_inv (ls, n)" and g: "g_id g = n + 1" "g_version g = 1" "g_root g = n + 1" "g_parent g = None"
  shows "chain_inv (ls @ [g], n + 1)"
proof (rule chain_invI)
  note old = chain_inv_old [OF inv]
  have n: "sorted_wrt (<) (map g_id ls)" "0 \<le> n" using chain_inv_sorted [OF inv] by auto
  show "sorted_wrt (<) (map g_id (ls @ [g]))" "0 \<le> n + 1" using n old g by (force simp: sorted_wrt_append)+
  show "0 < g_id x \<and> g_id x \<le> n + 1 \<and> g_root x \<le> g_id x \<and> 1 \<le> g_version x" if "x \<in> set (ls @ [g])" for x
    using that old [of x] g n by auto
  show "(g_version x = g_version y \<longrightarrow> x = y) \<and> g_user x = g_user y \<and> (g_latest x \<longrightarrow> g_version y \<le> g_version x)"
    if "x \<in> set (ls @ [g])" "y \<in> set (ls @ [g])" "g_root x = g_root y" for x y
  proof -
    have fresh: "g_root z \<noteq> n + 1" if "z \<in> set ls" for z using old [OF that] by simp
    have "x = g \<and> y = g \<or> x \<in> set ls \<and> y \<in> set ls"
      using that g(3) fresh [of x] fresh [of y] by auto
    then show ?thesis using chain_inv_pair [OF inv _ _ that(3)] by blast
  qed
  show "g_root y = g_id y" if "x \<in> set (ls @ [g])" "y \<in> set (ls @ [g])" "g_id y = g_root x" for x y
    using that old [of x] old [of y] g chain_inv_root [OF inv, of x y] by auto
  show "g_version x = 1" if "x \<in> set (ls @ [g])" "g_parent x = None" for x
    using that g chain_inv_orphan [OF inv, of x] by auto
  show "\<exists>q\<in>set (ls @ [g]). g_id q = p \<and> g_version x = g_version q + 1 \<and> g_root q = g_root x"
    if "x \<in> set (ls @ [g])" "g_parent x = Some p" for x p
  proof -
    have "x \<in> set ls" using that g(4) by auto
    then show ?thesis using that(2) by (rule chain_inv_parent [OF inv]) auto
  qed
qed

lemma chain_inv_purge:
  assumes inv: "chain_inv (ls, n)" and fk: "\<forall>h\<in>set ls. \<forall>p\<in>set ls. Q h \<and> g_parent h = Some (g_id p) \<longrightarrow> Q p"
  shows "chain_inv (filter Q ls, n)"
proof (rule chain_invI)
  show "sorted_wrt (<) (map g_id (filter Q ls))" "0 \<le> n"
    using chain_inv_sorted [OF inv] by (simp_all add: sorted_wrt_map sorted_wrt_filter)
  show "\<exists>q\<in>set (filter Q ls). g_id q = p \<and> g_version g = g_version q + 1 \<and> g_root q = g_root g"
    if a: "g \<in> set (filter Q ls)" "g_parent g = Some p" for g p
  proof -
    have "g \<in> set ls" "Q g" using a(1) by auto
    obtain q where q: "q \<in> set ls" "g_id q = p" "g_version g = g_version q + 1" "g_root q = g_root g"
      using \<open>g \<in> set ls\<close> a(2) by (rule chain_inv_parent [OF inv])
    have "Q q" using fk [rule_format, OF \<open>g \<in> set ls\<close> q(1)] \<open>Q g\<close> a(2) q(2) by simp
    then show ?thesis using q by (intro bexI [of _ q]) simp_all
  qed
  show "g_version g = 1" if "g \<in> set (filter Q ls)" "g_parent g = None" for g
    using that chain_inv_orphan [OF inv, of g] by simp
  show "(g_version g = g_version h \<longrightarrow> g = h) \<and> g_user g = g_user h \<and> (g_latest g \<longrightarrow> g_version h \<le> g_version g)"
    if "g \<in> set (filter Q ls)" "h \<in> set (filter Q ls)" "g_root g = g_root h" for g h
    using that chain_inv_pair [OF inv, of g h] by simp
  show "g_root h = g_id h" if "g \<in> set (filter Q ls)" "h \<in> set (filter Q ls)" "g_id h = g_root g" for g h
    using that chain_inv_root [OF inv, of g h] by simp
  show "0 < g_id g \<and> g_id g \<le> n \<and> g_root g \<le> g_id g \<and> 1 \<le> g_version g" if "g \<in> set (filter Q ls)" for g
    using that chain_inv_old [OF inv, of g] by simp
qed

lemma chain_inv_extend:
  assumes inv: "chain_inv (ls, n)" and q: "q \<in> set ls" "g_latest q"
    and g: "g_id g = n + 1" "g_version g = g_version q + 1" "g_root g = g_root q" "g_parent g = Some (g_id q)" "g_user g = g_user q"
  shows "chain_inv (map (\<lambda>h. if g_id h = g_id q then h\<lparr>g_latest := False\<rparr> else h) ls @ [g], n + 1)"
proof -
  let ?d = "\<lambda>h. if g_id h = g_id q then h\<lparr>g_latest := False\<rparr> else h"
  have d: "g_id (?d h) = g_id h" "g_version (?d h) = g_version h" "g_root (?d h) = g_root h"
    "g_parent (?d h) = g_parent h" "g_user (?d h) = g_user h" "g_latest (?d h) \<longleftrightarrow> g_latest h \<and> g_id h \<noteq> g_id q" for h
    by auto
  note old = chain_inv_old [OF inv]
  have n: "sorted_wrt (<) (map g_id ls)" "0 \<le> n" using chain_inv_sorted [OF inv] by auto
  have top: "g_version h \<le> g_version q" if "h \<in> set ls" "g_root h = g_root q" for h
    using chain_inv_pair [OF inv q(1) that(1)] that(2) q(2) by simp
  have only: "h = q" if "h \<in> set ls" "g_root h = g_root q" "g_latest h" for h
    using chain_inv_pair [OF inv that(1) q(1) that(2)] top [OF that(1,2)] that(3) by simp
  have mem: "x \<in> set (map ?d ls @ [g]) \<longleftrightarrow> x = g \<or> (\<exists>h\<in>set ls. x = ?d h)" for x by auto
  show ?thesis
  proof (rule chain_invI)
    have "map g_id (map ?d ls) = map g_id ls" by (simp add: d)
    moreover have "\<forall>x\<in>set (map g_id ls). x < g_id g" using old g(1) by force
    ultimately show "sorted_wrt (<) (map g_id (map ?d ls @ [g]))"
      using n by (simp only: map_append sorted_wrt_append) simp
    show "0 \<le> n + 1" using n by simp
    show "0 < g_id x \<and> g_id x \<le> n + 1 \<and> g_root x \<le> g_id x \<and> 1 \<le> g_version x" if "x \<in> set (map ?d ls @ [g])" for x
      using that old old [OF q(1)] g(1,2,3) n unfolding mem by (auto simp only: d) fastforce+
    show "(g_version x = g_version y \<longrightarrow> x = y) \<and> g_user x = g_user y \<and> (g_latest x \<longrightarrow> g_version y \<le> g_version x)"
      if xy: "x \<in> set (map ?d ls @ [g])" "y \<in> set (map ?d ls @ [g])" "g_root x = g_root y" for x y
    proof -
      consider (oo) h k where "h \<in> set ls" "k \<in> set ls" "x = ?d h" "y = ?d k" | (on) h where "h \<in> set ls" "x = ?d h" "y = g"
        | (no) k where "k \<in> set ls" "x = g" "y = ?d k" | (nn) "x = g" "y = g"
        using xy unfolding mem by blast
      then show ?thesis
      proof cases
        case oo
        have "g_root h = g_root k" using xy(3) unfolding oo(3,4) d .
        from chain_inv_pair [OF inv oo(1,2) this] show ?thesis unfolding oo(3,4) d by blast
      next
        case on
        then have r: "g_root h = g_root q" using xy(3) g(3) unfolding on(2,3) d by simp
        then show ?thesis
          using top [OF on(1) r] only [OF on(1) r] chain_inv_pair [OF inv on(1) q(1) r] g unfolding on(2,3) d by auto
      next
        case no
        then have r: "g_root k = g_root q" using xy(3) g(3) unfolding no(2,3) d by simp
        then show ?thesis
          using top [OF no(1) r] chain_inv_pair [OF inv no(1) q(1) r] g unfolding no(2,3) d by auto
      qed simp
    qed
    show "g_root y = g_id y" if a: "x \<in> set (map ?d ls @ [g])" "y \<in> set (map ?d ls @ [g])" "g_id y = g_root x" for x y
    proof -
      have "\<exists>h\<in>set ls. g_root x = g_root h"
      proof (cases "x = g")
        case True
        then show ?thesis using q(1) g(3) by auto
      next
        case False
        then obtain h where "h \<in> set ls" "x = ?d h" using a(1) unfolding mem by blast
        then show ?thesis by (intro bexI [of _ h]) (simp_all only: d)
      qed
      then obtain h where h: "h \<in> set ls" "g_root x = g_root h" by blast
      then have "g_id y \<noteq> g_id g" using a(3) old [OF h(1)] g(1) by simp
      then obtain k where k: "k \<in> set ls" "y = ?d k" using a(2) unfolding mem by blast
      then show ?thesis using chain_inv_root [OF inv h(1) k(1)] a(3) h(2) unfolding k(2) d by simp
    qed
    show "g_version x = 1" if a: "x \<in> set (map ?d ls @ [g])" "g_parent x = None" for x
    proof -
      obtain h where h: "h \<in> set ls" "x = ?d h" using a g(4) unfolding mem by force
      then have "g_parent h = None" using a(2) unfolding h(2) d by simp
      then show ?thesis using chain_inv_orphan [OF inv h(1)] unfolding h(2) d by simp
    qed
    have up: "\<exists>r\<in>set (map ?d ls @ [g]). g_id r = g_id k \<and> g_version r = g_version k \<and> g_root r = g_root k"
      if "k \<in> set ls" for k using that d unfolding mem by (intro bexI [of _ "?d k"]) auto
    show "\<exists>r\<in>set (map ?d ls @ [g]). g_id r = p \<and> g_version x = g_version r + 1 \<and> g_root r = g_root x"
      if x: "x \<in> set (map ?d ls @ [g])" "g_parent x = Some p" for x p
    proof (cases "x = g")
      case True
      obtain r where "r \<in> set (map ?d ls @ [g])" "g_id r = g_id q \<and> g_version r = g_version q \<and> g_root r = g_root q"
        using up [OF q(1)] by blast
      then show ?thesis using g x(2) True by (intro bexI [of _ r]) simp_all
    next
      case False
      then obtain h where h: "h \<in> set ls" "x = ?d h" using x(1) unfolding mem by blast
      then have "g_parent h = Some p" using x(2) unfolding h(2) d by simp
      then obtain k where k: "k \<in> set ls" "g_id k = p" "g_version h = g_version k + 1" "g_root k = g_root h"
        by (rule chain_inv_parent [OF inv h(1)])
      obtain r where "r \<in> set (map ?d ls @ [g])" "g_id r = g_id k \<and> g_version r = g_version k \<and> g_root r = g_root k"
        using up [OF k(1)] by blast
      then show ?thesis using k unfolding h(2) d by (intro bexI [of _ r]) simp_all
    qed
  qed
qed

lemma lin_change_keeps: "lin_change s t \<Longrightarrow> chain_inv s \<Longrightarrow> chain_inv t"
  by (induction rule: lin_change.induct) (auto intro: chain_inv_fresh chain_inv_extend chain_inv_purge)

end
