(* ===== verification/Memory_Machine.thy ===== *)
theory Memory_Machine
  imports Memory_Chains
begin

text \<open>
  The memory store as a state machine. A state is the database and the updates that have read their row and not
  yet written; the steps are the calls of \<^verbatim>\<open>memory/mod.rs\<close>, \<^verbatim>\<open>memory/vector_sync.rs\<close> and \<^verbatim>\<open>inbox.rs\<close> with any
  arguments and any behaviour of the index backend, and the passing of time.
\<close>

section \<open>Steps\<close>

record mem_sys =
  sys_db :: mem_db
  sys_plans :: "update_plan list"

text \<open>The calls that run from start to end, as functions on the database.\<close>

inductive mem_call :: "mem_env \<Rightarrow> mem_db \<Rightarrow> mem_db \<Rightarrow> bool" for E :: mem_env where
  store_call: "mem_call E db (snd (store E B req quota ro db))"
| get_call: "mem_call E db (snd (get_memory i u db))"
| delete_call: "mem_call E db (snd (delete_memory B i u db))"
| restore_call: "mem_call E db (snd (restore i u db))"
| purge_call: "mem_call E db (snd (purge_trashed E days counters db))"
| forget_call: "mem_call E db (snd (mark_forgotten B i u db))"
| archive_call: "mem_call E db (snd (set_archived b i u db))"
| reason_call: "mem_call E db (snd (update_forget_reason i reason u db))"
| importance_call: "mem_call E db (snd (adjust_importance i u d db))"
| link_call: "mem_call E db (snd (insert_link E s t sim ty u db))"
| count_call: "mem_call E db (snd (update_source_count i n u db))"
| tags_call: "mem_call E db (snd (update_memory_tags E i u tags db))"
| chain_call: "mem_call E db (snd (get_version_chain i u db))"
| approve_call: "mem_call E db (snd (approve_memory i u db))"
| reject_call: "mem_call E db (snd (reject_memory i u db))"
| inbox_reason_call: "mem_call E db (snd (set_forget_reason i u reason db))"
| edit_call: "mem_call E db (snd (edit_and_approve E i u c cat imp tg db))"
| replay_call: "mem_call E db (snd (replay_vector_sync_pending B l db))"
| build_call: "mem_call E db (snd (build_lance_index_from_existing B db))"
| chunk_build_call: "mem_call E db (snd (build_lance_chunk_index_from_existing B db))"
| backfill_call: "mem_call E db (snd (backfill_missing_embeddings_limited M B lim db))"
| time_call: "now db \<le> t \<Longrightarrow> mem_call E db (db\<lparr>now := t\<rparr>)"

inductive mem_step :: "mem_env \<Rightarrow> mem_sys \<Rightarrow> mem_sys \<Rightarrow> bool" for E :: mem_env where
  call: "mem_call E (sys_db s) db \<Longrightarrow> mem_step E s (s\<lparr>sys_db := db\<rparr>)"
| update_begin: "update_read E i req u counters (sys_db s) = Ok p \<Longrightarrow> mem_step E s (s\<lparr>sys_plans := p # sys_plans s\<rparr>)"
| update_end: "p \<in> set (sys_plans s) \<Longrightarrow> mem_step E s
    (s\<lparr>sys_db := snd (update_commit E B p (sys_db s)), sys_plans := remove1 p (sys_plans s)\<rparr>)"

definition no_memories :: "mem_db \<Rightarrow> bool" where
  "no_memories db \<longleftrightarrow> trows (memories db) = [] \<and> 0 \<le> tseq (memories db)"

section \<open>Lineages under the operations\<close>

lemma lineage_keeps [simp]:
  "lineage_of (r\<lparr>m_content := c\<rparr>) = lineage_of r" "lineage_of (r\<lparr>m_category := c\<rparr>) = lineage_of r"
  "lineage_of (r\<lparr>m_importance := v\<rparr>) = lineage_of r" "lineage_of (r\<lparr>m_tags := ts\<rparr>) = lineage_of r"
  "lineage_of (r\<lparr>m_status := st\<rparr>) = lineage_of r" "lineage_of (r\<lparr>m_updated_at := t\<rparr>) = lineage_of r"
  "lineage_of (r\<lparr>m_is_forgotten := b\<rparr>) = lineage_of r" "lineage_of (r\<lparr>m_is_archived := b\<rparr>) = lineage_of r"
  "lineage_of (r\<lparr>m_forget_reason := fr\<rparr>) = lineage_of r" "lineage_of (r\<lparr>m_access_count := n\<rparr>) = lineage_of r"
  "lineage_of (r\<lparr>m_last_accessed_at := la\<rparr>) = lineage_of r" "lineage_of (r\<lparr>m_source_count := n\<rparr>) = lineage_of r"
  "lineage_of (r\<lparr>m_embedding := e\<rparr>) = lineage_of r" "lineage_of (r\<lparr>m_affect := a\<rparr>) = lineage_of r"
  by (simp_all add: lineage_of_def)

definition lin_state :: "mem_db \<Rightarrow> lineage list \<times> int" where
  "lin_state db = (lins db, mseq db)"

lemma lin_state_memories: "memories db' = memories db \<Longrightarrow> lin_state db' = lin_state db"
  unfolding lin_state_def using lins_memories by blast

lemma lin_state_upd [simp]:
  "(\<And>r. P r \<Longrightarrow> lineage_of (f r) = lineage_of r) \<Longrightarrow> lin_state (upd_memories P f db) = lin_state db"
  unfolding lin_state_def lins_upd(2) using lins_upd(1) [of P f db] by blast

lemma lin_state_frame [simp]:
  "lin_state (mark_pagerank_dirty d db) = lin_state db" "lin_state (index_delete B i db) = lin_state db"
  "lin_state (delete_chunk_vectors B i db) = lin_state db" "lin_state (record_vector_sync_failure i op e db) = lin_state db"
  "lin_state (after_update B p i db) = lin_state db"
  by (simp_all add: lin_state_def)

lemma lin_state_frame2 [simp]:
  "lin_state (snd (replay_vector_sync_pending B l db)) = lin_state db"
  "lin_state (snd (build_lance_index_from_existing B db)) = lin_state db"
  "lin_state (snd (build_lance_chunk_index_from_existing B db)) = lin_state db"
  "lin_state (db\<lparr>now := t\<rparr>) = lin_state db" "lin_state (db\<lparr>memory_links := ls\<rparr>) = lin_state db"
  by (rule lin_state_memories, simp add: mem_frame)+

lemma lin_get [simp]:
  "lin_state (snd (get_internal P i u log_access db)) = lin_state db" "lin_state (snd (get_memory i u db)) = lin_state db"
  by (simp_all add: get_memory_def get_internal_def split: option.split)

lemma lin_get_pair: "get_memory i u db = (res, db') \<Longrightarrow> lin_state db' = lin_state db"
  using lin_get(2) [of i u db] by simp

lemma lin_after_store [simp]: "lin_state (after_store E B req c i db) = lin_state db"
  by (auto simp: after_store_def store_valence_def Let_def mem_frame split: option.split intro!: lin_state_memories)

lemma map_sum_Ok: "map_sum id g x = Ok y \<longleftrightarrow> (\<exists>z. x = Ok z \<and> y = g z)"
  by (cases x) auto

lemma edit_sets_lineage: "edit_sets E c cat imp tg t = Ok f \<Longrightarrow> lineage_of (f r) = lineage_of r"
  by (auto simp: map_sum_Ok edit_sets_def Let_def split: option.splits sum.splits if_splits)

lemma insert_memory_Ok:
  assumes "insert_memory E f db = Ok (i, db')"
  shows "i = mseq db + 1" "mseq db' = mseq db + 1"
    "lins db' = lins db @ [lineage_of (f (memory_defaults (mseq db + 1) (now db) (datetime_text E (now db))))]"
  using assms by (auto simp: insert_memory_def Let_def lins_def mseq_def insert_row_def split: if_splits)

lemma same_id_lineage:
  assumes "chain_inv (lin_state db)" "r \<in> set (trows (memories db))" "s \<in> set (trows (memories db))" "m_id r = m_id s"
  shows "lineage_of r = lineage_of s"
  by (rule chain_inv_same_id [OF assms(1) [unfolded lin_state_def]])
    (use assms in \<open>simp_all add: lins_def\<close>, simp add: lineage_of_def)

lemma supersede_lins:
  assumes inv: "chain_inv (lin_state db)" and q: "r \<in> set (trows (memories db))" "latest_of i u r"
  shows "lins (supersede i u db)
    = map (\<lambda>h. if g_id h = g_id (lineage_of r) then h\<lparr>g_latest := False\<rparr> else h) (lins db)"
proof -
  have r: "m_id r = i" "m_user_id r = u" "m_is_latest r" using q(2) by (simp_all add: latest_of_def owned_memory_def)
  have "latest_of i u s \<longleftrightarrow> m_id s = i" if "s \<in> set (trows (memories db))" for s
    using same_id_lineage [OF inv q(1) that] r by (auto simp: latest_of_def owned_memory_def lineage_of_def)
  then have "lins (supersede i u db) = map (\<lambda>s. lineage_of (if m_id s = i
      then s\<lparr>m_is_latest := False, m_updated_at := now db\<rparr> else s)) (trows (memories db))"
    by (simp add: lins_def supersede_def upd_memories_def table_simps)
  then show ?thesis by (simp add: lins_def lineage_of_def r)
qed

lemma mseq_supersede [simp]: "mseq (supersede i u db) = mseq db" "now (supersede i u db) = now db"
  by (simp_all add: mseq_def supersede_def upd_memories_def table_simps)

lemma count_where_pos: "count_where P t \<noteq> 0 \<longleftrightarrow> (\<exists>r\<in>set (trows t). P r)"
  by (auto simp: count_where_def filter_empty_conv)

lemma extend_change:
  assumes inv: "chain_inv (lin_state db)" and r: "r \<in> set (trows (memories db))" "latest_of p u r"
    and ins: "insert_memory E f (supersede p u db) = Ok (i, db')"
    and g: "lineage_of (f (memory_defaults (mseq db + 1) (now db) (datetime_text E (now db)))) =
      \<lparr>g_id = mseq db + 1, g_version = m_version r + 1, g_root = or_old (m_root_memory_id r) p, g_parent = Some p,
       g_user = u, g_latest = True\<rparr>"
  shows "lin_change (lin_state db) (lin_state db')"
proof -
  note ok = insert_memory_Ok [OF ins]
  have m: "lineage_of r \<in> set (lins db)" "g_latest (lineage_of r)" using r by (auto simp: lins_def lineage_of_def latest_of_def)
  have "lins db' = map (\<lambda>h. if g_id h = g_id (lineage_of r) then h\<lparr>g_latest := False\<rparr> else h) (lins db)
      @ [\<lparr>g_id = mseq db + 1, g_version = m_version r + 1, g_root = or_old (m_root_memory_id r) p, g_parent = Some p,
          g_user = u, g_latest = True\<rparr>]"
    using ok(3) g supersede_lins [OF inv r] by simp
  moreover have "mseq db' = mseq db + 1" using ok(2) by simp
  ultimately show ?thesis
    using r lin_change.extend [OF m] by (simp add: lin_state_def lineage_of_def latest_of_def owned_memory_def)
qed

lemma stored_row_lineage:
  "lineage_of (stored_row E c req u imp tags cat st v root created (memory_defaults i t n)) =
     \<lparr>g_id = i, g_version = v, g_root = or_old root i, g_parent = sr_parent_memory_id req, g_user = u, g_latest = True\<rparr>"
  by (simp add: lineage_of_def stored_row_def memory_defaults_def)

lemma store_transactional_change:
  assumes inv: "chain_inv (lin_state db)" and ok: "store_transactional E c req u imp tags cat st db = Ok (i, db')"
  shows "lin_change (lin_state db) (lin_state db')"
proof (cases "sr_parent_memory_id req")
  case None
  then obtain created where
    "insert_memory E (stored_row E c req u imp tags cat st 1 None created) db = Ok (i, db')"
    using ok by (auto simp: store_transactional_def split: sum.splits)
  from insert_memory_Ok [OF this] show ?thesis
    using None by (simp add: lin_state_def stored_row_lineage or_old_def lin_change.fresh)
next
  case (Some p)
  obtain parent created where parent: "find_where (\<lambda>r. m_id r = p) (memories db) = Some parent"
    and live: "count_where (latest_of p u) (memories db) \<noteq> 0"
    and ins: "insert_memory E (stored_row E c req u imp tags cat st (m_version parent + 1)
      (Some (or_old (m_root_memory_id parent) p)) created) (supersede p u db) = Ok (i, db')"
    using ok Some by (auto simp: store_transactional_def or_old_def split: option.splits sum.splits if_splits)
  obtain r where r: "r \<in> set (trows (memories db))" "latest_of p u r" using live unfolding count_where_pos by blast
  have p: "parent \<in> set (trows (memories db))" "m_id parent = p" "m_id r = p"
    using find_where_Some [OF parent] r by (auto simp: latest_of_def owned_memory_def)
  then have same: "m_version parent = m_version r" "or_old (m_root_memory_id parent) p = or_old (m_root_memory_id r) p"
    using same_id_lineage [OF inv p(1) r(1)] by (auto simp: lineage_of_def)
  show ?thesis
    using extend_change [OF inv r ins] Some same by (simp add: stored_row_lineage or_old_def)
qed

lemma lin_change_refl: "t = s \<Longrightarrow> lin_change s t"
  by (cases s) (simp add: lin_change.same)

lemma store_change:
  assumes "chain_inv (lin_state db)"
  shows "lin_change (lin_state db) (lin_state (snd (store E B req quota ro db)))"
proof -
  have tx: "lin_change (lin_state db) (lin_state db')" if tx_ok: "store_tx E c r u imp st quota db = Ok (i, db')" for c r u imp st i db'
  proof -
    obtain db1 where "store_transactional E c r u imp (stored_tags E c (sr_tags r)) (stored_category E c (sr_category r)) st db
        = Ok (i, db1)" "memories db' = memories db1"
      using tx_ok by (auto simp: store_tx_def split: sum.splits option.splits if_splits)
    then show ?thesis using store_transactional_change [OF assms] lin_state_memories [of db' db1] by simp
  qed
  show ?thesis
    by (auto simp: store_def Let_def split: option.split sum.split intro: tx lin_change_refl)
qed

lemma purge_change:
  assumes inv: "chain_inv (lin_state db)"
  shows "lin_change (lin_state db) (lin_state (snd (purge_trashed E days counters db)))"
proof (cases "delete_memories E (purgeable days db) db")
  case (Inl e)
  then show ?thesis by (simp add: purge_trashed_def Let_def lin_change_refl)
next
  case (Inr res)
  let ?P = "purgeable days db" and ?rows = "trows (memories db)"
  define Q where "Q = (\<lambda>g :: lineage. \<not> points_to ?P db (Some (g_id g)))"
  have "distinct (map m_id ?rows)"
    using chain_inv_sorted [OF inv [unfolded lin_state_def]]
    by (simp add: strict_sorted_iff lins_def lineage_of_def comp_def)
  then have Q: "Q (lineage_of r) \<longleftrightarrow> \<not> ?P r" if "r \<in> set ?rows" for r
    using that distinct_map_eq [of m_id ?rows] by (auto simp: Q_def points_to_def lineage_of_def)
  have fk: "\<not> points_to ?P db (m_parent_memory_id r)" if "r \<in> set ?rows" "\<not> ?P r" for r
    using Inr that by (auto simp: delete_memories_def split: if_splits)
  have "\<forall>h\<in>set (lins db). \<forall>p\<in>set (lins db). Q h \<and> g_parent h = Some (g_id p) \<longrightarrow> Q p"
  proof (intro ballI impI)
    fix h p assume a: "h \<in> set (lins db)" "p \<in> set (lins db)" "Q h \<and> g_parent h = Some (g_id p)"
    then obtain r where r: "r \<in> set ?rows" "h = lineage_of r" by (auto simp: lins_def)
    then have "\<not> points_to ?P db (m_parent_memory_id r)" using Q a(3) fk by blast
    moreover have "m_parent_memory_id r = Some (g_id p)" using a(3) r(2) by (simp add: lineage_of_def)
    ultimately show "Q p" by (simp add: Q_def)
  qed
  moreover have "memories (snd (purge_trashed E days counters db)) = delete_where ?P (memories db)"
    using Inr by (auto simp: purge_trashed_def Let_def delete_memories_def split: if_splits)
  then have "lin_state (snd (purge_trashed E days counters db)) = (map lineage_of (filter (\<lambda>r. \<not> ?P r) ?rows), mseq db)"
    by (simp only: lin_state_def lins_def mseq_def table_simps)
  moreover have "filter Q (lins db) = map lineage_of (filter (\<lambda>r. \<not> ?P r) ?rows)"
    unfolding lins_def filter_map comp_def by (rule arg_cong [OF filter_cong]) (simp_all only: Q)
  ultimately show ?thesis using lin_change.purge [of "lins db" Q "mseq db"] by (simp only: lin_state_def [of db])
qed

lemma backfill_lineages: "lin_state (snd (backfill_missing_embeddings_limited M B lim db)) = lin_state db"
proof -
  have frame: "lin_state (flush_primary_batch B batch db) = lin_state db" "lin_state (write_chunks B i cs db) = lin_state db"
    "lin_state (persist_primary_db_only i e db) = lin_state db" for batch i cs e db
    by ((rule lin_state_memories, simp add: mem_frame)+, simp add: persist_primary_db_only_def)
  have "lin_state (fst (backfill_one M B c s)) = lin_state (fst s)" for c s
    by (auto simp: backfill_one_def backfill_primary_def backfill_chunks_def Let_def frame split: prod.split sum.split)
  then have "lin_state (fst (fold (backfill_one M B) cs s)) = lin_state (fst s)" for cs s
    by (induction cs arbitrary: s) simp_all
  then show ?thesis
    by (simp add: backfill_missing_embeddings_limited_def Let_def frame case_prod_beta)
qed

lemma mem_call_change:
  assumes inv: "chain_inv (lin_state db)" and step: "mem_call E db db'"
  shows "lin_change (lin_state db) (lin_state db')"
  using step
proof cases
  case (store_call B req quota ro)
  then show ?thesis using store_change [OF inv] by simp
next
  case (purge_call days counters)
  then show ?thesis using purge_change [OF inv] by simp
next
  case (edit_call i u c cat imp tg)
  then show ?thesis
    by (auto simp: edit_and_approve_def edit_sets_lineage split: sum.split intro!: lin_change_refl)
next
  case (backfill_call M B lim)
  then show ?thesis by (simp add: backfill_lineages lin_change_refl)
qed (auto intro!: lin_change_refl simp: delete_memory_def restore_def mark_forgotten_def set_archived_def
    update_forget_reason_def adjust_importance_def insert_link_def update_source_count_def update_memory_tags_def
    get_version_chain_def approve_memory_def reject_memory_def set_forget_reason_def Let_def
    split: sum.split prod.split dest!: lin_get_pair)

section \<open>Updates in flight\<close>

text \<open>A plan remembers the version and the root of its row, which never change.\<close>

definition plan_ok :: "mem_db \<Rightarrow> update_plan \<Rightarrow> bool" where
  "plan_ok db p \<longleftrightarrow> up_id p \<le> mseq db \<and> m_id (up_old p) = up_id p
     \<and> (\<forall>g\<in>set (lins db). g_id g = up_id p \<longrightarrow> up_version p = g_version g + 1 \<and> up_root p = g_root g)"

lemma lin_change_lookup:
  assumes "lin_change (ls, n) (ls', n')" "i \<le> n" "\<forall>g\<in>set ls. g_id g = i \<longrightarrow> R (g_version g) (g_root g)"
  shows "i \<le> n' \<and> (\<forall>g\<in>set ls'. g_id g = i \<longrightarrow> R (g_version g) (g_root g))"
  using assms by cases auto

lemma plan_ok_change:
  assumes "lin_change (lin_state db) (lin_state db')" "plan_ok db p"
  shows "plan_ok db' p"
  using lin_change_lookup [OF assms(1) [unfolded lin_state_def], of "up_id p" "\<lambda>v r. up_version p = v + 1 \<and> up_root p = r"]
    assms(2) by (simp add: plan_ok_def)

lemma update_read_plan:
  assumes inv: "chain_inv (lin_state db)" and ok: "update_read E i req u counters db = Ok p"
  shows "plan_ok db p"
proof -
  obtain r where r: "find_where (\<lambda>r. m_id r = i \<and> \<not> m_is_forgotten r \<and> m_user_id r = u) (memories db) = Some r"
    and p: "up_id p = i" "m_id (up_old p) = m_id r" "up_version p = m_version r + 1" "up_root p = or_old (m_root_memory_id r) (m_id r)"
    using ok by (auto simp: update_read_def Let_def row_to_memory_def split: option.splits if_splits)
  have m: "r \<in> set (trows (memories db))" "m_id r = i" using find_where_Some [OF r] by auto
  then have g: "lineage_of r \<in> set (lins db)" "g_id (lineage_of r) = i"
    by (simp add: lins_def) (simp add: lineage_of_def m)
  have "g_version g = m_version r \<and> g_root g = or_old (m_root_memory_id r) (m_id r)" if "g \<in> set (lins db)" "g_id g = i" for g
    using chain_inv_same_id [OF inv [unfolded lin_state_def] that(1) g(1)] that(2) g(2) by (simp add: lineage_of_def)
  moreover have "i \<le> mseq db" using chain_inv_old [OF inv [unfolded lin_state_def] g(1)] g(2) by simp
  ultimately show ?thesis using p m(2) unfolding plan_ok_def by auto
qed

lemma new_version_lineage:
  "lineage_of (new_version E p blob (memory_defaults i t n)) =
     \<lparr>g_id = i, g_version = up_version p, g_root = up_root p, g_parent = Some (m_id (up_old p)), g_user = up_user p,
      g_latest = True\<rparr>"
  by (simp add: lineage_of_def new_version_def memory_defaults_def Let_def or_old_def)

lemma update_commit_change:
  assumes inv: "chain_inv (lin_state db)" and plan: "plan_ok db p"
  shows "lin_change (lin_state db) (lin_state (snd (update_commit E B p db)))"
proof (cases "update_tx E p db")
  case (Inl e)
  then show ?thesis by (simp add: update_commit_def lin_change_refl)
next
  case (Inr res)
  then obtain i db1 blob db2 where res: "res = (i, db1)" and live: "count_where (latest_of (up_id p) (up_user p)) (memories db) \<noteq> 0"
    and ins: "insert_memory E (new_version E p blob) (supersede (up_id p) (up_user p) db) = Ok (i, db2)"
    and same: "memories db1 = memories db2"
    by (auto simp: update_tx_def update_transactional_def Let_def split: sum.splits if_splits)
  obtain r where r: "r \<in> set (trows (memories db))" "latest_of (up_id p) (up_user p) r"
    using live unfolding count_where_pos by blast
  then have g: "lineage_of r \<in> set (lins db)" "m_id r = up_id p" by (auto simp: lins_def latest_of_def owned_memory_def)
  then have "up_version p = m_version r + 1" "up_root p = or_old (m_root_memory_id r) (up_id p)" "m_id (up_old p) = up_id p"
    using plan by (auto simp: plan_ok_def lineage_of_def)
  then have "lin_change (lin_state db) (lin_state db2)"
    using extend_change [OF inv r ins] by (simp add: new_version_lineage)
  then show ?thesis using Inr res lin_state_memories [OF same] by (simp add: update_commit_def Let_def)
qed

section \<open>The machine keeps chains\<close>

definition mem_inv :: "mem_sys \<Rightarrow> bool" where
  "mem_inv s \<longleftrightarrow> chain_inv (lin_state (sys_db s)) \<and> (\<forall>p\<in>set (sys_plans s). plan_ok (sys_db s) p)"

lemma mem_step_change: "mem_inv s \<Longrightarrow> mem_step E s t \<Longrightarrow> lin_change (lin_state (sys_db s)) (lin_state (sys_db t))"
  by (erule mem_step.cases) (auto simp: mem_inv_def intro: mem_call_change update_commit_change lin_change_refl)

lemma mem_step_keeps: "mem_inv s \<Longrightarrow> mem_step E s t \<Longrightarrow> mem_inv t"
proof -
  assume inv: "mem_inv s" and step: "mem_step E s t"
  note change = mem_step_change [OF inv step]
  have "chain_inv (lin_state (sys_db t))" using lin_change_keeps [OF change] inv by (simp add: mem_inv_def)
  moreover have "plan_ok (sys_db t) p" if "p \<in> set (sys_plans t)" for p
    using step that
  proof cases
    case (update_begin i req u counters q)
    then show ?thesis using inv that update_read_plan [of "sys_db s" E i req u counters q]
      by (auto simp: mem_inv_def)
  qed (use inv that change plan_ok_change in \<open>auto simp: mem_inv_def dest: in_set_remove1 [THEN iffD1, rotated] notin_set_remove1\<close>)
  ultimately show "mem_inv t" by (simp add: mem_inv_def)
qed

interpretation mem: state_machine "mem_step E" mem_inv
  by unfold_locales (rule mem_step_keeps)

lemma mem_inv_start: "no_memories (sys_db s) \<Longrightarrow> sys_plans s = [] \<Longrightarrow> mem_inv s"
  by (simp add: mem_inv_def no_memories_def lin_state_def lins_def mseq_def chain_inv_def)

end
