(* ===== verification/Memory_Examples.thy ===== *)
theory Memory_Examples
  imports Memory_Machine
begin

text \<open>
  A concrete memory store for the witnesses: plain functions for the environment, one memory of user 7 stored,
  edited and deleted, and the facts about it that the simplifier computes.
\<close>

definition demo_env :: mem_env where
  "demo_env = \<lparr>me_unicode = ascii, tags_to_json = join '','', tags_of_json = (\<lambda>s. Some (split_comma [] s)),
     json_each = (\<lambda>s. Some (split_comma [] s)), datetime_text = show_int, strftime = (\<lambda>f s. Some s),
     from_rfc3339 = (\<lambda>s. None), from_sql_datetime = (\<lambda>s. None), from_sql_date = Some, l2_normalize = id,
     whatlang_detect = (\<lambda>s. None), analyze_valence = (\<lambda>s. \<lparr>vr_valence = 0, vr_arousal = 0, vr_dominant_emotion = ''neutral''\<rparr>),
     f64_display = (\<lambda>f. ''0''), null_error = ''null'', fk_error = ''FOREIGN KEY constraint failed'', json_error = ''malformed JSON'',
     REVIEW_GATE_ENABLED = True, REVIEW_GATE_SOURCES = [''web''], REVIEW_GATE_IMPORTANCE_THRESHOLD = None\<rparr>"

definition demo_db :: mem_db where
  "demo_db = \<lparr>now = 0, memories = empty_table, memory_chunks = empty_table, vector_sync_pending = empty_table,
     memory_links = empty_table, content_bytes = Some 0, memory_count = Some 0, pagerank_dirty = None,
     vector_index = Some (\<lambda>_. None), chunk_vector_index = None\<rparr>"

definition demo_request :: store_request where
  "demo_request = default_store_request\<lparr>sr_content := ''tea is hot'', sr_user_id := Some 7, sr_embedding := Some [1]\<rparr>"

definition demo_update :: update_request where
  "demo_update = \<lparr>ur_content = Some ''tea is cold'', ur_category = None, ur_importance = None, ur_tags = None,
     ur_is_static = None, ur_status = None, ur_embedding = None, ur_chunk_embeddings = None\<rparr>"

definition demo_stored :: mem_db where
  "demo_stored = snd (store demo_env good_backend demo_request None False demo_db)"

lemmas demo_defs = demo_env_def demo_db_def demo_request_def demo_update_def default_store_request_def

lemmas store_eval = store_def Let_def ascii_def ascii_space_def MAX_CONTENT_SIZE_def
  find_duplicate_memory_def select_where_def empty_table_def store_tx_def store_transactional_def normal_request_def
  stored_tags_def stored_category_def infer_tags_def infer_category_def service_map_def verb_map_def
  starts_with_def to_ascii_lowercase_def initial_status_def resolve_initial_status_def
  clamp_importance_def clamp_importance_i64_def MIN_IMPORTANCE_def MAX_IMPORTANCE_def
  insert_memory_def insert_row_def refs_ok_def memory_exists_def stored_row_def memory_defaults_def
  detect_lang_def char_count_def is_char_start_def
  after_store_def index_insert_def good_backend_def ledger_def mark_pagerank_dirty_def store_valence_def

definition tea :: memory where
  "tea = (memory_defaults 1 0 (show_int 0))\<lparr>m_content := ''tea is hot'', m_embedding := Some (embedding_to_blob [1]),
     m_user_id := 7, m_lang := Some ''en''\<rparr>"

lemma demo_stored_eq:
  "demo_stored = demo_db\<lparr>memories := \<lparr>trows = [tea], tseq = 1\<rparr>, pagerank_dirty := Some 1,
     vector_index := Some ((\<lambda>_. None)(1 := Some [1]))\<rparr>"
  unfolding demo_stored_def tea_def by (simp add: demo_defs store_eval)

lemmas tea_simps = tea_def memory_defaults_def

text \<open>The same memory edited: version 2 supersedes version 1.\<close>

definition demo_plan :: update_plan where
  "demo_plan = \<lparr>up_id = 1, up_user = 7, up_old = row_to_memory tea 7, up_content = ''tea is cold'', up_category = ''general'',
     up_importance = 5, up_is_static = False, up_status = ''approved'', up_tags = None, up_root = 1, up_version = 2,
     up_embedding = None, up_chunks = None, up_counters = False\<rparr>"

lemma demo_read: "update_read demo_env 1 demo_update 7 False demo_stored = Ok demo_plan"
  by (simp add: demo_stored_eq demo_plan_def tea_simps demo_defs update_read_def find_where_def Let_def ascii_def
      ascii_space_def MAX_CONTENT_SIZE_def row_to_memory_def or_old_def clamp_importance_def clamp_importance_i64_def
      MIN_IMPORTANCE_def MAX_IMPORTANCE_def)

definition demo_edited :: mem_db where
  "demo_edited = snd (update_commit demo_env good_backend demo_plan demo_stored)"

definition cold_tea :: memory where
  "cold_tea = (memory_defaults 2 0 (show_int 0))\<lparr>m_content := ''tea is cold'', m_embedding := Some (embedding_to_blob [1]),
     m_version := 2, m_parent_memory_id := Some 1, m_root_memory_id := Some 1, m_user_id := 7, m_lang := Some ''en''\<rparr>"

lemmas commit_eval = update_commit_def update_tx_def update_transactional_def count_where_def latest_of_def owned_memory_def
  stored_blob_def find_where_def insert_memory_def insert_row_def refs_ok_def memory_exists_def supersede_def
  upd_memories_def update_where_def new_version_def row_to_memory_def detect_lang_def char_count_def is_char_start_def
  after_update_def swap_vectors_def good_backend_def index_delete_def ledger_def mark_pagerank_dirty_def
  carry_forward_chunks_def copy_chunks_def select_where_def empty_table_def Let_def ascii_def ascii_space_def

lemma demo_edited_eq:
  "demo_edited = demo_stored\<lparr>memories := \<lparr>trows = [tea\<lparr>m_is_latest := False\<rparr>, cold_tea], tseq = 2\<rparr>, pagerank_dirty := Some 2,
     vector_index := Some ((\<lambda>_. None)(2 := Some [1]))\<rparr>"
  unfolding demo_edited_def
  by (simp add: demo_stored_eq demo_plan_def tea_simps cold_tea_def demo_defs commit_eval fun_upd_def fun_eq_iff)

text \<open>A memory from a source under review is stored as pending.\<close>

definition web_tea :: memory where
  "web_tea = tea\<lparr>m_source := ''web'', m_status := ''pending''\<rparr>"

definition demo_pending :: mem_db where
  "demo_pending = snd (store demo_env good_backend (demo_request\<lparr>sr_source := ''web''\<rparr>) None False demo_db)"

lemma demo_pending_eq: "demo_pending = demo_stored\<lparr>memories := \<lparr>trows = [web_tea], tseq = 1\<rparr>\<rparr>"
  unfolding demo_pending_def web_tea_def demo_stored_eq tea_def by (simp add: demo_defs store_eval)

end
