(* ===== verification/Memory_Properties.thy ===== *)
theory Memory_Properties
  imports Memory_Examples
begin

text \<open>
  What the memory store guarantees: version chains are lines, tenants do not see or change each other's
  memories, only the inbox decides a review, and a deleted memory can be restored.
\<close>

section \<open>Version chains\<close>

lemma contiguous_versions:
  fixes S :: "int set"
  assumes fin: "finite S" and down: "\<And>v. v \<in> S \<Longrightarrow> v = 1 \<or> 1 < v \<and> v - 1 \<in> S"
  shows "S = {1..int (card S)}"
proof (cases "S = {}")
  case False
  define M where "M = Max S"
  have M: "M \<in> S" "\<And>v. v \<in> S \<Longrightarrow> v \<le> M" using fin False by (simp_all add: M_def)
  have reach: "M - int k \<in> S" if "int k < M" for k using that
  proof (induction k)
    case (Suc k)
    then have "M - int k \<in> S" "M - int k \<noteq> 1" by auto
    with down show ?case by (fastforce simp: algebra_simps)
  qed (use M in simp)
  have "v \<in> S" if "1 \<le> v" "v \<le> M" for v using reach [of "nat (M - v)"] that by simp
  moreover have "1 \<le> v" if "v \<in> S" for v using down [OF that] by auto
  ultimately have S: "S = {1..M}" using M(2) unfolding set_eq_iff atLeastAtMost_iff by blast
  moreover have "1 \<le> M" using M(1) down by fastforce
  ultimately show ?thesis by simp
qed simp

lemma sorted_versions:
  assumes "distinct (map f xs)" "\<And>v :: int. v \<in> f ` set xs \<Longrightarrow> v = 1 \<or> 1 < v \<and> v - 1 \<in> f ` set xs"
  shows "map f (sort_key f xs) = [1..int (length xs)]"
proof (rule sorted_distinct_set_unique)
  have "distinct xs" using assms(1) by (simp add: distinct_map)
  have "card (f ` set xs) = length xs" using assms(1) by (metis distinct_card length_map set_map)
  with contiguous_versions [of "f ` set xs"] assms(2) have "f ` set xs = {1..int (length xs)}" by simp
  then show "set (map f (sort_key f xs)) = set [1..int (length xs)]" by simp
  show "distinct (map f (sort_key f xs))"
    using assms(1) by (simp add: distinct_map)
qed (simp_all add: sorted_sort_key)

lemma chain_down:
  assumes "chain_inv (ls, n)" "g \<in> set ls"
  shows "g_version g = 1 \<or> 1 < g_version g \<and> (\<exists>q\<in>set ls. g_root q = g_root g \<and> g_version q = g_version g - 1)"
proof (cases "g_parent g")
  case None
  then show ?thesis using chain_inv_orphan [OF assms] by simp
next
  case (Some p)
  then obtain q where "q \<in> set ls" "g_version g = g_version q + 1" "g_root q = g_root g"
    by (rule chain_inv_parent [OF assms])
  then show ?thesis using chain_inv_old [OF assms(1)] by force
qed

lemma get_memory_Ok:
  assumes "get_memory i u db = (Ok m, db')"
  obtains r where "r \<in> set (trows (memories db))" "m_id r = i" "m_user_id r = u" "m = row_to_memory r u"
    "\<not> m_is_forgotten r" "\<not> m_is_archived r"
    "db' = upd_memories (owned_memory i u) (\<lambda>r. r\<lparr>m_access_count := m_access_count r + 1,
         m_last_accessed_at := Some (now db), m_updated_at := now db\<rparr>) db"
proof -
  from assms obtain r where r: "find_where (\<lambda>r. m_id r = i \<and> (\<not> m_is_forgotten r \<and> \<not> m_is_archived r) \<and> m_user_id r = u) (memories db) = Some r"
    and rest: "m = row_to_memory r u" "db' = upd_memories (owned_memory i u) (\<lambda>r. r\<lparr>m_access_count := m_access_count r + 1,
         m_last_accessed_at := Some (now db), m_updated_at := now db\<rparr>) db"
    by (auto simp: get_memory_def get_internal_def split: option.splits)
  from find_where_Some [OF r] rest that show ?thesis by blast
qed

text \<open>The rows of a chain are those with its root, all of one owner.\<close>

lemma chain_rows:
  assumes inv: "chain_inv (lin_state db)" and r: "r \<in> set (trows (memories db))"
    and root: "root = or_old (m_root_memory_id r) (m_id r)" and s: "s \<in> set (trows (memories db))"
  shows "in_chain root s \<and> m_user_id s = m_user_id r \<longleftrightarrow> or_old (m_root_memory_id s) (m_id s) = root"
proof -
  note inv' = inv [unfolded lin_state_def]
  have g: "lineage_of r \<in> set (lins db)" "lineage_of s \<in> set (lins db)" using r s by (simp_all add: lins_def)
  have "g_root (lineage_of s) = g_root (lineage_of r)" if "m_id s = root"
    using chain_inv_root [OF inv' g] that root by (simp add: lineage_of_def)
  moreover have "m_user_id s = m_user_id r" if "g_root (lineage_of s) = g_root (lineage_of r)"
    using chain_inv_pair [OF inv' g(2,1) that] by (simp add: lineage_of_def)
  ultimately show ?thesis using root by (auto simp: in_chain_def lineage_of_def or_old_def split: option.splits)
qed

lemma version_chain_line:
  assumes inv: "chain_inv (lin_state db)" and ok: "get_version_chain i u db = (Ok chain, db')"
  shows "map ve_version chain = [1..int (length chain)]"
    and "\<forall>k<length chain. ve_is_latest (chain ! k) \<longrightarrow> Suc k = length chain"
    and "\<exists>e\<in>set chain. ve_id e = i"
proof -
  obtain m db1 where m: "get_memory i u db = (Ok m, db1)" using ok by (auto simp: get_version_chain_def split: prod.splits sum.splits)
  obtain r0 where r0: "r0 \<in> set (trows (memories db))" "m_id r0 = i" "m_user_id r0 = u" "m = row_to_memory r0 u"
    "db1 = upd_memories (owned_memory i u) (\<lambda>r. r\<lparr>m_access_count := m_access_count r + 1,
         m_last_accessed_at := Some (now db), m_updated_at := now db\<rparr>) db"
    using m by (rule get_memory_Ok)
  have inv1: "chain_inv (lin_state db1)" using inv lin_get_pair [OF m] by simp
  note inv1' = inv1 [unfolded lin_state_def]
  define root where "root = or_old (m_root_memory_id r0) (m_id r0)"
  define R where "R = select_where (\<lambda>r. in_chain root r \<and> m_user_id r = u) (memories db1)"
  have chain: "chain = map to_version_entry (sort_key m_version R)"
    using ok m r0(4) by (auto simp: get_version_chain_def Let_def R_def root_def row_to_memory_def)
  obtain r where r: "r \<in> set (trows (memories db1))" "m_id r = i" "m_user_id r = u" "root = or_old (m_root_memory_id r) (m_id r)"
  proof -
    let ?f = "\<lambda>r. r\<lparr>m_access_count := m_access_count r + 1, m_last_accessed_at := Some (now db), m_updated_at := now db\<rparr>"
    have "?f r0 \<in> set (trows (memories db1))"
      using r0 update_where_row [of r0 "memories db" "owned_memory i u" ?f] by (simp add: upd_memories_def owned_memory_def)
    then show ?thesis using r0 that [of "?f r0"] by (simp add: root_def)
  qed
  have R: "s \<in> set R \<longleftrightarrow> s \<in> set (trows (memories db1)) \<and> or_old (m_root_memory_id s) (m_id s) = root" for s
    using chain_rows [OF inv1 r(1) r(4), of s] r(3) by (auto simp: R_def select_where_def)
  have lin: "lineage_of s \<in> set (lins db1)" "g_root (lineage_of s) = root" if "s \<in> set R" for s
    using that by (simp_all add: R lins_def) (simp add: lineage_of_def)
  have ids: "distinct (map m_id (trows (memories db1)))"
    using chain_inv_sorted [OF inv1'] by (simp add: strict_sorted_iff lins_def lineage_of_def comp_def)
  have pair: "(m_version s = m_version t \<longrightarrow> s = t) \<and> (m_is_latest s \<longrightarrow> m_version t \<le> m_version s)"
    if "s \<in> set R" "t \<in> set R" for s t
    using chain_inv_pair [OF inv1' lin(1) [OF that(1)] lin(1) [OF that(2)]] lin(2) that R distinct_map_eq [OF ids, of s t]
    by (auto simp: lineage_of_def)
  have "distinct R" using ids by (simp add: R_def select_where_def distinct_map)
  then have dist: "distinct (map m_version R)" using pair by (auto simp: distinct_map inj_on_def)
  have down: "m_version s = 1 \<or> 1 < m_version s \<and> m_version s - 1 \<in> m_version ` set R" if s: "s \<in> set R" for s
    using chain_down [OF inv1' lin(1) [OF s]] lin(2) [OF s] by (force simp: lins_def lineage_of_def R)
  have versions: "map m_version (sort_key m_version R) = [1..int (length R)]"
    by (rule sorted_versions [OF dist]) (use down in blast)
  then show "map ve_version chain = [1..int (length chain)]"
    by (simp add: chain to_version_entry_def comp_def)
  show "\<exists>e\<in>set chain. ve_id e = i"
    using R [of r] r by (auto simp: chain to_version_entry_def)
  show "\<forall>k<length chain. ve_is_latest (chain ! k) \<longrightarrow> Suc k = length chain"
  proof (intro allI impI)
    fix k assume k: "k < length chain" "ve_is_latest (chain ! k)"
    let ?S = "sort_key m_version R" and ?n = "length R"
    have n: "k < ?n" "length ?S = ?n" using k by (simp_all add: chain)
    have v: "m_version (?S ! j) = int j + 1" if "j < ?n" for j
      using arg_cong [OF versions, of "\<lambda>xs. xs ! j"] that n(2) by simp
    have mem: "?S ! j \<in> set R" if "j < ?n" for j using that n(2) by (metis nth_mem set_sort)
    have "m_is_latest (?S ! k)" using k n by (simp add: chain to_version_entry_def)
    then have "int (?n - 1) + 1 \<le> int k + 1"
      using pair [OF mem mem, of k "?n - 1"] n v [of k] v [of "?n - 1"] by simp
    then show "Suc k = length chain" using n by (simp add: chain)
  qed
qed

text \<open>
  Property C4. Version chains never fork. After any history of calls, with other calls between the read and the
  write of an update and any failures of the vector index, the chain of a memory consists of versions 1, 2, 3 and
  so on without a gap or a repetition, it contains the memory, and only its last version can be the latest.
\<close>

theorem version_chains_never_fork:
  assumes "no_memories (sys_db s)" "sys_plans s = []" "(mem_step E)\<^sup>*\<^sup>* s t"
    and "get_version_chain i u (sys_db t) = (Ok chain, db')"
  shows "map ve_version chain = [1..int (length chain)] \<and> (\<exists>e\<in>set chain. ve_id e = i)
    \<and> (\<forall>k<length chain. ve_is_latest (chain ! k) \<longrightarrow> Suc k = length chain)"
proof -
  have "mem_inv t" using mem.steps_keep [OF assms(3)] mem_inv_start [OF assms(1,2)] by simp
  then have "chain_inv (lin_state (sys_db t))" by (simp add: mem_inv_def)
  from version_chain_line [OF this assms(4)] show ?thesis by blast
qed

definition demo_start :: mem_sys where
  "demo_start = \<lparr>sys_db = demo_db, sys_plans = []\<rparr>"

lemma demo_run: "(mem_step demo_env)\<^sup>*\<^sup>* demo_start \<lparr>sys_db = demo_edited, sys_plans = []\<rparr>"
proof -
  have "mem_step demo_env demo_start (demo_start\<lparr>sys_db := demo_stored\<rparr>)"
    unfolding demo_stored_def demo_start_def by (rule mem_step.call) (simp add: mem_call.store_call)
  moreover have "mem_step demo_env (demo_start\<lparr>sys_db := demo_stored\<rparr>) \<lparr>sys_db = demo_stored, sys_plans = [demo_plan]\<rparr>"
    using mem_step.update_begin [of demo_env 1 demo_update 7 False "demo_start\<lparr>sys_db := demo_stored\<rparr>" demo_plan] demo_read
    by (simp add: demo_start_def)
  moreover have "mem_step demo_env \<lparr>sys_db = demo_stored, sys_plans = [demo_plan]\<rparr> \<lparr>sys_db = demo_edited, sys_plans = []\<rparr>"
    using mem_step.update_end [of demo_plan "\<lparr>sys_db = demo_stored, sys_plans = [demo_plan]\<rparr>" demo_env good_backend]
    by (simp add: demo_edited_def)
  ultimately show ?thesis by (meson converse_rtranclp_into_rtranclp r_into_rtranclp)
qed

lemma demo_chain:
  "get_version_chain 2 7 demo_edited =
     (Ok [\<lparr>ve_id = 1, ve_content = ''tea is hot'', ve_version = 1, ve_is_latest = False\<rparr>,
          \<lparr>ve_id = 2, ve_content = ''tea is cold'', ve_version = 2, ve_is_latest = True\<rparr>],
      snd (get_memory 2 7 demo_edited))"
  by (simp add: demo_edited_eq demo_stored_eq demo_db_def tea_simps cold_tea_def get_version_chain_def get_memory_def
      get_internal_def find_where_def upd_memories_def update_where_def owned_memory_def Let_def or_old_def row_to_memory_def
      select_where_def in_chain_def to_version_entry_def)

theorem version_chains_never_fork_witness:
  "\<exists>t chain db'. (mem_step demo_env)\<^sup>*\<^sup>* demo_start t \<and> get_version_chain 2 7 (sys_db t) = (Ok chain, db')
     \<and> length chain = 2 \<and> map ve_version chain = [1..2]"
proof -
  let ?t = "\<lparr>sys_db = demo_edited, sys_plans = []\<rparr>"
  have c: "get_version_chain 2 7 (sys_db ?t) =
      (Ok [\<lparr>ve_id = 1, ve_content = ''tea is hot'', ve_version = 1, ve_is_latest = False\<rparr>,
          \<lparr>ve_id = 2, ve_content = ''tea is cold'', ve_version = 2, ve_is_latest = True\<rparr>],
       snd (get_memory 2 7 demo_edited))" using demo_chain by simp
  have "no_memories (sys_db demo_start)" "sys_plans demo_start = []"
    by (simp_all add: demo_start_def demo_db_def no_memories_def empty_table_def)
  from version_chains_never_fork [OF this demo_run c] c demo_run show ?thesis
    by (intro exI [of _ ?t] exI conjI) auto
qed

section \<open>Tenants\<close>

text \<open>The calls a user makes.\<close>

inductive user_call :: "mem_env \<Rightarrow> int \<Rightarrow> mem_db \<Rightarrow> mem_db \<Rightarrow> bool" for E :: mem_env and u :: int where
  u_store: "sr_user_id req = Some u \<Longrightarrow> user_call E u db (snd (store E B req quota ro db))"
| u_get: "user_call E u db (snd (get_memory i u db))"
| u_update: "user_call E u db (snd (update_memory E B i req u counters db))"
| u_delete: "user_call E u db (snd (delete_memory B i u db))"
| u_restore: "user_call E u db (snd (restore i u db))"
| u_forget: "user_call E u db (snd (mark_forgotten B i u db))"
| u_archive: "user_call E u db (snd (set_archived b i u db))"
| u_reason: "user_call E u db (snd (update_forget_reason i reason u db))"
| u_importance: "user_call E u db (snd (adjust_importance i u d db))"
| u_count: "user_call E u db (snd (update_source_count i n u db))"
| u_tags: "user_call E u db (snd (update_memory_tags E i u tags db))"
| u_approve: "user_call E u db (snd (approve_memory i u db))"
| u_reject: "user_call E u db (snd (reject_memory i u db))"
| u_edit: "user_call E u db (snd (edit_and_approve E i u c cat imp tg db))"

definition rows_of :: "(int \<Rightarrow> bool) \<Rightarrow> mem_db \<Rightarrow> memory list" where
  "rows_of V db = filter (\<lambda>r. V (m_user_id r)) (trows (memories db))"

lemma rows_of_memories: "memories db' = memories db \<Longrightarrow> rows_of V db' = rows_of V db"
  by (simp add: rows_of_def)

lemma rows_of_upd:
  assumes "\<And>r. r \<in> set (trows (memories db)) \<Longrightarrow> P r \<Longrightarrow> m_user_id r = u" "\<And>r. m_user_id (f r) = m_user_id r"
  shows "rows_of (\<lambda>v. v \<noteq> u) (upd_memories P f db) = rows_of (\<lambda>v. v \<noteq> u) db"
proof -
  have "filter (\<lambda>r. m_user_id r \<noteq> u) (map (\<lambda>r. if P r then f r else r) rows) = filter (\<lambda>r. m_user_id r \<noteq> u) rows"
    if "\<And>r. r \<in> set rows \<Longrightarrow> P r \<Longrightarrow> m_user_id r = u" for rows
    using that assms(2) by (induction rows) auto
  with assms(1) show ?thesis by (simp add: rows_of_def upd_memories_def table_simps)
qed

lemma rows_of_upd_all:
  assumes "\<And>r. P r \<Longrightarrow> m_user_id r = u" "\<And>r. m_user_id (f r) = m_user_id r"
  shows "rows_of (\<lambda>v. v \<noteq> u) (upd_memories P f db) = rows_of (\<lambda>v. v \<noteq> u) db"
  using assms by (rule rows_of_upd)

abbreviation others :: "int \<Rightarrow> mem_db \<Rightarrow> memory list" where
  "others u \<equiv> rows_of (\<lambda>v. v \<noteq> u)"

lemma others_frame [simp]:
  "others u (mark_pagerank_dirty d db) = others u db" "others u (index_delete B i db) = others u db"
  "others u (delete_chunk_vectors B i db) = others u db" "others u (record_vector_sync_failure i op e db) = others u db"
  "others u (after_update B p i db) = others u db" "others u (db\<lparr>content_bytes := cb\<rparr>) = others u db"
  "others u (db\<lparr>memory_count := mc\<rparr>) = others u db"
  by (rule rows_of_memories, simp add: mem_frame)+

lemma others_insert:
  assumes "insert_memory E f db = Ok (i, db')" "\<And>r. m_user_id (f r) = u"
  shows "others u db' = others u db"
  using assms by (auto simp: insert_memory_def Let_def rows_of_def insert_row_def split: if_splits)

lemma others_supersede [simp]: "others u (supersede p u db) = others u db"
  unfolding supersede_def by (rule rows_of_upd) (auto simp: latest_of_def owned_memory_def)

lemma others_get [simp]: "others u (snd (get_memory i u db)) = others u db"
  by (auto simp: get_memory_def get_internal_def owned_memory_def split: option.split intro!: rows_of_upd)

lemma store_transactional_tables:
  assumes "store_transactional E c req u imp tags cat st db = Ok (i, db')"
  obtains db1 v root created where "db1 = db \<or> (\<exists>p. db1 = supersede p u db)"
    "insert_memory E (stored_row E c req u imp tags cat st v root created) db1 = Ok (i, db')"
proof (cases "sr_parent_memory_id req")
  case None
  with assms that [of db] show ?thesis by (auto simp: store_transactional_def split: option.splits sum.splits)
next
  case (Some p)
  with assms that [of "supersede p u db"] show ?thesis
    by (auto simp: store_transactional_def split: option.splits sum.splits if_splits)
qed

text \<open>The row a store adds has the largest id, so an update by that id touches it alone.\<close>

lemma stored_row_only:
  assumes wf: "wf_table m_id (memories db)" and ok: "store_transactional E c req u imp tags cat st db = Ok (i, db')"
  shows "others u db' = others u db" and "\<forall>r\<in>set (trows (memories db')). m_id r = i \<longrightarrow> m_user_id r = u"
proof -
  obtain db1 v root created where db1: "db1 = db \<or> (\<exists>p. db1 = supersede p u db)"
    and ins: "insert_memory E (stored_row E c req u imp tags cat st v root created) db1 = Ok (i, db')"
    using ok by (rule store_transactional_tables)
  show "others u db' = others u db"
    using db1 others_insert [OF ins, of u] by (auto simp: stored_row_def)
  have old: "m_id r \<le> tseq (memories db1)" if "r \<in> set (trows (memories db1))" for r
    using db1 that wf by (auto simp: wf_table_def supersede_def upd_memories_def table_simps split: if_splits)
  obtain new where "trows (memories db') = trows (memories db1) @ [new]" "i = tseq (memories db1) + 1" "m_user_id new = u"
    using ins by (auto simp: insert_memory_def Let_def insert_row_def stored_row_def split: if_splits)
  then show "\<forall>r\<in>set (trows (memories db')). m_id r = i \<longrightarrow> m_user_id r = u"
    using old by fastforce
qed

lemma others_store:
  assumes wf: "wf_table m_id (memories db)" and u: "sr_user_id req = Some u"
  shows "others u (snd (store E B req quota ro db)) = others u db"
proof -
  have tx: "others u (after_store E B r c i db') = others u db" if tx_ok: "store_tx E c r u imp st quota db = Ok (i, db')" for c r imp st i db'
  proof -
    obtain db1 where db1: "store_transactional E c r u imp (stored_tags E c (sr_tags r)) (stored_category E c (sr_category r)) st db
        = Ok (i, db1)" "memories db' = memories db1"
      using tx_ok by (auto simp: store_tx_def split: sum.splits option.splits if_splits)
    have "others u db' = others u db" using stored_row_only(1) [OF wf db1(1)] rows_of_memories [OF db1(2)] by simp
    moreover have "others u (store_valence E i c db2) = others u db'" if m: "memories db2 = memories db'" for db2
    proof -
      have "others u (store_valence E i c db2) = others u db2"
        using stored_row_only(2) [OF wf db1(1)] m db1(2) by (auto simp: store_valence_def Let_def intro!: rows_of_upd)
      then show ?thesis using rows_of_memories [OF m] by simp
    qed
    ultimately show ?thesis by (simp add: after_store_def Let_def mem_frame split: option.split)
  qed
  show ?thesis using u by (auto simp: store_def Let_def split: option.split sum.split intro!: tx)
qed

lemma others_update [simp]: "others u (snd (update_memory E B i req u counters db)) = others u db"
proof -
  have "others u (snd (update_commit E B p db)) = others u db" if p: "up_user p = u" for p
  proof (cases "update_tx E p db")
    case (Inr res)
    then obtain i db1 blob db2 where r: "res = (i, db1)" "memories db1 = memories db2"
      and ins: "insert_memory E (new_version E p blob) (supersede (up_id p) u db) = Ok (i, db2)"
      using p by (auto simp: update_tx_def update_transactional_def Let_def split: sum.splits if_splits)
    have "others u db2 = others u db" using others_insert [OF ins, of u] p by (simp add: new_version_def Let_def)
    then show ?thesis using Inr r rows_of_memories [OF r(2)] by (simp add: update_commit_def Let_def)
  qed (simp add: update_commit_def)
  moreover have "up_user p = u" if "update_read E i req u counters db = Ok p" for p
    using that by (auto simp: update_read_def Let_def split: option.splits if_splits)
  ultimately show ?thesis by (auto simp: update_memory_def split: sum.split)
qed

lemma others_tags:
  assumes wf: "wf_table m_id (memories db)"
  shows "others u (snd (update_memory_tags E i u tags db)) = others u db"
proof (cases "get_memory i u db")
  case (Pair res db1)
  show ?thesis
  proof (cases res)
    case (Inl e)
    then show ?thesis using Pair others_get [of u i db] by (simp add: update_memory_tags_def)
  next
    case (Inr m)
    then have "get_memory i u db = (Ok m, db1)" using Pair by simp
    then obtain r where r: "r \<in> set (trows (memories db))" "m_id r = i" "m_user_id r = u"
      and db1: "db1 = upd_memories (owned_memory i u) (\<lambda>r. r\<lparr>m_access_count := m_access_count r + 1,
         m_last_accessed_at := Some (now db), m_updated_at := now db\<rparr>) db"
      by (rule get_memory_Ok)
    have "m_user_id x = u" if "x \<in> set (trows (memories db))" "m_id x = i" for x
      using wf_table_unique [OF wf r(1) that(1)] r that(2) by simp
    then have "m_user_id x = u" if "x \<in> set (trows (memories db1))" "m_id x = i" for x
      using that by (auto simp: db1 upd_memories_def table_simps split: if_splits)
    then have "others u (upd_memories (\<lambda>r. m_id r = i) (\<lambda>r. r\<lparr>m_tags := ts, m_updated_at := now db\<rparr>) db1) = others u db1" for ts
      by (intro rows_of_upd) simp_all
    then show ?thesis using Pair Inr others_get [of u i db] by (simp add: update_memory_tags_def Let_def)
  qed
qed

lemma edit_sets_user: "edit_sets E c cat imp tg t = Ok f \<Longrightarrow> m_user_id (f r) = m_user_id r"
  by (auto simp: map_sum_Ok edit_sets_def Let_def split: option.splits sum.splits if_splits)

lemma user_call_others:
  assumes "wf_table m_id (memories db)" "user_call E u db db'"
  shows "others u db' = others u db"
  using assms(2)
proof cases
  case u_edit
  then show ?thesis
    by (auto simp: edit_and_approve_def pending_memory_def owned_memory_def edit_sets_user split: sum.split intro!: rows_of_upd)
next
  case u_store
  then show ?thesis using others_store [OF assms(1)] by simp
next
  case u_tags
  then show ?thesis using others_tags [OF assms(1)] by simp
qed (auto simp: delete_memory_def restore_def mark_forgotten_def set_archived_def
    update_forget_reason_def adjust_importance_def update_source_count_def approve_memory_def reject_memory_def Let_def
    owned_memory_def pending_memory_def intro!: rows_of_upd_all)

text \<open>A query whose condition implies the owner reads the owner's rows only.\<close>

lemma select_own:
  assumes "rows_of (\<lambda>v. v = u) db1 = rows_of (\<lambda>v. v = u) db2" "\<And>r. P r \<Longrightarrow> m_user_id r = u"
  shows "select_where P (memories db1) = select_where P (memories db2)"
proof -
  have "select_where P (memories db) = filter P (rows_of (\<lambda>v. v = u) db)" for db
    using assms(2) by (auto simp: select_where_def rows_of_def intro!: filter_cong)
  with assms(1) show ?thesis by simp
qed

lemma find_own:
  assumes "rows_of (\<lambda>v. v = u) db1 = rows_of (\<lambda>v. v = u) db2" "\<And>r. P r \<Longrightarrow> m_user_id r = u"
  shows "find_where P (memories db1) = find_where P (memories db2)"
proof -
  have "List.find P xs = List.find P (filter P xs)" for xs by (induction xs) auto
  moreover have "filter P (trows (memories db1)) = filter P (trows (memories db2))"
    using select_own [OF assms(1), of P] assms(2) unfolding select_where_def by blast
  ultimately show ?thesis unfolding find_where_def by metis
qed

text \<open>
  Property C6. Memories are private to their owner. A call of one user leaves the rows of all others as they are,
  and what a user reads (a memory, listings, the calendar, recall tiers, trash, tags, the inbox) depends on that
  user's own rows only.
\<close>

theorem memories_are_private:
  "(wf_table m_id (memories db) \<and> user_call E u db db' \<longrightarrow> rows_of (\<lambda>v. v \<noteq> u) db' = rows_of (\<lambda>v. v \<noteq> u) db)
   \<and> (rows_of (\<lambda>v. v = u) db1 = rows_of (\<lambda>v. v = u) db2 \<longrightarrow>
       fst (get_memory i u db1) = fst (get_memory i u db2)
     \<and> list_memories (opts\<lparr>lo_user_id := Some u\<rparr>) db1 = list_memories (opts\<lparr>lo_user_id := Some u\<rparr>) db2
     \<and> list_static u space l db1 = list_static u space l db2
     \<and> list_important u space n l db1 = list_important u space n l db2
     \<and> list_trashed u l db1 = list_trashed u l db2
     \<and> calendar_counts E u g y m db1 = calendar_counts E u g y m db2
     \<and> list_all_tags E u db1 = list_all_tags E u db2
     \<and> search_by_tags E u tags match_all l db1 = search_by_tags E u tags match_all l db2
     \<and> inbox_list_pending u li off db1 = inbox_list_pending u li off db2)"
proof (intro conjI impI)
  show "rows_of (\<lambda>v. v \<noteq> u) db' = rows_of (\<lambda>v. v \<noteq> u) db"
    if "wf_table m_id (memories db) \<and> user_call E u db db'" using that user_call_others by blast
  assume own: "rows_of (\<lambda>v. v = u) db1 = rows_of (\<lambda>v. v = u) db2"
  note sel = select_own [OF own]
  show "fst (get_memory i u db1) = fst (get_memory i u db2)"
    using find_own [OF own, of "\<lambda>r. m_id r = i \<and> (\<not> m_is_forgotten r \<and> \<not> m_is_archived r) \<and> m_user_id r = u"]
    by (simp add: get_memory_def get_internal_def split: option.split)
  show "list_memories (opts\<lparr>lo_user_id := Some u\<rparr>) db1 = list_memories (opts\<lparr>lo_user_id := Some u\<rparr>) db2"
    using sel [of "list_condition (opts\<lparr>lo_user_id := Some u\<rparr>) u"] by (simp add: list_memories_def list_condition_def)
  show "list_static u space l db1 = list_static u space l db2"
    using sel [of "\<lambda>r. active_memory u r \<and> m_is_static r \<and> in_space space r"] by (simp add: list_static_def active_memory_def)
  show "list_important u space n l db1 = list_important u space n l db2"
    using sel [of "\<lambda>r. active_memory u r \<and> n \<le> m_importance r \<and> in_space space r"] by (simp add: list_important_def active_memory_def)
  show "list_trashed u l db1 = list_trashed u l db2"
    using sel [of "\<lambda>r. m_user_id r = u \<and> in_trash r"] by (simp add: list_trashed_def)
  have "calendar_rows E u ps db1 = calendar_rows E u ps db2" for ps
    unfolding calendar_rows_def by (rule sel) (simp add: active_memory_def)
  then show "calendar_counts E u g y m db1 = calendar_counts E u g y m db2"
    by (simp add: calendar_counts_def split: option.split)
  show "list_all_tags E u db1 = list_all_tags E u db2"
    using sel [of "\<lambda>r. tag_rows u r \<and> m_tags r \<noteq> Some ''[]''"] by (simp add: list_all_tags_def tag_rows_def)
  show "search_by_tags E u tags match_all l db1 = search_by_tags E u tags match_all l db2"
    using sel [of "tag_rows u"] by (simp add: search_by_tags_def tag_rows_def)
  show "inbox_list_pending u li off db1 = inbox_list_pending u li off db2"
    using sel [of "inbox_condition u"] by (simp add: inbox_list_pending_def inbox_condition_def)
qed

theorem memories_are_private_witness:
  "rows_of (\<lambda>v. v \<noteq> 8) (snd (delete_memory good_backend 1 8 demo_stored)) = [tea]
   \<and> list_static 8 None 5 demo_stored = list_static 8 None 5 demo_db"
proof -
  have "wf_table m_id (memories demo_stored)"
    by (simp add: demo_stored_eq demo_db_def tea_simps wf_table_def)
  moreover have "user_call demo_env 8 demo_stored (snd (delete_memory good_backend 1 8 demo_stored))" by (rule u_delete)
  moreover have "rows_of (\<lambda>v. v = 8) demo_stored = rows_of (\<lambda>v. v = 8) demo_db" "rows_of (\<lambda>v. v \<noteq> 8) demo_stored = [tea]"
    by (simp_all add: demo_stored_eq demo_db_def tea_simps rows_of_def empty_table_def)
  ultimately show ?thesis
    using memories_are_private [of demo_stored demo_env 8 "snd (delete_memory good_backend 1 8 demo_stored)" demo_stored demo_db]
    by simp
qed

section \<open>Reviews\<close>


text \<open>Every operation other than a decision leaves the statuses of the rows there are alone.\<close>

definition statuses_kept :: "mem_db \<Rightarrow> mem_db \<Rightarrow> bool" where
  "statuses_kept db db' \<longleftrightarrow> (\<forall>r'\<in>set (trows (memories db')). m_id r' \<le> mseq db \<longrightarrow>
     (\<exists>r\<in>set (trows (memories db)). m_id r = m_id r' \<and> m_status r = m_status r'))"

lemma statuses_kept_memories: "memories db' = memories db \<Longrightarrow> statuses_kept db db'"
  by (auto simp: statuses_kept_def)

lemma statuses_kept_refl [simp]: "statuses_kept db db"
  by (simp add: statuses_kept_memories)



lemma statuses_kept_frame [simp]:
  "statuses_kept db (mark_pagerank_dirty d db1) \<longleftrightarrow> statuses_kept db db1"
  "statuses_kept db (index_delete B i db1) \<longleftrightarrow> statuses_kept db db1"
  "statuses_kept db (delete_chunk_vectors B i db1) \<longleftrightarrow> statuses_kept db db1"
  by (simp_all add: statuses_kept_def mem_frame)
































section \<open>Trash\<close>

lemma find_where_update:
  assumes wf: "wf_table m_id t" and r: "r \<in> set (trows t)" "m_id r = i" "P r" and f: "\<And>x. m_id (f x) = m_id x"
  shows "find_where (\<lambda>x. m_id x = i) (update_where P f t) = Some (f r)"
  using wf_table_find [OF wf_update_where [of m_id t f P, OF wf f], of "f r"] update_where_row [of r t P f] r f by simp

lemma filter_update_other:
  assumes "\<And>x. P x \<Longrightarrow> m_id x = i" "\<And>x. m_id (f x) = m_id x"
  shows "filter (\<lambda>x. m_id x \<noteq> i) (trows (update_where P f t)) = filter (\<lambda>x. m_id x \<noteq> i) (trows t)"
proof -
  have "filter (\<lambda>x. m_id x \<noteq> i) (map (\<lambda>x. if P x then f x else x) xs) = filter (\<lambda>x. m_id x \<noteq> i) xs" for xs
    using assms by (induction xs) auto
  then show ?thesis by (simp add: table_simps)
qed

text \<open>What a delete, a restore and an access write.\<close>

definition deleted_at :: "int \<Rightarrow> memory \<Rightarrow> memory" where
  "deleted_at t r = r\<lparr>m_is_forgotten := True, m_forget_reason := Some ''user_deleted'', m_updated_at := t\<rparr>"

definition restored_at :: "int \<Rightarrow> memory \<Rightarrow> memory" where
  "restored_at t r = r\<lparr>m_is_forgotten := False, m_forget_reason := None, m_updated_at := t\<rparr>"

definition accessed_at :: "int \<Rightarrow> memory \<Rightarrow> memory" where
  "accessed_at t r = r\<lparr>m_access_count := m_access_count r + 1, m_last_accessed_at := Some t, m_updated_at := t\<rparr>"

lemma trash_ids [simp]: "m_id (deleted_at t r) = m_id r" "m_id (restored_at t r) = m_id r" "m_id (accessed_at t r) = m_id r"
  by (simp_all add: deleted_at_def restored_at_def accessed_at_def)

text \<open>
  Property C33. A restore undoes a delete. After the owner deletes a memory and restores it, at any later time, its
  row is as before except for the forget reason (cleared), the time stamps and the access counter; every other row
  is unchanged, the ledger asks for the vector to be put back, and the call returns the memory unless it is
  archived.
\<close>

theorem restore_undoes_delete:
  assumes wf: "wf_table m_id (memories db)" and r: "r \<in> set (trows (memories db))" "m_id r = i" "m_user_id r = u" "\<not> m_is_forgotten r"
    and "delete_memory B i u db = (Ok (), db1)" "restore i u (db1\<lparr>now := t\<rparr>) = (res, db2)"
  shows "(\<exists>r'. find_where (\<lambda>x. m_id x = i) (memories db2) = Some r'
        \<and> r'\<lparr>m_forget_reason := m_forget_reason r, m_updated_at := m_updated_at r, m_access_count := m_access_count r,
             m_last_accessed_at := m_last_accessed_at r\<rparr> = r \<and> m_forget_reason r' = None)
    \<and> filter (\<lambda>x. m_id x \<noteq> i) (trows (memories db2)) = filter (\<lambda>x. m_id x \<noteq> i) (trows (memories db))
    \<and> (\<exists>v\<in>set (trows (vector_sync_pending db2)). v_memory_id v = i \<and> v_op v = ''insert'')
    \<and> ((\<exists>m. res = Ok m) \<longleftrightarrow> \<not> m_is_archived r)"
proof -
  let ?P1 = "\<lambda>r. owned_memory i u r \<and> \<not> m_is_forgotten r" and ?P2 = "\<lambda>r. owned_memory i u r \<and> in_trash r"
  define t1 where "t1 = update_where ?P1 (deleted_at (now db)) (memories db)"
  define t2 where "t2 = update_where ?P2 (restored_at t) t1"
  have m1: "memories db1 = t1"
    using assms(6) by (auto simp: delete_memory_def Let_def mem_frame upd_memories_def t1_def deleted_at_def [abs_def] split: if_splits)
  have wf1: "wf_table m_id t1" and wf2: "wf_table m_id t2" using wf by (simp_all add: t1_def t2_def wf_update_where)
  have r1: "deleted_at (now db) r \<in> set (trows t1)" "?P2 (deleted_at (now db) r)"
    using r update_where_row [of r "memories db" ?P1 "deleted_at (now db)"]
    by (simp_all add: t1_def owned_memory_def in_trash_def) (simp_all add: deleted_at_def)
  define r2 where "r2 = restored_at t (deleted_at (now db) r)"
  have r2: "r2 \<in> set (trows t2)" "owned_memory i u r2" "\<not> m_is_forgotten r2" "m_is_archived r2 = m_is_archived r" "m_id r2 = i"
    using r1 r update_where_row [of _ t1 ?P2 "restored_at t", OF r1]
    by (simp_all add: t2_def r2_def owned_memory_def restored_at_def deleted_at_def)
  let ?db = "record_vector_sync_failure i ''insert'' ''restore-reinsert'' (upd_memories ?P2 (restored_at t) (db1\<lparr>now := t\<rparr>))"
  have "count_where ?P2 t1 \<noteq> 0" using r1 unfolding count_where_pos by blast
  then have get: "get_memory i u ?db = (res, db2)"
    using assms(7) by (simp add: restore_def Let_def m1 restored_at_def [abs_def])
  have m: "memories ?db = t2" "now ?db = t" by (simp_all add: mem_frame upd_memories_def m1 t2_def)
  have ledger: "\<exists>v\<in>set (trows (vector_sync_pending db2)). v_memory_id v = i \<and> v_op v = ''insert''"
  proof -
    have "vector_sync_pending db2 = vector_sync_pending ?db"
      using get by (auto simp: get_memory_def get_internal_def upd_memories_def split: option.splits)
    then show ?thesis by (simp add: record_vector_sync_failure_def insert_row_def)
  qed
  have others: "filter (\<lambda>x. m_id x \<noteq> i) (trows t2) = filter (\<lambda>x. m_id x \<noteq> i) (trows (memories db))"
    unfolding t2_def t1_def by (rule trans [OF filter_update_other filter_update_other]) (simp_all add: owned_memory_def)
  have look: "find_where (\<lambda>x. m_id x = i \<and> (\<not> m_is_forgotten x \<and> \<not> m_is_archived x) \<and> m_user_id x = u) t2
      = (if m_is_archived r then None else Some r2)"
  proof (cases "m_is_archived r")
    case True
    then show ?thesis using wf_table_unique [OF wf2 r2(1)] r2 by (fastforce simp: find_where_None)
  next
    case False
    then show ?thesis
      using wf_table_find2 [OF wf2 r2(1), of "\<lambda>x. (\<not> m_is_forgotten x \<and> \<not> m_is_archived x) \<and> m_user_id x = u"] r2
      by (simp add: owned_memory_def)
  qed
  have back_to_r: "r2\<lparr>m_forget_reason := m_forget_reason r, m_updated_at := m_updated_at r, m_access_count := m_access_count r,
      m_last_accessed_at := m_last_accessed_at r\<rparr> = r" "m_forget_reason r2 = None"
    using r(4) by (simp_all add: r2_def restored_at_def deleted_at_def)
  show ?thesis
  proof (cases "m_is_archived r")
    case True
    then have "memories db2 = t2" "\<exists>e. res = Err e" using get look m by (auto simp: get_memory_def get_internal_def)
    then show ?thesis using True others ledger back_to_r wf_table_find [OF wf2 r2(1)] r2(5) by auto
  next
    case False
    then have db2: "memories db2 = update_where (owned_memory i u) (accessed_at t) t2" "\<exists>m. res = Ok m"
      using get look m by (auto simp: get_memory_def get_internal_def upd_memories_def accessed_at_def [abs_def])
    then have "find_where (\<lambda>x. m_id x = i) (memories db2) = Some (accessed_at t r2)"
      using find_where_update [OF wf2 r2(1,5), of "owned_memory i u" "accessed_at t"] r2(2) by simp
    moreover have "(accessed_at t r2)\<lparr>m_forget_reason := m_forget_reason r, m_updated_at := m_updated_at r,
        m_access_count := m_access_count r, m_last_accessed_at := m_last_accessed_at r\<rparr> = r"
      using back_to_r(1) by (simp add: accessed_at_def)
    moreover have "filter (\<lambda>x. m_id x \<noteq> i) (trows (memories db2)) = filter (\<lambda>x. m_id x \<noteq> i) (trows t2)"
      unfolding db2(1) by (rule filter_update_other) (simp_all add: owned_memory_def)
    ultimately show ?thesis using False others ledger db2(2) back_to_r(2) by (auto simp: accessed_at_def)
  qed
qed

theorem restore_undoes_delete_witness:
  "\<exists>db1 db2 m. delete_memory good_backend 1 7 demo_stored = (Ok (), db1) \<and> restore 1 7 (db1\<lparr>now := 60\<rparr>) = (Ok m, db2)
     \<and> (\<exists>v\<in>set (trows (vector_sync_pending db2)). v_memory_id v = 1 \<and> v_op v = ''insert'')"
proof -
  have wf: "wf_table m_id (memories demo_stored)" by (simp add: demo_stored_eq demo_db_def tea_simps wf_table_def)
  have r: "tea \<in> set (trows (memories demo_stored))" "m_id tea = 1" "m_user_id tea = 7" "\<not> m_is_forgotten tea" "\<not> m_is_archived tea"
    by (simp_all add: demo_stored_eq demo_db_def) (simp_all add: tea_simps)
  obtain db1 where db1: "delete_memory good_backend 1 7 demo_stored = (Ok (), db1)"
    using r by (auto simp: delete_memory_def Let_def count_where_def owned_memory_def demo_stored_eq demo_db_def)
  obtain res db2 where res: "restore 1 7 (db1\<lparr>now := 60\<rparr>) = (res, db2)" by fastforce
  from restore_undoes_delete [OF wf r(1-4) db1 res] r(5) show ?thesis using db1 res by blast
qed

section \<open>Corner cases\<close>

text \<open>A restore of an archived memory takes effect and reports that the memory was not found.\<close>

lemma restore_of_archived_reports_error:
  "let db = demo_stored\<lparr>memories := \<lparr>trows = [deleted_at 0 (tea\<lparr>m_is_archived := True\<rparr>)], tseq = 1\<rparr>\<rparr> in
   fst (restore 1 7 db) = Err (NotFound ''memory 1 not found'') \<and> map m_is_forgotten (trows (memories (snd (restore 1 7 db)))) = [False]"
proof -
  have "show_int 1 = ''1''" by (simp add: show_int_def show_nat.simps digit_char_def) code_simp
  then show ?thesis
    by (simp add: demo_stored_eq demo_db_def tea_simps deleted_at_def restore_def in_trash_def owned_memory_def count_where_def Let_def
        get_memory_def get_internal_def find_where_def record_vector_sync_failure_def upd_memories_def update_where_def insert_row_def)
qed

text \<open>Two texts with no ASCII letter or digit have the same fingerprint, so the second is taken for a copy of the
  first and is not stored.\<close>

lemma non_ascii_memories_collide:
  assumes "\<forall>c\<in>set (to_lowercase (me_unicode E) (m_content r)). \<not> ascii_alphanumeric c"
    and "\<forall>c\<in>set (to_lowercase (me_unicode E) (str_trim (me_unicode E) (sr_content req))). \<not> ascii_alphanumeric c"
    and "str_trim (me_unicode E) (sr_content req) \<noteq> []" "length (str_trim (me_unicode E) (sr_content req)) \<le> MAX_CONTENT_SIZE"
    and "sr_user_id req = Some u" "sr_parent_memory_id req = None"
    and "memories db = \<lparr>trows = [r], tseq = n\<rparr>" "dup_candidate u (sr_space_id req) r"
  shows "store E B req quota False db = (Ok \<lparr>res_id = m_id r, res_created = False, res_duplicate_of = Some (m_id r), res_pending = False\<rparr>, db)"
  using assms by (simp add: store_def Let_def find_duplicate_memory_def select_where_def simhash_no_ascii)

text \<open>The threshold named in the hash module counts distance 3 as a duplicate; the store does not.\<close>

lemma threshold_differs: "hamming_distance 0 7 \<le> SIMHASH_THRESHOLD \<and> \<not> hamming_distance 0 7 < 3"
  by (simp add: SIMHASH_THRESHOLD_def hamming_distance_def upt_rec bit_simps bit_numeral_rec)

text \<open>A tag asked for twice is counted twice, and then no memory has all tags.\<close>

lemma repeated_tag_matches_nothing:
  assumes "normal_tags E tags = [t, t]"
  shows "\<not> has_tags E (normal_tags E tags) True r"
proof -
  have "length (remdups (filter (\<lambda>x. x \<in> set [t, t]) ts)) \<noteq> Suc (Suc 0)" for ts
  proof -
    have "card (set (filter (\<lambda>x. x \<in> set [t, t]) ts)) \<le> card {t}" by (rule card_mono) auto
    then show ?thesis by (simp add: length_remdups_card_conv)
  qed
  then show ?thesis using assms by (simp add: has_tags_def split: option.split)
qed

text \<open>Lowering the importance can leave the supported range.\<close>

lemma importance_below_range:
  "map m_importance (trows (memories (snd (adjust_importance 1 7 (- 9) demo_stored)))) = [0] \<and> 0 < MIN_IMPORTANCE"
  by (simp add: demo_stored_eq demo_db_def tea_simps adjust_importance_def count_where_def owned_memory_def upd_memories_def
      update_where_def MIN_IMPORTANCE_def Let_def)

text \<open>An update is not held to the quota: its transaction only moves the counter.\<close>

lemma update_ignores_quota:
  assumes "update_transactional E p db = Ok (i, db')" "up_counters p" "content_bytes db' = Some n" "0 \<le> n"
    "length (m_content (up_old p)) < length (up_content p)"
  shows "\<exists>db''. update_tx E p db = Ok (i, db'')
    \<and> content_bytes db'' = Some (n + (int (length (up_content p)) - int (length (m_content (up_old p)))))"
  using assms by (auto simp: update_tx_def Let_def)

text \<open>An old version in the trash blocks the purge of everything as long as its successor is there.\<close>

lemma purge_blocked_by_successor:
  assumes "r \<in> set (trows (memories db))" "\<not> purgeable days db r" "m_parent_memory_id r = Some (m_id d)"
    and "d \<in> set (trows (memories db))" "purgeable days db d"
  shows "purge_trashed E days counters db = (Err (Database (fk_error E)), db)"
proof -
  have "points_to (purgeable days db) db (m_parent_memory_id r)" using assms by (auto simp: points_to_def)
  then show ?thesis using assms(1,2) by (auto simp: purge_trashed_def delete_memories_def Let_def)
qed

text \<open>The quota counter is raised by bytes and lowered by characters.\<close>

lemma counter_units_differ: "length [CHR 0xC3, CHR 0xA9] = 2 \<and> sql_length [CHR 0xC3, CHR 0xA9] = 1"
  by (simp add: sql_length_def char_count_def is_char_start_def is_continuation_def)

end
