(* ===== verification/Api_Keys.thy ===== *)
theory Api_Keys
  imports Utf8 Tenant_Ids
begin

text \<open>
  API keys (\<^verbatim>\<open>kleos-lib/src/auth.rs\<close>): minting, the four prefixes a key may carry, hashing with and without a pepper,
  validation of a request's key, revocation. SHA-256 (its hexadecimal digest), the random bytes, chrono's parsers and
  the loaded pepper are arguments. Instants are seconds.
\<close>

section \<open>Data\<close>

definition HASH_VERSION_LEGACY :: int where
  "HASH_VERSION_LEGACY = 1"

definition HASH_VERSION_PEPPERED :: int where
  "HASH_VERSION_PEPPERED = 2"

datatype scope = Read | Write | Admin

fun scope_to_string :: "scope \<Rightarrow> string" where
  "scope_to_string Read = ''read''"
| "scope_to_string Write = ''write''"
| "scope_to_string Admin = ''admin''"

record key_row =
  kr_id :: int
  kr_user_id :: int
  kr_key_prefix :: string
  kr_key_hash :: string
  kr_name :: string
  kr_scopes :: string
  kr_rate_limit :: int
  kr_is_active :: bool
  kr_agent_id :: "int option"
  kr_last_used_at :: "int option"
  kr_expires_at :: "string option"
  kr_created_at :: int
  kr_hash_version :: int

record api_key =
  key_id :: int
  key_user_id :: int
  key_prefix :: string
  key_name :: string
  key_scopes :: "scope list"
  key_rate_limit :: int
  key_is_active :: bool
  key_agent_id :: "int option"
  key_last_used_at :: "int option"
  key_expires_at :: "string option"
  key_created_at :: int
  key_hash_version :: int

record auth_context =
  ac_key :: api_key
  ac_user_id :: int
  ac_act_as :: "int option"

record user_row =
  us_id :: int
  us_username :: string
  us_email :: "string option"
  us_role :: string
  us_is_active :: bool

record auth_db = database +
  api_keys :: "key_row table"
  users :: "user_row table"

record key_env =
  ke_unicode :: unicode
  sha256_hex :: "string \<Rightarrow> string"
  ke_pepper :: "string option"
  debug_assertions :: bool
  parse_naive :: "string \<Rightarrow> int option"
  parse_rfc3339 :: "string \<Rightarrow> int option"
  format_datetime :: "int \<Rightarrow> string"
  key_fk_error :: string
  i32_error :: string

section \<open>The pepper\<close>

text \<open>
  \<^verbatim>\<open>get_pepper\<close>: 64 hexadecimal digits in the environment. The pairs are cut out by byte positions, so None stands
  for the panic of a setting of 64 bytes with a longer character across a cut.
\<close>

definition pepper_pairs :: "string \<Rightarrow> string list option" where
  "pepper_pairs hex = those (map (\<lambda>i. slice hex (i * 2) (i * 2 + 2)) [0..<32])"

definition get_pepper :: "string option \<Rightarrow> string option option" where
  "get_pepper setting = (case setting of
     None \<Rightarrow> Some None
   | Some hex \<Rightarrow>
       if length hex \<noteq> 64 then Some None
       else map_option (\<lambda>pairs. map_option (map char_of) (those (map (from_str_radix 8 16) pairs))) (pepper_pairs hex))"

section \<open>Scopes\<close>

definition scope_from_str :: "unicode \<Rightarrow> string \<Rightarrow> scope result" where
  "scope_from_str U s =
     (let l = to_lowercase U s in
      if l = ''read'' then Ok Read else if l = ''write'' then Ok Write else if l = ''admin'' then Ok Admin
      else Err (InvalidInput (''unknown scope: '' @ s)))"

definition has_scope :: "auth_context \<Rightarrow> scope \<Rightarrow> bool" where
  "has_scope ctx s \<longleftrightarrow> s \<in> set (key_scopes (ac_key ctx)) \<or> Admin \<in> set (key_scopes (ac_key ctx))"

definition effective_user_id :: "auth_context \<Rightarrow> int" where
  "effective_user_id ctx = (case ac_act_as ctx of None \<Rightarrow> ac_user_id ctx | Some u \<Rightarrow> u)"

fun parse_parts :: "unicode \<Rightarrow> string list \<Rightarrow> scope list \<Rightarrow> scope list" where
  "parse_parts U [] out = out"
| "parse_parts U (part # parts) out =
     (let p = trim_white part in
      if p = [] then parse_parts U parts out
      else if p = ''*'' then [Read, Write, Admin]
      else case scope_from_str U p of Ok s \<Rightarrow> parse_parts U parts (out @ [s]) | Err _ \<Rightarrow> parse_parts U parts out)"

definition parse_scopes :: "unicode \<Rightarrow> string \<Rightarrow> scope list" where
  "parse_scopes U s =
     (let trimmed = trim_white s in
      if trimmed = ''*'' then [Read, Write, Admin] else parse_parts U (split_comma [] trimmed) [])"

definition scopes_to_string :: "scope list \<Rightarrow> string" where
  "scopes_to_string scopes = join '','' (map scope_to_string scopes)"

section \<open>Keys\<close>

definition hash_key_v1 :: "key_env \<Rightarrow> string \<Rightarrow> string" where
  "hash_key_v1 E raw = sha256_hex E raw"

definition hash_key_v2 :: "key_env \<Rightarrow> string \<Rightarrow> string option" where
  "hash_key_v2 E raw = map_option (\<lambda>pepper. sha256_hex E (pepper @ raw)) (ke_pepper E)"

definition is_ascii_hexdigit :: "char \<Rightarrow> bool" where
  "is_ascii_hexdigit c \<longleftrightarrow> is_ascii_digit c \<or> CHR ''a'' \<le> c \<and> c \<le> CHR ''f'' \<or> CHR ''A'' \<le> c \<and> c \<le> CHR ''F''"

definition hex_portion :: "string \<Rightarrow> string option" where
  "hex_portion raw =
     (case strip_prefix ''kleos_'' raw of
        Some rest \<Rightarrow> Some rest
      | None \<Rightarrow> (case strip_prefix ''kl_'' raw of
          Some rest \<Rightarrow> Some rest
        | None \<Rightarrow> (case strip_prefix ''engram_'' raw of
            Some rest \<Rightarrow> Some rest
          | None \<Rightarrow> strip_prefix ''eg_'' raw)))"

definition normalize_key :: "string \<Rightarrow> string option" where
  "normalize_key raw =
     (case hex_portion raw of
        None \<Rightarrow> None
      | Some hex \<Rightarrow>
          if (length hex = 32 \<or> length hex = 64) \<and> list_all is_ascii_hexdigit hex
          then Some (''kleos_'' @ to_ascii_lowercase hex) else None)"

text \<open>\<^verbatim>\<open>generate_key\<close>, with the sixteen random bytes as an argument: the key, its prefix, hash and hash version.\<close>

definition no_pepper :: eng_error where
  "no_pepper = Internal (''ENGRAM_API_KEY_PEPPER must be set to mint API keys in release builds. ''
     @ ''Set a 32+ random byte value and restart.'')"

definition generate_key :: "key_env \<Rightarrow> 8 word list \<Rightarrow> (string \<times> string \<times> string \<times> int) result" where
  "generate_key E raw =
     (let raw_hex = concat (map hex_encode_byte raw);
          full_key = ''kleos_'' @ raw_hex;
          pre = take 8 raw_hex
      in case hash_key_v2 E full_key of
           Some h \<Rightarrow> Ok (full_key, pre, h, HASH_VERSION_PEPPERED)
         | None \<Rightarrow> if \<not> debug_assertions E then Err no_pepper
             else Ok (full_key, pre, hash_key_v1 E full_key, HASH_VERSION_LEGACY))"

section \<open>Operations\<close>

text \<open>Reading a row: a rate limit beyond an \<^verbatim>\<open>i32\<close> does not convert.\<close>

definition row_to_api_key :: "key_env \<Rightarrow> key_row \<Rightarrow> api_key result" where
  "row_to_api_key E r =
     (if - (2 ^ 31) \<le> kr_rate_limit r \<and> kr_rate_limit r < 2 ^ 31
      then Ok \<lparr>key_id = kr_id r, key_user_id = kr_user_id r, key_prefix = kr_key_prefix r, key_name = kr_name r,
        key_scopes = parse_scopes (ke_unicode E) (kr_scopes r), key_rate_limit = kr_rate_limit r,
        key_is_active = kr_is_active r, key_agent_id = kr_agent_id r, key_last_used_at = kr_last_used_at r,
        key_expires_at = kr_expires_at r, key_created_at = kr_created_at r, key_hash_version = kr_hash_version r\<rparr>
      else Err (Database (i32_error E)))"

definition parse_expiry :: "key_env \<Rightarrow> string \<Rightarrow> int option" where
  "parse_expiry E s = (case parse_naive E s of Some t \<Rightarrow> Some t | None \<Rightarrow> parse_rfc3339 E s)"

definition user_exists :: "auth_db \<Rightarrow> int \<Rightarrow> bool" where
  "user_exists db u \<longleftrightarrow> (\<exists>r\<in>set (trows (users db)). us_id r = u)"

definition user_active :: "auth_db \<Rightarrow> int \<Rightarrow> bool" where
  "user_active db u \<longleftrightarrow> (\<exists>r\<in>set (trows (users db)). us_id r = u \<and> us_is_active r)"

definition create_key_with_expiry ::
  "key_env \<Rightarrow> 8 word list \<Rightarrow> int \<Rightarrow> string \<Rightarrow> scope list \<Rightarrow> int option \<Rightarrow> string option \<Rightarrow> auth_db
     \<Rightarrow> (api_key \<times> string) result \<times> auth_db" where
  "create_key_with_expiry E raw user_id name scopes rate_limit expires_at db =
     (case generate_key E raw of
        Err e \<Rightarrow> (Err e, db)
      | Ok (full_key, pre, h, version) \<Rightarrow>
          if (case expires_at of None \<Rightarrow> False | Some s \<Rightarrow> parse_expiry E s = None)
          then (Err (InvalidInput ''invalid expires_at format''), db)
          else if \<not> user_exists db user_id then (Err (Database (key_fk_error E)), db)
          else
            (let limit = max (case rate_limit of None \<Rightarrow> 1000 | Some l \<Rightarrow> l) 1;
                 (i, t) = insert_row (\<lambda>i. \<lparr>kr_id = i, kr_user_id = user_id, kr_key_prefix = pre, kr_key_hash = h,
                   kr_name = name, kr_scopes = scopes_to_string scopes, kr_rate_limit = limit, kr_is_active = True,
                   kr_agent_id = None, kr_last_used_at = None, kr_expires_at = expires_at, kr_created_at = now db,
                   kr_hash_version = version\<rparr>) (api_keys db)
             in (case find_where (\<lambda>r. kr_key_prefix r = pre \<and> kr_key_hash r = h) t of
                   None \<Rightarrow> Err (Internal ''failed to fetch newly created key'')
                 | Some r \<Rightarrow> (case row_to_api_key E r of Err e \<Rightarrow> Err e | Ok k \<Rightarrow> Ok (k, full_key)),
                 db\<lparr>api_keys := t\<rparr>)))"

definition create_api_key ::
  "key_env \<Rightarrow> 8 word list \<Rightarrow> int \<Rightarrow> string \<Rightarrow> scope list \<Rightarrow> int option \<Rightarrow> auth_db \<Rightarrow> (api_key \<times> string) result \<times> auth_db" where
  "create_api_key E raw user_id name scopes rate_limit db = create_key_with_expiry E raw user_id name scopes rate_limit None db"

text \<open>The hashes a row of a version may have for a canonical key, the legacy form of the key last.\<close>

definition candidate_hashes :: "key_env \<Rightarrow> string \<Rightarrow> int \<Rightarrow> string list" where
  "candidate_hashes E normalized version =
     (let legacy = ''engram_'' @ drop 6 normalized in
      if version = HASH_VERSION_PEPPERED
      then (case (hash_key_v2 E normalized, hash_key_v2 E legacy) of (Some a, Some b) \<Rightarrow> [a, b] | _ \<Rightarrow> [])
      else if hash_key_v2 E normalized \<noteq> None then []
      else [hash_key_v1 E normalized, hash_key_v1 E legacy])"

definition key_matches :: "key_env \<Rightarrow> string \<Rightarrow> auth_db \<Rightarrow> key_row \<Rightarrow> bool" where
  "key_matches E normalized db r \<longleftrightarrow> kr_key_prefix r = take 8 (drop 6 normalized) \<and> kr_is_active r
     \<and> user_active db (kr_user_id r) \<and> kr_key_hash r \<in> set (candidate_hashes E normalized (kr_hash_version r))"

definition check_expiry :: "key_env \<Rightarrow> string option \<Rightarrow> int \<Rightarrow> unit result" where
  "check_expiry E expires_at t = (case expires_at of
     None \<Rightarrow> Ok ()
   | Some s \<Rightarrow> (case parse_expiry E s of
       None \<Rightarrow> Err (Auth ''invalid key expiry format'')
     | Some e \<Rightarrow> if e \<le> t then Err (Auth ''key has expired'') else Ok ()))"

definition touch_key :: "int \<Rightarrow> auth_db \<Rightarrow> auth_db" where
  "touch_key i db = db\<lparr>api_keys := update_where (\<lambda>r. kr_id r = i) (\<lambda>r. r\<lparr>kr_last_used_at := Some (now db)\<rparr>) (api_keys db)\<rparr>"

definition validate_key :: "key_env \<Rightarrow> string \<Rightarrow> auth_db \<Rightarrow> auth_context result \<times> auth_db" where
  "validate_key E raw_key db =
     (case normalize_key raw_key of
        None \<Rightarrow> (Err (Auth ''invalid key format''), db)
      | Some normalized \<Rightarrow>
          (case find_where (key_matches E normalized db) (api_keys db) of
             None \<Rightarrow> (Err (Auth ''invalid or revoked key''), db)
           | Some r \<Rightarrow>
               (case row_to_api_key E r of
                  Err e \<Rightarrow> (Err e, db)
                | Ok k \<Rightarrow>
                    (case check_expiry E (key_expires_at k) (now db) of
                       Err e \<Rightarrow> (Err e, db)
                     | Ok _ \<Rightarrow> (Ok \<lparr>ac_key = k, ac_user_id = key_user_id k, ac_act_as = None\<rparr>, touch_key (key_id k) db)))))"

definition upd_keys :: "(key_row \<Rightarrow> bool) \<Rightarrow> (key_row \<Rightarrow> key_row) \<Rightarrow> auth_db \<Rightarrow> auth_db" where
  "upd_keys P f db = db\<lparr>api_keys := update_where P f (api_keys db)\<rparr>"

definition revoke_api_key :: "int \<Rightarrow> int \<Rightarrow> auth_db \<Rightarrow> auth_db" where
  "revoke_api_key user_id i db = upd_keys (\<lambda>r. kr_id r = i \<and> kr_user_id r = user_id) (\<lambda>r. r\<lparr>kr_is_active := False\<rparr>) db"

definition revoke_key_admin :: "int \<Rightarrow> auth_db \<Rightarrow> auth_db" where
  "revoke_key_admin i db = upd_keys (\<lambda>r. kr_id r = i) (\<lambda>r. r\<lparr>kr_is_active := False\<rparr>) db"

definition get_active_key_by_id :: "key_env \<Rightarrow> int \<Rightarrow> auth_db \<Rightarrow> api_key result" where
  "get_active_key_by_id E i db =
     (case find_where (\<lambda>r. kr_id r = i \<and> kr_is_active r) (api_keys db) of
        None \<Rightarrow> Err (Auth ''invalid or revoked key'')
      | Some r \<Rightarrow> (case row_to_api_key E r of
          Err e \<Rightarrow> Err e
        | Ok k \<Rightarrow> (case check_expiry E (key_expires_at k) (now db) of Err e \<Rightarrow> Err e | Ok _ \<Rightarrow> Ok k)))"

text \<open>Collecting a list of rows stops at the first that does not convert.\<close>

fun read_keys :: "key_env \<Rightarrow> key_row list \<Rightarrow> api_key list result" where
  "read_keys E [] = Ok []"
| "read_keys E (r # rs) = (case row_to_api_key E r of
     Err e \<Rightarrow> Err e
   | Ok k \<Rightarrow> (case read_keys E rs of Err e \<Rightarrow> Err e | Ok ks \<Rightarrow> Ok (k # ks)))"

definition newest_first :: "key_row list \<Rightarrow> key_row list" where
  "newest_first rs = sort_key (\<lambda>r. - kr_created_at r) rs"

definition list_user_keys :: "key_env \<Rightarrow> int \<Rightarrow> auth_db \<Rightarrow> api_key list result" where
  "list_user_keys E user_id db = read_keys E (newest_first (select_where (\<lambda>r. kr_user_id r = user_id \<and> kr_is_active r) (api_keys db)))"

definition list_all_keys :: "key_env \<Rightarrow> auth_db \<Rightarrow> api_key list result" where
  "list_all_keys E db = read_keys E (newest_first (select_where kr_is_active (api_keys db)))"

end
