(* ===== verification/Key_Routes.thy ===== *)
theory Key_Routes
  imports Api_Keys
begin

text \<open>
  The HTTP handlers that mint, list, rotate and revoke API keys: \<^verbatim>\<open>kleos-server/src/routes/auth_keys\<close>,
  \<^verbatim>\<open>routes/security\<close> and \<^verbatim>\<open>routes/users\<close>. A handler runs for the context that \<^verbatim>\<open>validate_key\<close> gave the request;
  the JSON of the answer is reduced to its contents.
\<close>

definition MAX_KEY_TTL_SECS :: int where
  "MAX_KEY_TTL_SECS = 3153600000"

definition MAX_KEY_GRACE_HOURS :: int where
  "MAX_KEY_GRACE_HOURS = 876000"

record create_key_body =
  ckb_name :: "string option"
  ckb_scopes :: "string option"
  ckb_user_id :: "int option"
  ckb_rate_limit :: "int option"
  ckb_expires_at :: "string option"
  ckb_ttl_secs :: "int option"

record create_api_key_body =
  cab_name :: "string option"
  cab_scopes :: "string option"
  cab_rate_limit :: "int option"

definition given :: "'a option \<Rightarrow> 'a \<Rightarrow> 'a" where
  "given v d = (case v of None \<Rightarrow> d | Some x \<Rightarrow> x)"

text \<open>\<^verbatim>\<open>filter_map(|s| s.parse().ok())\<close>\<close>

definition parsed_scopes :: "unicode \<Rightarrow> string list \<Rightarrow> scope list" where
  "parsed_scopes U parts = List.map_filter (\<lambda>s. case scope_from_str U s of Ok v \<Rightarrow> Some v | Err _ \<Rightarrow> None) parts"

section \<open>\<^verbatim>\<open>/keys\<close>\<close>

definition final_expiry :: "key_env \<Rightarrow> create_key_body \<Rightarrow> int \<Rightarrow> string option" where
  "final_expiry E body t = (case ckb_expires_at body of
     Some s \<Rightarrow> Some s
   | None \<Rightarrow> (case ckb_ttl_secs body of
       None \<Rightarrow> None
     | Some s \<Rightarrow> if s > 0 then Some (format_datetime E (t + min s MAX_KEY_TTL_SECS)) else None))"

definition create_key_handler ::
  "key_env \<Rightarrow> 8 word list \<Rightarrow> auth_context \<Rightarrow> create_key_body \<Rightarrow> auth_db \<Rightarrow> (api_key \<times> string) result \<times> auth_db" where
  "create_key_handler E raw ctx body db =
     (if \<not> has_scope ctx Admin then (Err (Auth ''Admin scope required''), db)
      else
        (let target = given (ckb_user_id body) (ac_user_id ctx) in
         if target \<noteq> ac_user_id ctx \<and> \<not> user_exists db target
         then (Err (NotFound (''user '' @ show_int target @ '' not found'')), db)
         else
           (let scopes = parsed_scopes (ke_unicode E) (map trim_white (split_comma [] (given (ckb_scopes body) ''read,write''))) in
            case find (\<lambda>s. \<not> has_scope ctx s) scopes of
              Some s \<Rightarrow> (Err (Auth (''cannot grant scope '' @ quoted (scope_to_string s) @ '' that caller does not hold'')), db)
            | None \<Rightarrow>
                create_key_with_expiry E raw target (given (ckb_name body) ''default'') scopes (ckb_rate_limit body)
                  (final_expiry E body (now db)) db)))"

definition revoke_key_handler :: "key_env \<Rightarrow> auth_context \<Rightarrow> int \<Rightarrow> auth_db \<Rightarrow> unit result \<times> auth_db" where
  "revoke_key_handler E ctx i db =
     (if has_scope ctx Admin then
        (case find_where (\<lambda>r. kr_id r = i) (api_keys db) of
           None \<Rightarrow> (Err (NotFound ''key not found''), db)
         | Some r \<Rightarrow> (Ok (), revoke_api_key (kr_user_id r) i db))
      else
        (case list_user_keys E (ac_user_id ctx) db of
           Err e \<Rightarrow> (Err e, db)
         | Ok keys \<Rightarrow>
             if \<exists>k\<in>set keys. key_id k = i then (Ok (), revoke_api_key (ac_user_id ctx) i db)
             else (Err (Auth ''Forbidden''), db)))"

text \<open>Rotation mints the successor first and then sets the expiry of the old key.\<close>

definition rotate_key_handler ::
  "key_env \<Rightarrow> int \<Rightarrow> 8 word list \<Rightarrow> auth_context \<Rightarrow> int \<Rightarrow> int option \<Rightarrow> auth_db \<Rightarrow> (api_key \<times> string) result \<times> auth_db" where
  "rotate_key_handler E default_grace raw ctx i grace db =
     (if \<not> has_scope ctx Admin then (Err (Auth ''Admin required''), db)
      else case list_user_keys E (ac_user_id ctx) db of
        Err e \<Rightarrow> (Err e, db)
      | Ok keys \<Rightarrow>
          (case find (\<lambda>k. key_id k = i) keys of
             None \<Rightarrow> (Err (NotFound ''Key not found''), db)
           | Some old \<Rightarrow>
               (case create_api_key E raw (ac_user_id ctx) (key_name old @ '' (rotated)'') (key_scopes old)
                   (Some (key_rate_limit old)) db of
                  (Err e, db1) \<Rightarrow> (Err e, db1)
                | (Ok new, db1) \<Rightarrow>
                    (let hours = max 1 (min (given grace default_grace) MAX_KEY_GRACE_HOURS);
                         expiry = format_datetime E (now db1 + 3600 * hours)
                     in (Ok new, upd_keys (\<lambda>r. kr_id r = i \<and> kr_user_id r = ac_user_id ctx)
                          (\<lambda>r. r\<lparr>kr_expires_at := Some expiry\<rparr>) db1)))))"

section \<open>\<^verbatim>\<open>/security/api-keys\<close>\<close>

text \<open>\<^verbatim>\<open>split(|c| c == ',' || c.is_whitespace())\<close>\<close>

function split_tokens :: "string \<Rightarrow> string \<Rightarrow> string list" where
  "split_tokens w [] = [rev w]"
| "split_tokens w (c # s) =
     (if c = CHR '','' then rev w # split_tokens [] s
      else if white_len (c # s) \<noteq> 0 then rev w # split_tokens [] (drop (white_len (c # s) - 1) s)
      else split_tokens (c # w) s)"
  by pat_completeness auto
termination
  by (relation "measure (\<lambda>(w, s). length s)") auto

definition requested_scopes :: "string option \<Rightarrow> string list" where
  "requested_scopes scopes =
     filter (\<lambda>s. s \<noteq> []) (map (\<lambda>s. to_ascii_lowercase (trim_white s)) (split_tokens [] (trim_white (given scopes ''read''))))"

fun dedup_scopes :: "unicode \<Rightarrow> string list \<Rightarrow> scope list \<Rightarrow> scope list result" where
  "dedup_scopes U [] out = Ok out"
| "dedup_scopes U (s # ss) out =
     (case (if s = ''*'' then Ok Admin else scope_from_str U s) of
        Err _ \<Rightarrow> Err (InvalidInput (''unknown scope: '' @ s))
      | Ok v \<Rightarrow> dedup_scopes U ss (if v \<in> set out then out else out @ [v]))"

definition no_scopes :: eng_error where
  "no_scopes = InvalidInput ''scopes must be one of: read, write, admin''"

definition create_api_key_handler ::
  "key_env \<Rightarrow> 8 word list \<Rightarrow> auth_context \<Rightarrow> create_api_key_body \<Rightarrow> auth_db \<Rightarrow> (api_key \<times> string) result \<times> auth_db" where
  "create_api_key_handler E raw ctx body db =
     (let requested = requested_scopes (cab_scopes body);
          admin = has_scope ctx Admin;
          lacking = (\<lambda>s. s = ''read'' \<and> \<not> has_scope ctx Read \<or> s = ''write'' \<and> \<not> has_scope ctx Write)
      in if requested = [] then (Err no_scopes, db)
         else if (''admin'' \<in> set requested \<or> ''*'' \<in> set requested) \<and> \<not> admin
         then (Err (Auth ''admin scope required to mint admin keys''), db)
         else case find (\<lambda>s. s \<notin> {''read'', ''write'', ''admin'', ''*''}) requested of
           Some s \<Rightarrow> (Err (InvalidInput (''unknown scope: '' @ s)), db)
         | None \<Rightarrow>
             (case (if admin then None else find lacking requested) of
                Some s \<Rightarrow> (Err (Auth (''caller lacks '' @ s @ '' scope and cannot grant it'')), db)
              | None \<Rightarrow>
                  (let caller_limit = key_rate_limit (ac_key ctx);
                       limit = max (min (given (cab_rate_limit body) caller_limit) (if admin then 100000 else caller_limit)) 1
                   in case dedup_scopes (ke_unicode E) requested [] of
                        Err e \<Rightarrow> (Err e, db)
                      | Ok scopes \<Rightarrow>
                          create_api_key E raw (ac_user_id ctx) (trim_white (given (cab_name body) ''api-key'')) scopes (Some limit) db)))"

definition delete_api_key_handler :: "auth_context \<Rightarrow> int \<Rightarrow> auth_db \<Rightarrow> auth_db" where
  "delete_api_key_handler ctx i db =
     (if has_scope ctx Admin then revoke_key_admin i db else revoke_api_key (ac_user_id ctx) i db)"

definition list_api_keys_handler :: "key_env \<Rightarrow> auth_context \<Rightarrow> auth_db \<Rightarrow> api_key list result" where
  "list_api_keys_handler E ctx db = (if has_scope ctx Admin then list_all_keys E db else list_user_keys E (ac_user_id ctx) db)"

section \<open>\<^verbatim>\<open>/users\<close>\<close>

definition create_api_key_for_user ::
  "key_env \<Rightarrow> 8 word list \<Rightarrow> auth_context \<Rightarrow> int \<Rightarrow> create_api_key_body \<Rightarrow> auth_db \<Rightarrow> (api_key \<times> string) result \<times> auth_db" where
  "create_api_key_for_user E raw ctx user_id body db =
     (let requested = requested_scopes (cab_scopes body) in
      if \<not> has_scope ctx Admin then (Err (Auth ''admin scope required to mint keys for other users''), db)
      else if requested = [] then (Err no_scopes, db)
      else case find (\<lambda>s. s \<notin> {''read'', ''write'', ''admin''}) requested of
        Some s \<Rightarrow> (Err (InvalidInput (''unknown scope: '' @ s)), db)
      | None \<Rightarrow>
          (case find_where (\<lambda>r. us_id r = user_id) (users db) of
             None \<Rightarrow> (Err (NotFound (''user '' @ show_int user_id @ '' not found'')), db)
           | Some u \<Rightarrow>
               if \<not> us_is_active u then (Err (Forbidden ''cannot mint a key for a deactivated user''), db)
               else create_api_key E raw user_id (trim_white (given (cab_name body) ''api-key''))
                 (parsed_scopes (ke_unicode E) requested) (Some (max 1 (min (given (cab_rate_limit body) 1000) 100000))) db))"

definition create_user :: "auth_context \<Rightarrow> string \<Rightarrow> string option \<Rightarrow> string option \<Rightarrow> auth_db \<Rightarrow> user_row result \<times> auth_db" where
  "create_user ctx username email role db =
     (let name = trim_white username in
      if \<not> has_scope ctx Admin then (Err (Auth ''admin scope required to create users''), db)
      else if name = [] then (Err (InvalidInput ''username cannot be empty''), db)
      else if \<exists>u\<in>set (trows (users db)). us_username u = name
      then (Err (Conflict (''username '' @ quoted name @ '' already exists'')), db)
      else
        (let mk = (\<lambda>i. \<lparr>us_id = i, us_username = name, us_email = email, us_role = given role ''user'', us_is_active = True\<rparr>);
             (i, t) = insert_row mk (users db)
         in (Ok (mk i), db\<lparr>users := t\<rparr>)))"

text \<open>Deactivation revokes the keys in the same transaction; its other credential tables are not modelled.\<close>

definition deactivate_user :: "auth_context \<Rightarrow> int \<Rightarrow> auth_db \<Rightarrow> unit result \<times> auth_db" where
  "deactivate_user ctx user_id db =
     (let P = (\<lambda>u. us_id u = user_id \<and> us_is_active u) in
      if \<not> has_scope ctx Admin then (Err (Auth ''admin scope required to deactivate users''), db)
      else if user_id = 1 then (Err (Forbidden ''cannot deactivate the owner account (user_id=1)''), db)
      else if count_where P (users db) = 0 then (Err (NotFound ''user not found or already deactivated''), db)
      else (Ok (), upd_keys (\<lambda>r. kr_user_id r = user_id \<and> kr_is_active r) (\<lambda>r. r\<lparr>kr_is_active := False\<rparr>)
        (db\<lparr>users := update_where P (\<lambda>u. u\<lparr>us_is_active := False\<rparr>) (users db)\<rparr>)))"

end
