(* ===== verification/Key_Properties.thy ===== *)
theory Key_Properties
  imports Key_Routes
begin

text \<open>
  What API keys guarantee. The requests of all callers are the steps of a machine: a request is authenticated, and its
  handler runs later with the context it got, other requests in between. The ghost state remembers which key was
  minted for which row.
\<close>

section \<open>The machine\<close>

record key_sys =
  ks_db :: auth_db
  ks_contexts :: "auth_context list"
  ks_minted :: "(int \<times> string) list"

definition full_key :: "8 word list \<Rightarrow> string" where
  "full_key raw = ''kleos_'' @ concat (map hex_encode_byte raw)"

text \<open>The calls that may mint a key, from the random bytes, and the others.\<close>

inductive mint_call :: "key_env \<Rightarrow> auth_context \<Rightarrow> 8 word list \<Rightarrow> auth_db \<Rightarrow> auth_db \<Rightarrow> bool" for E :: key_env where
  "mint_call E ctx raw db (snd (create_key_handler E raw ctx body db))"
| "mint_call E ctx raw db (snd (rotate_key_handler E d raw ctx i g db))"
| "mint_call E ctx raw db (snd (create_api_key_handler E raw ctx abody db))"
| "mint_call E ctx raw db (snd (create_api_key_for_user E raw ctx u abody db))"

inductive key_call :: "key_env \<Rightarrow> auth_context \<Rightarrow> auth_db \<Rightarrow> auth_db \<Rightarrow> bool" for E :: key_env where
  "key_call E ctx db (snd (revoke_key_handler E ctx i db))"
| "key_call E ctx db (delete_api_key_handler ctx i db)"
| "key_call E ctx db (snd (create_user ctx name email role db))"
| "key_call E ctx db (snd (deactivate_user ctx u db))"

definition note_minted :: "8 word list \<Rightarrow> auth_db \<Rightarrow> auth_db \<Rightarrow> (int \<times> string) list \<Rightarrow> (int \<times> string) list" where
  "note_minted raw db db' minted =
     (if tseq (api_keys db') = tseq (api_keys db) then minted else (tseq (api_keys db'), full_key raw) # minted)"

inductive key_step :: "key_env \<Rightarrow> key_sys \<Rightarrow> key_sys \<Rightarrow> bool" for E :: key_env where
  bootstrap: "length raw = 16 \<Longrightarrow> db = snd (create_api_key E raw u name scopes limit (ks_db s)) \<Longrightarrow>
    key_step E s (s\<lparr>ks_db := db, ks_minted := note_minted raw (ks_db s) db (ks_minted s)\<rparr>)"
| authenticate: "validate_key E key (ks_db s) = (Ok ctx, db) \<Longrightarrow>
    key_step E s (s\<lparr>ks_db := db, ks_contexts := ctx # ks_contexts s\<rparr>)"
| mint: "ctx \<in> set (ks_contexts s) \<Longrightarrow> length raw = 16 \<Longrightarrow> mint_call E ctx raw (ks_db s) db \<Longrightarrow>
    key_step E s (s\<lparr>ks_db := db, ks_minted := note_minted raw (ks_db s) db (ks_minted s)\<rparr>)"
| other: "ctx \<in> set (ks_contexts s) \<Longrightarrow> key_call E ctx (ks_db s) db \<Longrightarrow> key_step E s (s\<lparr>ks_db := db\<rparr>)"
| time: "now (ks_db s) \<le> t \<Longrightarrow> key_step E s (s\<lparr>ks_db := (ks_db s)\<lparr>now := t\<rparr>\<rparr>)"

section \<open>Rows of minted keys\<close>

text \<open>What is hashed of a key, and a row as minting writes it.\<close>

definition keyed :: "key_env \<Rightarrow> string \<Rightarrow> string" where
  "keyed E full = (case ke_pepper E of None \<Rightarrow> full | Some pepper \<Rightarrow> pepper @ full)"

definition minted_row :: "key_env \<Rightarrow> key_row \<Rightarrow> string \<Rightarrow> bool" where
  "minted_row E r full \<longleftrightarrow> kr_key_prefix r = take 8 (drop 6 full) \<and> kr_key_hash r = sha256_hex E (keyed E full)
     \<and> kr_hash_version r = (if ke_pepper E = None then HASH_VERSION_LEGACY else HASH_VERSION_PEPPERED)"

definition key_inv :: "key_env \<Rightarrow> key_sys \<Rightarrow> bool" where
  "key_inv E s \<longleftrightarrow> wf_table kr_id (api_keys (ks_db s))
     \<and> (\<forall>(i, full)\<in>set (ks_minted s). i \<le> tseq (api_keys (ks_db s)) \<and> (\<exists>raw. full = full_key raw \<and> length raw = 16))
     \<and> (\<forall>r\<in>set (trows (api_keys (ks_db s))). \<exists>full. (kr_id r, full) \<in> set (ks_minted s) \<and> minted_row E r full)"

text \<open>How a call may change the keys: it keeps what identifies them, or also adds one minted row.\<close>

definition same_key :: "key_row \<Rightarrow> key_row \<Rightarrow> bool" where
  "same_key r r' \<longleftrightarrow> kr_id r' = kr_id r \<and> kr_user_id r' = kr_user_id r \<and> kr_key_prefix r' = kr_key_prefix r
     \<and> kr_key_hash r' = kr_key_hash r \<and> kr_hash_version r' = kr_hash_version r \<and> kr_scopes r' = kr_scopes r
     \<and> kr_rate_limit r' = kr_rate_limit r \<and> (kr_is_active r' \<longrightarrow> kr_is_active r)"

definition keys_kept :: "auth_db \<Rightarrow> auth_db \<Rightarrow> bool" where
  "keys_kept db db' \<longleftrightarrow> tseq (api_keys db') = tseq (api_keys db) \<and> list_all2 same_key (trows (api_keys db)) (trows (api_keys db'))"

definition key_added :: "key_env \<Rightarrow> 8 word list \<Rightarrow> auth_db \<Rightarrow> auth_db \<Rightarrow> bool" where
  "key_added E raw db db' \<longleftrightarrow> (\<exists>db1 r. api_keys db1 = \<lparr>trows = trows (api_keys db) @ [r], tseq = tseq (api_keys db) + 1\<rparr>
     \<and> kr_id r = tseq (api_keys db) + 1 \<and> minted_row E r (full_key raw) \<and> keys_kept db1 db')"

lemma same_key_refl [simp]: "same_key r r"
  by (simp add: same_key_def)

lemma keys_kept_refl [simp]: "keys_kept db db"
  by (simp add: keys_kept_def list_all2_refl)

lemma keys_kept_same: "api_keys db' = api_keys db \<Longrightarrow> keys_kept db db'"
  by (simp add: keys_kept_def list_all2_refl)

lemma keys_kept_upd: "(\<And>r. same_key r (f r)) \<Longrightarrow> keys_kept db (upd_keys P f db)"
  by (simp add: keys_kept_def upd_keys_def table_simps list_all2_conv_all_nth)

lemma keys_kept_cong: "api_keys db1 = api_keys db2 \<Longrightarrow> keys_kept db1 db \<longleftrightarrow> keys_kept db2 db"
  by (simp add: keys_kept_def)

lemma create_key_change:
  "keys_kept db (snd (create_key_with_expiry E raw u name scopes limit ex db))
   \<or> key_added E raw db (snd (create_key_with_expiry E raw u name scopes limit ex db))"
proof (cases "generate_key E raw")
  case (Inr res)
  then obtain full pre h v where res: "res = (full, pre, h, v)" by (cases res) auto
  define r where "r = \<lparr>kr_id = tseq (api_keys db) + 1, kr_user_id = u, kr_key_prefix = pre, kr_key_hash = h,
     kr_name = name, kr_scopes = scopes_to_string scopes, kr_rate_limit = max (case limit of None \<Rightarrow> 1000 | Some l \<Rightarrow> l) 1,
     kr_is_active = True, kr_agent_id = None, kr_last_used_at = None, kr_expires_at = ex, kr_created_at = now db, kr_hash_version = v\<rparr>"
  let ?db = "db\<lparr>api_keys := \<lparr>trows = trows (api_keys db) @ [r], tseq = tseq (api_keys db) + 1\<rparr>\<rparr>"
  have "minted_row E r (full_key raw)"
    using Inr res by (auto simp: generate_key_def Let_def hash_key_v1_def hash_key_v2_def minted_row_def r_def full_key_def keyed_def
        split: option.splits if_splits)
  then have "key_added E raw db ?db"
    unfolding key_added_def by (intro exI [of _ ?db] exI [of _ r]) (simp add: r_def)
  moreover have "snd (create_key_with_expiry E raw u name scopes limit ex db) \<in> {db, ?db}"
    using Inr res by (simp add: create_key_with_expiry_def Let_def insert_row_def r_def)
  ultimately show ?thesis by auto
qed (simp add: create_key_with_expiry_def)

lemma create_change: "keys_kept db (snd (create_api_key E raw u name scopes limit db)) \<or> key_added E raw db (snd (create_api_key E raw u name scopes limit db))"
  unfolding create_api_key_def by (rule create_key_change)

lemma same_key_trans: "same_key a b \<Longrightarrow> same_key b c \<Longrightarrow> same_key a c"
  by (simp add: same_key_def)

lemma keys_kept_trans: "keys_kept a b \<Longrightarrow> keys_kept b c \<Longrightarrow> keys_kept a c"
  unfolding keys_kept_def by (auto elim: list_all2_trans [rotated] intro: same_key_trans)

lemma keys_kept_upd_then: "keys_kept db db' \<Longrightarrow> (\<And>r. same_key r (f r)) \<Longrightarrow> keys_kept db (upd_keys P f db')"
  by (rule keys_kept_trans [OF _ keys_kept_upd])

lemma key_added_upd: "key_added E raw db db' \<Longrightarrow> (\<And>r. same_key r (f r)) \<Longrightarrow> key_added E raw db (upd_keys P f db')"
  unfolding key_added_def using keys_kept_upd_then by blast

lemma mint_call_change:
  assumes "mint_call E ctx raw db db'"
  shows "keys_kept db db' \<or> key_added E raw db db'"
  using assms
proof cases
  case (1 body)
  then show ?thesis using create_key_change by (simp add: create_key_handler_def Let_def split: option.split)
next
  case (2 d i g)
  have "same_key r (r\<lparr>kr_expires_at := ex\<rparr>)" for r ex by (simp add: same_key_def)
  then have step: "keys_kept db (upd_keys P (\<lambda>r. r\<lparr>kr_expires_at := ex\<rparr>) db1) \<or> key_added E raw db (upd_keys P (\<lambda>r. r\<lparr>kr_expires_at := ex\<rparr>) db1)"
    if "create_api_key E raw u name scopes limit db = (res, db1)" for u name scopes limit res db1 P ex
    using create_change [of db E raw u name scopes limit] that keys_kept_upd_then key_added_upd by auto
  have plain: "keys_kept db db1 \<or> key_added E raw db db1"
    if "create_api_key E raw u name scopes limit db = (res, db1)" for u name scopes limit res db1
    using create_change [of db E raw u name scopes limit] that by simp
  show ?thesis using 2 step plain by (auto simp: rotate_key_handler_def Let_def split: sum.split option.split prod.split)
next
  case (3 body)
  then show ?thesis using create_change by (simp add: create_api_key_handler_def Let_def split: option.split sum.split)
next
  case (4 u body)
  then show ?thesis using create_change by (simp add: create_api_key_for_user_def Let_def split: option.split)
qed

lemma key_call_change: "key_call E ctx db db' \<Longrightarrow> keys_kept db db'"
proof (induction rule: key_call.induct)
  case (4 ctx db u)
  then show ?case
    by (auto simp: deactivate_user_def Let_def upd_keys_def keys_kept_def table_simps list_all2_conv_all_nth same_key_def)
qed (auto simp: revoke_key_handler_def delete_api_key_handler_def revoke_api_key_def revoke_key_admin_def create_user_def Let_def insert_row_def
    same_key_def split: option.split sum.split intro: keys_kept_same intro!: keys_kept_upd)

lemma validate_change: "keys_kept db (snd (validate_key E key db))"
proof -
  have "keys_kept db (touch_key i db)" for i
    unfolding touch_key_def upd_keys_def [symmetric] by (rule keys_kept_upd) (simp add: same_key_def)
  then show ?thesis by (simp add: validate_key_def split: option.split sum.split)
qed

section \<open>Every row was minted\<close>

lemma keys_kept_row:
  assumes "keys_kept db db'" "r' \<in> set (trows (api_keys db'))"
  obtains r where "r \<in> set (trows (api_keys db))" "same_key r r'"
proof -
  obtain i where i: "i < length (trows (api_keys db'))" "r' = trows (api_keys db') ! i" using assms(2) by (auto simp: in_set_conv_nth)
  then have "i < length (trows (api_keys db))" "same_key (trows (api_keys db) ! i) r'"
    using assms(1) by (auto simp: keys_kept_def list_all2_conv_all_nth)
  then show thesis using that [of "trows (api_keys db) ! i"] by simp
qed

lemma keys_kept_wf: "keys_kept db db' \<Longrightarrow> wf_table kr_id (api_keys db) \<Longrightarrow> wf_table kr_id (api_keys db')"
proof -
  assume kept: "keys_kept db db'" and wf: "wf_table kr_id (api_keys db)"
  have ids: "map kr_id (trows (api_keys db')) = map kr_id (trows (api_keys db))"
    using kept by (auto simp: keys_kept_def list_all2_conv_all_nth same_key_def intro!: nth_equalityI)
  have "0 < kr_id r' \<and> kr_id r' \<le> tseq (api_keys db')" if r': "r' \<in> set (trows (api_keys db'))" for r'
  proof -
    obtain r where "r \<in> set (trows (api_keys db))" "same_key r r'" using keys_kept_row [OF kept r'] .
    then show ?thesis using wf kept by (auto simp: wf_table_def same_key_def keys_kept_def)
  qed
  then show ?thesis using wf ids kept by (simp add: wf_table_def keys_kept_def)
qed

lemma minted_row_same: "same_key r r' \<Longrightarrow> minted_row E r full \<Longrightarrow> minted_row E r' full"
  by (simp add: same_key_def minted_row_def)

lemma key_inv_kept:
  assumes inv: "key_inv E s" and kept: "keys_kept (ks_db s) (ks_db t)" and minted: "ks_minted t = ks_minted s"
  shows "key_inv E t"
proof -
  have "\<exists>full. (kr_id r', full) \<in> set (ks_minted t) \<and> minted_row E r' full" if r': "r' \<in> set (trows (api_keys (ks_db t)))" for r'
  proof -
    obtain r where r: "r \<in> set (trows (api_keys (ks_db s)))" "same_key r r'" using keys_kept_row [OF kept r'] .
    then obtain full where "(kr_id r, full) \<in> set (ks_minted s)" "minted_row E r full" using inv by (auto simp: key_inv_def)
    then show ?thesis using r(2) minted_row_same [OF r(2), of E full] minted by (auto simp: same_key_def)
  qed
  then show ?thesis using inv keys_kept_wf [OF kept] minted kept by (auto simp: key_inv_def keys_kept_def)
qed

lemma key_inv_added:
  assumes inv: "key_inv E s" and added: "key_added E raw (ks_db s) (ks_db t)" and raw: "length raw = 16"
    and minted: "ks_minted t = (tseq (api_keys (ks_db s)) + 1, full_key raw) # ks_minted s"
  shows "key_inv E t"
proof -
  obtain db1 r where db1: "api_keys db1 = \<lparr>trows = trows (api_keys (ks_db s)) @ [r], tseq = tseq (api_keys (ks_db s)) + 1\<rparr>"
    and r: "kr_id r = tseq (api_keys (ks_db s)) + 1" "minted_row E r (full_key raw)" and kept: "keys_kept db1 (ks_db t)"
    using added by (auto simp: key_added_def)
  have wf: "wf_table kr_id (api_keys db1)"
    using inv r(1) unfolding db1 by (auto simp: key_inv_def wf_table_def sorted_wrt_append)
  have "key_inv E \<lparr>ks_db = db1, ks_contexts = ks_contexts t, ks_minted = ks_minted t\<rparr>"
    using inv wf db1 r raw unfolding minted key_inv_def by (auto 0 4)
  then show ?thesis by (rule key_inv_kept) (simp_all add: kept)
qed

lemma key_added_seq: "key_added E raw db db' \<Longrightarrow> tseq (api_keys db') = tseq (api_keys db) + 1"
  by (auto simp: key_added_def keys_kept_def)

lemma key_inv_mint:
  assumes "key_inv E s" "keys_kept (ks_db s) db \<or> key_added E raw (ks_db s) db" "length raw = 16"
  shows "key_inv E (s\<lparr>ks_db := db, ks_minted := note_minted raw (ks_db s) db (ks_minted s)\<rparr>)"
  using assms(2)
proof
  assume "keys_kept (ks_db s) db"
  then show ?thesis using key_inv_kept [OF assms(1)] by (simp add: note_minted_def keys_kept_def)
next
  assume "key_added E raw (ks_db s) db"
  then show ?thesis using key_inv_added [OF assms(1) _ assms(3)] key_added_seq by (simp add: note_minted_def)
qed

lemma key_step_change:
  assumes "key_step E s t"
  obtains "keys_kept (ks_db s) (ks_db t)" | raw where "key_added E raw (ks_db s) (ks_db t)"
  using assms
proof cases
  case (authenticate key ctx db)
  then show thesis using that(1) validate_change [of "ks_db s" E key] by simp
next
  case (other ctx db)
  then show thesis using that(1) key_call_change by simp
next
  case (time t)
  then show thesis using that(1) by (simp add: keys_kept_same)
qed (use that create_change mint_call_change in fastforce)+

lemma key_inv_step: "key_inv E s \<Longrightarrow> key_step E s t \<Longrightarrow> key_inv E t"
proof (erule key_step.cases, goal_cases)
  case (2 key s' ctx db)
  then show ?case using key_inv_kept [of E s] validate_change [of "ks_db s" E key] by simp
next
  case (4 ctx s' db)
  then show ?case using key_inv_kept [of E s] key_call_change by simp
next
  case (5 s' u)
  then show ?case using key_inv_kept [of E s] by (simp add: keys_kept_same)
qed (use key_inv_mint create_change mint_call_change in simp_all)

interpretation keys: state_machine "key_step E" "key_inv E" for E
  by unfold_locales (rule key_inv_step)

definition no_keys :: "key_sys \<Rightarrow> bool" where
  "no_keys s \<longleftrightarrow> trows (api_keys (ks_db s)) = [] \<and> tseq (api_keys (ks_db s)) = 0 \<and> ks_minted s = [] \<and> ks_contexts s = []"

lemma key_inv_start: "no_keys s \<Longrightarrow> key_inv E s"
  by (simp add: no_keys_def key_inv_def wf_table_def)

section \<open>Only minted keys authenticate\<close>

definition second_preimage :: "key_env \<Rightarrow> string \<Rightarrow> bool" where
  "second_preimage E y \<longleftrightarrow> (\<exists>x. x \<noteq> y \<and> sha256_hex E x = sha256_hex E y)"

lemma candidate_hashes_cases:
  "candidate_hashes E normalized HASH_VERSION_PEPPERED = (case ke_pepper E of
     None \<Rightarrow> [] | Some p \<Rightarrow> [sha256_hex E (p @ normalized), sha256_hex E (p @ ''engram_'' @ drop 6 normalized)])"
  "ke_pepper E = None \<Longrightarrow> candidate_hashes E normalized HASH_VERSION_LEGACY =
     [sha256_hex E normalized, sha256_hex E (''engram_'' @ drop 6 normalized)]"
  by (simp_all add: candidate_hashes_def Let_def hash_key_v1_def hash_key_v2_def HASH_VERSION_LEGACY_def HASH_VERSION_PEPPERED_def
      split: option.split)

lemma candidate_is_key:
  assumes row: "minted_row E r full" and full: "full = full_key raw"
    and hash: "kr_key_hash r \<in> set (candidate_hashes E normalized (kr_hash_version r))"
  shows "normalized = full \<or> second_preimage E (keyed E full)"
proof (rule disjCI)
  assume none: "\<not> second_preimage E (keyed E full)"
  have inj: "x = keyed E full" if "sha256_hex E x = sha256_hex E (keyed E full)" for x
    using none that by (auto simp: second_preimage_def)
  define legacy where "legacy = ''engram_'' @ drop 6 normalized"
  have other: "legacy \<noteq> full" by (simp add: full full_key_def legacy_def)
  have "keyed E normalized = keyed E full \<or> keyed E legacy = keyed E full"
  proof (cases "ke_pepper E")
    case None
    then have "kr_key_hash r = sha256_hex E full" "kr_key_hash r \<in> {sha256_hex E normalized, sha256_hex E legacy}"
      using row hash candidate_hashes_cases(2) [OF None] by (simp_all add: minted_row_def legacy_def keyed_def)
    then have "sha256_hex E normalized = sha256_hex E (keyed E full) \<or> sha256_hex E legacy = sha256_hex E (keyed E full)"
      using None by (auto simp: keyed_def)
    then have "normalized = keyed E full \<or> legacy = keyed E full" using inj by blast
    then show ?thesis using None by (simp add: keyed_def)
  next
    case (Some pepper)
    then have "kr_key_hash r = sha256_hex E (pepper @ full)" "kr_key_hash r \<in> {sha256_hex E (pepper @ normalized), sha256_hex E (pepper @ legacy)}"
      using row hash candidate_hashes_cases(1) [of E normalized] by (simp_all add: minted_row_def legacy_def keyed_def)
    then have "sha256_hex E (pepper @ normalized) = sha256_hex E (keyed E full) \<or> sha256_hex E (pepper @ legacy) = sha256_hex E (keyed E full)"
      using Some by (auto simp: keyed_def)
    then have "pepper @ normalized = keyed E full \<or> pepper @ legacy = keyed E full" using inj by blast
    then show ?thesis using Some by (simp add: keyed_def)
  qed
  then show "normalized = full" using other by (auto simp: keyed_def split: option.splits)
qed

lemma row_to_api_key_Ok:
  assumes "row_to_api_key E r = Ok k"
  shows "key_id k = kr_id r" "key_user_id k = kr_user_id r" "key_expires_at k = kr_expires_at r"
    "key_scopes k = parse_scopes (ke_unicode E) (kr_scopes r)" "key_rate_limit k = kr_rate_limit r"
  using assms by (auto simp: row_to_api_key_def split: if_splits)

lemma validate_key_Ok:
  assumes "validate_key E key db = (Ok ctx, db')"
  obtains normalized r where "normalize_key key = Some normalized" "r \<in> set (trows (api_keys db))" "key_matches E normalized db r"
    "row_to_api_key E r = Ok (ac_key ctx)" "check_expiry E (kr_expires_at r) (now db) = Ok ()" "ac_user_id ctx = kr_user_id r"
    "db' = touch_key (kr_id r) db" "find_where (key_matches E normalized db) (api_keys db) = Some r"
proof -
  obtain normalized r k where n: "normalize_key key = Some normalized"
    and r: "find_where (key_matches E normalized db) (api_keys db) = Some r" and k: "row_to_api_key E r = Ok k"
    and c: "check_expiry E (key_expires_at k) (now db) = Ok ()" "ctx = \<lparr>ac_key = k, ac_user_id = key_user_id k, ac_act_as = None\<rparr>"
    "db' = touch_key (key_id k) db"
    using assms by (auto simp: validate_key_def split: option.splits sum.splits)
  then show thesis using that [OF n, of r] find_where_Some [OF r] r k c row_to_api_key_Ok [OF k] by simp
qed

text \<open>A key that is not active stays so.\<close>

definition dead :: "int \<Rightarrow> key_sys \<Rightarrow> bool" where
  "dead i s \<longleftrightarrow> i \<le> tseq (api_keys (ks_db s)) \<and> (\<forall>r\<in>set (trows (api_keys (ks_db s))). kr_id r = i \<longrightarrow> \<not> kr_is_active r)"

lemma dead_kept:
  assumes "keys_kept db db'" "\<forall>r\<in>set (trows (api_keys db)). kr_id r = i \<longrightarrow> \<not> kr_is_active r"
  shows "\<forall>r\<in>set (trows (api_keys db')). kr_id r = i \<longrightarrow> \<not> kr_is_active r"
  using assms(2) by (auto simp: same_key_def elim!: keys_kept_row [OF assms(1)])

lemma dead_step: "dead i s \<Longrightarrow> key_step E s t \<Longrightarrow> dead i t"
proof -
  assume dead: "dead i s" and step: "key_step E s t"
  from step show "dead i t"
  proof (cases rule: key_step_change)
    case 1
    then show ?thesis using dead dead_kept [OF 1, of i] by (simp add: dead_def keys_kept_def)
  next
    case (2 raw)
    then obtain db1 r where db1: "api_keys db1 = \<lparr>trows = trows (api_keys (ks_db s)) @ [r], tseq = tseq (api_keys (ks_db s)) + 1\<rparr>"
      and r: "kr_id r = tseq (api_keys (ks_db s)) + 1" and kept: "keys_kept db1 (ks_db t)" by (auto simp: key_added_def)
    have "\<forall>r\<in>set (trows (api_keys db1)). kr_id r = i \<longrightarrow> \<not> kr_is_active r" using dead r unfolding db1 dead_def by auto
    then show ?thesis using dead dead_kept [OF kept, of i] key_added_seq [OF 2] by (simp add: dead_def)
  qed
qed

interpretation revoked: state_machine "key_step E" "dead i" for E i
  by unfold_locales (rule dead_step)

text \<open>
  Property C7. Only a minted, live key authenticates. After any history of requests, a request is accepted only for a
  row of the table that is active and not expired, of an active user, as that user and with the scopes of that row;
  the key presented is, up to its prefix and the case of its digits, the one minted for the row, unless it exhibits a
  second preimage of SHA-256. And a key that has been revoked, by its owner, an administrator or the deactivation of
  its user, is never accepted again.
\<close>

theorem only_minted_keys_authenticate:
  assumes "no_keys s0" "(key_step E)\<^sup>*\<^sup>* s0 s" "validate_key E key (ks_db s) = (Ok ctx, db')"
  shows "(\<exists>r full. r \<in> set (trows (api_keys (ks_db s))) \<and> kr_id r = key_id (ac_key ctx) \<and> kr_is_active r
     \<and> user_active (ks_db s) (kr_user_id r) \<and> ac_user_id ctx = kr_user_id r
     \<and> (\<forall>ex e. kr_expires_at r = Some ex \<and> parse_expiry E ex = Some e \<longrightarrow> now (ks_db s) < e)
     \<and> key_scopes (ac_key ctx) = parse_scopes (ke_unicode E) (kr_scopes r)
     \<and> (kr_id r, full) \<in> set (ks_minted s) \<and> (normalize_key key = Some full \<or> second_preimage E (keyed E full)))
   \<and> (\<forall>s1 i. (key_step E)\<^sup>*\<^sup>* s0 s1 \<and> (key_step E)\<^sup>*\<^sup>* s1 s \<and> dead i s1 \<longrightarrow> key_id (ac_key ctx) \<noteq> i)"
proof -
  have inv: "key_inv E s" using keys.steps_keep [OF assms(2) key_inv_start [OF assms(1)]] .
  obtain normalized r where n: "normalize_key key = Some normalized" and r: "r \<in> set (trows (api_keys (ks_db s)))"
    and match: "key_matches E normalized (ks_db s) r" and k: "row_to_api_key E r = Ok (ac_key ctx)"
    and ex: "check_expiry E (kr_expires_at r) (now (ks_db s)) = Ok ()" and u: "ac_user_id ctx = kr_user_id r"
    by (rule validate_key_Ok [OF assms(3)]) blast
  have id: "key_id (ac_key ctx) = kr_id r" "key_scopes (ac_key ctx) = parse_scopes (ke_unicode E) (kr_scopes r)"
    using row_to_api_key_Ok [OF k] by simp_all
  obtain full where full: "(kr_id r, full) \<in> set (ks_minted s)" "minted_row E r full" using inv r by (auto simp: key_inv_def)
  then obtain raw where "full = full_key raw" using inv by (auto simp: key_inv_def)
  then have "normalize_key key = Some full \<or> second_preimage E (keyed E full)"
    using candidate_is_key [OF full(2)] match n by (auto simp: key_matches_def)
  moreover have "now (ks_db s) < e" if "kr_expires_at r = Some x" "parse_expiry E x = Some e" for x e
    using ex that by (simp add: check_expiry_def split: if_splits)
  moreover have "kr_id r \<noteq> i" if "(key_step E)\<^sup>*\<^sup>* s1 s" "dead i s1" for s1 i
    using revoked.steps_keep [OF that] r match by (auto simp: dead_def key_matches_def)
  ultimately show ?thesis using r id u full(1) match by (auto simp: key_matches_def)
qed

section \<open>Scopes\<close>

text \<open>Scope lists are printed and read back.\<close>

definition scope_char :: "char \<Rightarrow> bool" where
  "scope_char c \<longleftrightarrow> c \<in> set ''readwriteadmin,''"

lemma white_not_scope_char: "list_all (\<lambda>w. w \<noteq> [] \<and> \<not> scope_char (hd w)) white_chars"
  by code_simp

lemma white_len_scope: "list_all scope_char s \<Longrightarrow> white_len s = 0"
proof (cases s rule: white_len_cases)
  case (2 w t)
  assume "list_all scope_char s"
  then have "scope_char (hd w)" using 2(1,4) by (cases w) auto
  then show ?thesis using white_not_scope_char 2(2) by (auto simp: list_all_iff)
qed simp

lemma trim_scope: "list_all scope_char s \<Longrightarrow> trim_white s = s"
proof -
  assume s: "list_all scope_char s"
  have "trim_start s = s" using white_len_scope [OF s] by (subst trim_start.simps) simp
  moreover have "white_len (drop k s) = 0" for k
    using s by (intro white_len_scope) (auto simp: list_all_iff dest: in_set_dropD)
  then have "white_tail s = 0" by (simp add: white_tail_def)
  then have "trim_end s = s" by (subst trim_end.simps) simp
  ultimately show ?thesis by (simp add: trim_white_def)
qed

lemma split_comma_plain: "CHR '','' \<notin> set x \<Longrightarrow> split_comma w x = [rev w @ x]"
  by (induction x arbitrary: w) auto

lemma split_comma_first: "CHR '','' \<notin> set x \<Longrightarrow> split_comma w (x @ CHR '','' # y) = (rev w @ x) # split_comma [] y"
  by (induction x arbitrary: w) auto

lemma split_comma_join:
  assumes "xs \<noteq> []" "\<forall>x\<in>set xs. CHR '','' \<notin> set x"
  shows "split_comma [] (join '','' xs) = xs"
  using assms
proof (induction "'',''" xs rule: join.induct)
  case (3 x y xs)
  then show ?case using split_comma_first [of x "[]" "join '','' (y # xs)"] by simp
qed (simp_all add: split_comma_plain)

definition plain_lowercase :: "unicode \<Rightarrow> bool" where
  "plain_lowercase U \<longleftrightarrow> (\<forall>s. to_lowercase U (scope_to_string s) = scope_to_string s)"

lemma scope_roundtrip: "plain_lowercase U \<Longrightarrow> scope_from_str U (scope_to_string s) = Ok s"
proof -
  assume "plain_lowercase U"
  then have "to_lowercase U (scope_to_string s) = scope_to_string s" by (simp add: plain_lowercase_def)
  then show ?thesis by (cases s) (simp_all add: scope_from_str_def)
qed

lemma scope_chars: "list_all scope_char (scope_to_string s)" "CHR '','' \<notin> set (scope_to_string s)" "scope_to_string s \<noteq> []"
  "scope_to_string s \<noteq> ''*''"
  by (cases s; simp add: scope_char_def)+

lemma parse_parts_scopes:
  "plain_lowercase U \<Longrightarrow> parse_parts U (map scope_to_string ss) out = out @ ss"
  by (induction ss arbitrary: out) (simp_all add: trim_scope scope_chars scope_roundtrip)

lemma join_all: "list_all P sep \<Longrightarrow> \<forall>x\<in>set xs. list_all P x \<Longrightarrow> list_all P (join sep xs)"
  by (induction sep xs rule: join.induct) auto

lemma join_scopes: "list_all scope_char (join '','' (map scope_to_string ss))"
  by (rule join_all) (auto simp: scope_chars scope_char_def)

lemma parse_scopes_roundtrip: "plain_lowercase U \<Longrightarrow> parse_scopes U (scopes_to_string ss) = ss"
proof (cases "ss = []")
  case True
  then show ?thesis by (simp add: scopes_to_string_def parse_scopes_def trim_scope)
next
  case False
  assume U: "plain_lowercase U"
  have "join '','' (map scope_to_string ss) \<noteq> ''*''" using join_scopes [of ss] by (auto simp: scope_char_def)
  then show ?thesis
    using False U by (simp add: scopes_to_string_def parse_scopes_def trim_scope join_scopes split_comma_join scope_chars parse_parts_scopes)
qed

section \<open>No escalation\<close>

lemma create_key_rows:
  assumes wf: "wf_table kr_id (api_keys db)" and r: "r \<in> set (trows (api_keys (snd (create_key_with_expiry E raw u name scopes limit ex db))))"
    "tseq (api_keys db) < kr_id r"
  shows "kr_user_id r = u \<and> kr_scopes r = scopes_to_string scopes \<and> kr_rate_limit r = max (case limit of None \<Rightarrow> 1000 | Some l \<Rightarrow> l) 1"
proof -
  have "\<not> tseq (api_keys db) < kr_id x" if "x \<in> set (trows (api_keys db))" for x using wf that by (auto simp: wf_table_def)
  then show ?thesis using r
    by (auto simp: create_key_with_expiry_def Let_def insert_row_def split: sum.splits prod.splits if_splits)
qed

lemma dedup_scopes_from:
  assumes "plain_lowercase U" "dedup_scopes U ss out = Ok scopes" "\<forall>s\<in>set ss. s \<in> {''read'', ''write'', ''admin'', ''*''}" "v \<in> set scopes"
  shows "v \<in> set out \<or> scope_to_string v \<in> set ss \<or> v = Admin \<and> ''*'' \<in> set ss"
  using assms(2-)
proof (induction ss arbitrary: out)
  case (Cons s ss)
  have "\<exists>w. (if s = ''*'' then Ok Admin else scope_from_str U s) = Ok w \<and> (s = scope_to_string w \<or> w = Admin \<and> s = ''*'')"
  proof (cases "s = ''*''")
    case False
    then have "s \<in> {scope_to_string Read, scope_to_string Write, scope_to_string Admin}" using Cons.prems(2) by simp
    then obtain w where "s = scope_to_string w" by blast
    then show ?thesis using False scope_roundtrip [OF assms(1), of w] by (intro exI [of _ w]) simp
  qed simp
  then obtain w where w: "(if s = ''*'' then Ok Admin else scope_from_str U s) = Ok w" "s = scope_to_string w \<or> w = Admin \<and> s = ''*''" by blast
  have "dedup_scopes U ss (if w \<in> set out then out else out @ [w]) = Ok scopes" using Cons.prems(1) w(1) by simp
  then have "v \<in> set (if w \<in> set out then out else out @ [w]) \<or> scope_to_string v \<in> set ss \<or> v = Admin \<and> ''*'' \<in> set ss"
    using Cons.IH Cons.prems(2,3) by simp
  then show ?case using w(2) by (auto split: if_splits)
qed simp

lemma admin_has_all: "has_scope ctx Admin \<Longrightarrow> has_scope ctx s"
  by (simp add: has_scope_def)

lemma self_mint_scopes:
  assumes U: "plain_lowercase (ke_unicode E)" and not_admin: "\<not> has_scope ctx Admin"
  obtains e where "create_api_key_handler E raw ctx body db = (Err e, db)"
    | name scopes l where "create_api_key_handler E raw ctx body db = create_api_key E raw (ac_user_id ctx) name scopes (Some l) db"
      "\<forall>s\<in>set scopes. has_scope ctx s" "l \<le> max 1 (key_rate_limit (ac_key ctx))"
proof -
  let ?req = "requested_scopes (cab_scopes body)"
  let ?lack = "\<lambda>s. s = ''read'' \<and> \<not> has_scope ctx Read \<or> s = ''write'' \<and> \<not> has_scope ctx Write"
  show thesis
  proof (cases "?req = [] \<or> ''admin'' \<in> set ?req \<or> ''*'' \<in> set ?req
      \<or> find (\<lambda>s. s \<notin> {''read'', ''write'', ''admin'', ''*''}) ?req \<noteq> None \<or> find ?lack ?req \<noteq> None")
    case True
    then have "\<exists>e. create_api_key_handler E raw ctx body db = (Err e, db)"
      unfolding create_api_key_handler_def Let_def using not_admin by (auto split: option.split)
    then show thesis using that(1) by blast
  next
    case False
    then have ok: "''admin'' \<notin> set ?req" "''*'' \<notin> set ?req" "find (\<lambda>s. s \<notin> {''read'', ''write'', ''admin'', ''*''}) ?req = None"
      "find ?lack ?req = None" "?req \<noteq> []" by blast+
    have eq: "create_api_key_handler E raw ctx body db = (case dedup_scopes (ke_unicode E) ?req [] of
        Err e \<Rightarrow> (Err e, db)
      | Ok scopes \<Rightarrow> create_api_key E raw (ac_user_id ctx) (trim_white (given (cab_name body) ''api-key'')) scopes
         (Some (max (min (given (cab_rate_limit body) (key_rate_limit (ac_key ctx))) (key_rate_limit (ac_key ctx))) 1)) db)"
      unfolding create_api_key_handler_def Let_def using ok not_admin by simp
    show thesis
    proof (cases "dedup_scopes (ke_unicode E) ?req []")
      case (Inl e)
      then show thesis using that(1) eq by simp
    next
      case (Inr scopes)
      have "has_scope ctx v" if v: "v \<in> set scopes" for v
      proof -
        have "scope_to_string v \<in> set ?req"
          using dedup_scopes_from [OF U Inr _ v] ok(2,3) by (auto simp: find_None_iff)
        then show ?thesis using ok(1,4) by (cases v) (auto simp: find_None_iff)
      qed
      then show thesis using that(2) eq Inr by simp
    qed
  qed
qed

text \<open>
  Property C8. Minting never escalates. A row that a request adds to the key table has only scopes that the request's
  own key has; and when that key is not an administrator's, the new key belongs to the same user and its rate limit
  is not above the one of the key that asked for it.
\<close>

theorem minted_keys_are_capped:
  assumes "plain_lowercase (ke_unicode E)" "wf_table kr_id (api_keys db)" "mint_call E ctx raw db db'"
    and "r \<in> set (trows (api_keys db'))" "tseq (api_keys db) < kr_id r"
  shows "(\<forall>s\<in>set (parse_scopes (ke_unicode E) (kr_scopes r)). has_scope ctx s)
    \<and> (\<not> has_scope ctx Admin \<longrightarrow> kr_user_id r = ac_user_id ctx \<and> kr_rate_limit r \<le> max 1 (key_rate_limit (ac_key ctx)))"
proof (cases "has_scope ctx Admin")
  case True
  then show ?thesis by (simp add: admin_has_all)
next
  case False
  have old: "\<not> tseq (api_keys db) < kr_id x" if "x \<in> set (trows (api_keys db))" for x using assms(2) that by (auto simp: wf_table_def)
  from assms(3) show ?thesis
  proof cases
    case (3 body)
    from assms(1) False show ?thesis
    proof (cases rule: self_mint_scopes [of E ctx raw body db])
      case (1 e)
      then show ?thesis using 3 assms(4,5) old by simp
    next
      case (2 name scopes l)
      then have "kr_user_id r = ac_user_id ctx \<and> kr_scopes r = scopes_to_string scopes \<and> kr_rate_limit r = max l 1"
        using create_key_rows [OF assms(2), of r E raw "ac_user_id ctx" name scopes "Some l" None] 3 assms(4,5)
        by (simp add: create_api_key_def)
      then show ?thesis using 2(2,3) parse_scopes_roundtrip [OF assms(1)] by auto
    qed
  qed (use False assms(4,5) old in \<open>auto simp: create_key_handler_def rotate_key_handler_def create_api_key_for_user_def\<close>)
qed

section \<open>A minted key works\<close>

lemma hex_digit_lower: "is_ascii_hexdigit (to_ascii_lowercase [c] ! 0) \<Longrightarrow> is_ascii_hexdigit c"
proof (cases "65 \<le> (of_char c :: nat) \<and> (of_char c :: nat) \<le> 90")
  case True
  then have "of_char (char_of (of_char c + 32 :: nat)) = (of_char c + 32 :: nat)" by (simp add: of_char_of)
  moreover assume "is_ascii_hexdigit (to_ascii_lowercase [c] ! 0)"
  ultimately show ?thesis using True by (simp add: is_ascii_hexdigit_def is_ascii_digit_def to_ascii_lowercase_def less_eq_char_def)
next
  case False
  moreover assume "is_ascii_hexdigit (to_ascii_lowercase [c] ! 0)"
  ultimately show ?thesis by (simp add: to_ascii_lowercase_def less_eq_char_def split: if_splits)
qed

lemma hex_lower: "list_all is_ascii_hexdigit (to_ascii_lowercase h) \<Longrightarrow> list_all is_ascii_hexdigit h"
proof (induction h)
  case (Cons c h)
  have "to_ascii_lowercase (c # h) = (to_ascii_lowercase [c] ! 0) # to_ascii_lowercase h" by (simp add: to_ascii_lowercase_def)
  then show ?case using Cons hex_digit_lower [of c] by simp
qed simp

lemma HEX_digits: "n < 16 \<Longrightarrow> is_ascii_hexdigit (HEX ! n)"
proof -
  have "list_all is_ascii_hexdigit HEX" "length HEX = 16" by code_simp+
  moreover assume "n < 16"
  ultimately show ?thesis by (simp add: list_all_length)
qed

lemma hex_bytes: "list_all is_ascii_hexdigit (concat (map hex_encode_byte raw))" "length (concat (map hex_encode_byte raw)) = 2 * length raw"
  by (induction raw) (simp_all add: hex_encode_byte_def HEX_digits nibble_bounds)

lemma hex_portion_alias:
  "p \<in> {''kleos_'', ''kl_'', ''engram_'', ''eg_''} \<Longrightarrow> hex_portion (p @ h) = Some h"
  by (auto simp: hex_portion_def strip_prefix_def starts_with_def)

lemma normalize_alias:
  assumes "p \<in> {''kleos_'', ''kl_'', ''engram_'', ''eg_''}" "to_ascii_lowercase h = concat (map hex_encode_byte raw)" "length raw = 16"
  shows "normalize_key (p @ h) = Some (full_key raw)"
proof -
  have "length h = 32" using arg_cong [OF assms(2), of length] hex_bytes(2) [of raw] assms(3) by (simp add: to_ascii_lowercase_def)
  moreover have "list_all is_ascii_hexdigit h" using hex_lower assms(2) hex_bytes(1) by metis
  ultimately show ?thesis using hex_portion_alias [OF assms(1)] assms(2) by (simp add: normalize_key_def full_key_def)
qed

text \<open>
  Property C34. A minted key works at once: with any of the four prefixes and any case of its digits it authenticates
  as its user with the scopes asked for, if the user is active, the key not expired and no older row has its hash.
\<close>

theorem minted_key_works:
  assumes create: "create_key_with_expiry E raw u name scopes limit ex db = (Ok (k, key), db1)" and raw: "length raw = 16"
    and user: "user_active db u" and expiry: "check_expiry E ex (now db) = Ok ()"
    and unused: "\<forall>r\<in>set (trows (api_keys db)). kr_key_hash r \<notin> {sha256_hex E (keyed E key), sha256_hex E (keyed E (''engram_'' @ drop 6 key))}"
    and form: "p \<in> {''kleos_'', ''kl_'', ''engram_'', ''eg_''}" "to_ascii_lowercase h = drop 6 key"
  shows "\<exists>ctx. fst (validate_key E (p @ h) db1) = Ok ctx \<and> ac_key ctx = k \<and> ac_user_id ctx = u
    \<and> key_scopes k = parse_scopes (ke_unicode E) (scopes_to_string scopes) \<and> key_id k = tseq (api_keys db) + 1"
proof -
  obtain pre hash v where gen: "generate_key E raw = Ok (key, pre, hash, v)"
    using create by (auto simp: create_key_with_expiry_def Let_def insert_row_def split: sum.splits prod.splits if_splits option.splits)
  define r where "r = \<lparr>kr_id = tseq (api_keys db) + 1, kr_user_id = u, kr_key_prefix = pre, kr_key_hash = hash,
     kr_name = name, kr_scopes = scopes_to_string scopes, kr_rate_limit = max (case limit of None \<Rightarrow> 1000 | Some l \<Rightarrow> l) 1,
     kr_is_active = True, kr_agent_id = None, kr_last_used_at = None, kr_expires_at = ex, kr_created_at = now db, kr_hash_version = v\<rparr>"
  have key: "key = full_key raw" "pre = take 8 (drop 6 key)" "hash = sha256_hex E (keyed E key)"
    "v = (if ke_pepper E = None then HASH_VERSION_LEGACY else HASH_VERSION_PEPPERED)"
    using gen by (auto simp: generate_key_def Let_def hash_key_v1_def hash_key_v2_def full_key_def keyed_def split: option.splits if_splits)
  have none: "find (\<lambda>x. kr_key_prefix x = pre \<and> kr_key_hash x = hash) (trows (api_keys db)) = None"
    using unused key(3) by (auto simp: find_None_iff)
  have db1: "db1 = db\<lparr>api_keys := \<lparr>trows = trows (api_keys db) @ [r], tseq = tseq (api_keys db) + 1\<rparr>\<rparr>" and k: "row_to_api_key E r = Ok k"
    using create gen none
    by (auto simp: create_key_with_expiry_def Let_def insert_row_def r_def find_where_def find_append split: sum.splits if_splits option.splits)
  have norm: "normalize_key (p @ h) = Some key"
    using normalize_alias [OF form(1) _ raw] form(2) key(1) by (simp add: full_key_def)
  have hashes: "set (candidate_hashes E key w) \<subseteq> {sha256_hex E (keyed E key), sha256_hex E (keyed E (''engram_'' @ drop 6 key))}" for w
    by (auto simp: candidate_hashes_def Let_def hash_key_v1_def hash_key_v2_def keyed_def split: option.splits if_splits)
  then have "\<forall>x\<in>set (trows (api_keys db)). \<not> key_matches E key db1 x" using unused by (auto simp: key_matches_def)
  then have "find (key_matches E key db1) (trows (api_keys db)) = None" by (simp add: find_None_iff)
  moreover have "key_matches E key db1 r"
    using user key candidate_hashes_cases [of E key]
    by (cases "ke_pepper E") (auto simp: key_matches_def r_def db1 user_active_def keyed_def)
  ultimately have "find_where (key_matches E key db1) (api_keys db1) = Some r"
    by (simp add: find_where_def db1 find_append)
  then have "fst (validate_key E (p @ h) db1) = Ok \<lparr>ac_key = k, ac_user_id = u, ac_act_as = None\<rparr>"
    using norm k row_to_api_key_Ok [OF k] expiry by (simp add: validate_key_def r_def db1)
  then show ?thesis using row_to_api_key_Ok [OF k] by (simp add: r_def)
qed

section \<open>Witnesses\<close>

text \<open>A concrete environment: the digest is the text itself, times print as decimal numbers.\<close>

definition demo_keys :: key_env where
  "demo_keys = \<lparr>ke_unicode = ascii, sha256_hex = (\<lambda>s. s), ke_pepper = Some ''pepper'', debug_assertions = False,
     parse_naive = (\<lambda>s. map_option int (digits_value 10 0 s)), parse_rfc3339 = (\<lambda>s. None),
     format_datetime = show_int, key_fk_error = ''FOREIGN KEY constraint failed'', i32_error = ''out of range''\<rparr>"

definition demo_auth :: auth_db where
  "demo_auth = \<lparr>now = 5, api_keys = empty_table,
     users = \<lparr>trows = [\<lparr>us_id = 1, us_username = ''ann'', us_email = None, us_role = ''admin'', us_is_active = True\<rparr>], tseq = 1\<rparr>\<rparr>"

definition demo_bytes :: "8 word list" where
  "demo_bytes = replicate 16 0xAB"

definition demo_minted :: auth_db where
  "demo_minted = snd (create_api_key demo_keys demo_bytes 1 ''cli'' [Read, Write] (Some 60) demo_auth)"

lemma demo_full: "full_key demo_bytes = ''kleos_abababababababababababababababab''"
  by code_simp

lemma demo_validates:
  "map_sum error_text (\<lambda>ctx. (ac_user_id ctx, key_id (ac_key ctx))) (fst (validate_key demo_keys ''kl_ABABabababababababababababababab'' demo_minted))
     = Ok (1, 1)"
  by code_simp

definition demo_start_keys :: key_sys where
  "demo_start_keys = \<lparr>ks_db = demo_auth, ks_contexts = [], ks_minted = []\<rparr>"

theorem only_minted_keys_authenticate_witness:
  "\<exists>s ctx db' r. (key_step demo_keys)\<^sup>*\<^sup>* demo_start_keys s
     \<and> validate_key demo_keys ''kl_ABABabababababababababababababab'' (ks_db s) = (Ok ctx, db')
     \<and> r \<in> set (trows (api_keys (ks_db s))) \<and> kr_is_active r \<and> ac_user_id ctx = 1 \<and> kr_user_id r = 1"
proof -
  let ?s = "demo_start_keys\<lparr>ks_db := demo_minted, ks_minted := note_minted demo_bytes demo_auth demo_minted []\<rparr>"
  have start: "no_keys demo_start_keys" by (simp add: no_keys_def demo_start_keys_def demo_auth_def empty_table_def)
  have "key_step demo_keys demo_start_keys ?s"
    using key_step.bootstrap [of demo_bytes demo_minted demo_keys 1 "''cli''" "[Read, Write]" "Some 60" demo_start_keys]
    by (simp add: demo_bytes_def demo_minted_def demo_start_keys_def)
  then have steps: "(key_step demo_keys)\<^sup>*\<^sup>* demo_start_keys ?s" by blast
  obtain ctx db' where v: "validate_key demo_keys ''kl_ABABabababababababababababababab'' (ks_db ?s) = (Ok ctx, db')" "ac_user_id ctx = 1"
    using demo_validates by (cases "validate_key demo_keys ''kl_ABABabababababababababababababab'' demo_minted"; cases "fst (validate_key demo_keys ''kl_ABABabababababababababababababab'' demo_minted)") auto
  from only_minted_keys_authenticate [OF start steps v(1)]
  obtain r where "r \<in> set (trows (api_keys (ks_db ?s)))" "kr_is_active r" "ac_user_id ctx = kr_user_id r" by blast
  then show ?thesis using steps v by (intro exI [of _ ?s] exI [of _ ctx] exI [of _ db'] exI [of _ r]) simp
qed

definition demo_reader :: auth_context where
  "demo_reader = \<lparr>ac_key = \<lparr>key_id = 1, key_user_id = 1, key_prefix = ''abababab'', key_name = ''cli'', key_scopes = [Read],
     key_rate_limit = 60, key_is_active = True, key_agent_id = None, key_last_used_at = None, key_expires_at = None,
     key_created_at = 5, key_hash_version = 2\<rparr>, ac_user_id = 1, ac_act_as = None\<rparr>"

definition demo_reader_mints :: auth_db where
  "demo_reader_mints = snd (create_api_key_handler demo_keys demo_bytes demo_reader
     \<lparr>cab_name = None, cab_scopes = Some ''read'', cab_rate_limit = Some 5000\<rparr> demo_auth)"

theorem minted_keys_are_capped_witness:
  "\<exists>r. trows (api_keys demo_reader_mints) = [r] \<and> set (parse_scopes ascii (kr_scopes r)) \<subseteq> {Read} \<and> kr_rate_limit r \<le> 60"
proof -
  have "map kr_id (trows (api_keys demo_reader_mints)) = [1]" by code_simp
  then obtain r where r: "trows (api_keys demo_reader_mints) = [r]" "kr_id r = 1" by (cases "trows (api_keys demo_reader_mints)") auto
  have U: "plain_lowercase (ke_unicode demo_keys)"
    unfolding plain_lowercase_def demo_keys_def by (intro allI, rule scope.induct) (code_simp, code_simp, code_simp)
  have wf: "wf_table kr_id (api_keys demo_auth)" by (simp add: demo_auth_def empty_table_def wf_table_def)
  have mint: "mint_call demo_keys demo_reader demo_bytes demo_auth demo_reader_mints"
    unfolding demo_reader_mints_def by (rule mint_call.intros(3))
  have "r \<in> set (trows (api_keys demo_reader_mints))" "tseq (api_keys demo_auth) < kr_id r"
    using r by (simp_all add: demo_auth_def empty_table_def)
  from minted_keys_are_capped [OF U wf mint this] show ?thesis
    using r(1) by (auto simp: has_scope_def demo_reader_def demo_keys_def)
qed

theorem minted_key_works_witness:
  "\<exists>ctx. fst (validate_key demo_keys (''eg_'' @ ''ABABABABABABABABABABABABABABABAB'') demo_minted) = Ok ctx \<and> ac_user_id ctx = 1"
proof -
  have "map_sum error_text snd (fst (create_api_key demo_keys demo_bytes 1 ''cli'' [Read, Write] (Some 60) demo_auth))
      = Ok ''kleos_abababababababababababababababab''" by code_simp
  then obtain k where create: "create_key_with_expiry demo_keys demo_bytes 1 ''cli'' [Read, Write] (Some 60) None demo_auth
      = (Ok (k, ''kleos_abababababababababababababababab''), demo_minted)"
    unfolding demo_minted_def create_api_key_def
    by (cases "create_key_with_expiry demo_keys demo_bytes 1 ''cli'' [Read, Write] (Some 60) None demo_auth";
        cases "fst (create_key_with_expiry demo_keys demo_bytes 1 ''cli'' [Read, Write] (Some 60) None demo_auth)") auto
  have "to_ascii_lowercase ''ABABABABABABABABABABABABABABABAB'' = drop 6 ''kleos_abababababababababababababababab''" by code_simp
  moreover have "user_active demo_auth 1" "check_expiry demo_keys None (now demo_auth) = Ok ()" "trows (api_keys demo_auth) = []"
    by (simp_all add: demo_auth_def user_active_def check_expiry_def empty_table_def)
  ultimately show ?thesis
    using minted_key_works [OF create, of "''eg_''" "''ABABABABABABABABABABABABABABABAB''"] by (auto simp: demo_bytes_def)
qed

section \<open>Corner cases\<close>

text \<open>
  Rotation replaces the expiry of the old key whatever it was: one that would have expired sooner, or has, is accepted
  for the grace period. Its successor never expires.
\<close>

lemma rotation_sets_expiry:
  assumes "rotate_key_handler E d raw ctx i g db = (Ok new, db')" "r \<in> set (trows (api_keys db'))" "kr_id r = i" "kr_user_id r = ac_user_id ctx"
  shows "kr_expires_at r = Some (format_datetime E (now db' + 3600 * max 1 (min (given g d) MAX_KEY_GRACE_HOURS)))"
proof -
  let ?f = "\<lambda>db1 r. r\<lparr>kr_expires_at := Some (format_datetime E (now db1 + 3600 * max 1 (min (given g d) MAX_KEY_GRACE_HOURS)))\<rparr>"
  obtain db1 where "db' = upd_keys (\<lambda>r. kr_id r = i \<and> kr_user_id r = ac_user_id ctx) (?f db1) db1"
    using assms(1) by (auto simp: rotate_key_handler_def Let_def split: if_splits sum.splits option.splits prod.splits)
  then have "r \<in> (\<lambda>x. if kr_id x = i \<and> kr_user_id x = ac_user_id ctx then ?f db1 x else x) ` set (trows (api_keys db1))" "now db' = now db1"
    using assms(2) by (simp_all add: upd_keys_def table_simps)
  then obtain x where x: "r = (if kr_id x = i \<and> kr_user_id x = ac_user_id ctx then ?f db1 x else x)" and t: "now db' = now db1" by blast
  show ?thesis
  proof (cases "kr_id x = i \<and> kr_user_id x = ac_user_id ctx")
    case True
    then show ?thesis unfolding x t by simp
  next
    case False
    then have "r = x" using x by (simp only: if_False)
    then show ?thesis using False assms(3,4) by simp
  qed
qed

definition expired_key :: auth_db where
  "expired_key = upd_keys (\<lambda>r. True) (\<lambda>r. r\<lparr>kr_expires_at := Some ''4''\<rparr>) demo_minted"

definition demo_admin :: auth_context where
  "demo_admin = demo_reader\<lparr>ac_key := (ac_key demo_reader)\<lparr>key_scopes := [Admin]\<rparr>\<rparr>"

definition rotated :: auth_db where
  "rotated = snd (rotate_key_handler demo_keys 1 (replicate 16 0xCD) demo_admin 1 None expired_key)"

lemma rotation_revives:
  "map_sum error_text (\<lambda>ctx. key_id (ac_key ctx)) (fst (validate_key demo_keys ''kl_abababababababababababababababab'' expired_key))
     = Err ''auth error: key has expired''"
  "map kr_expires_at (trows (api_keys rotated)) = [Some ''3605'', None]"
  by code_simp+

text \<open>A rate limit beyond the range of an \<^verbatim>\<open>i32\<close> is stored but cannot be read back: the listing of the user fails.\<close>

lemma large_limit_blocks_listing:
  assumes "r \<in> set (trows (api_keys db))" "kr_user_id r = u" "kr_is_active r" "2 ^ 31 \<le> kr_rate_limit r"
  shows "\<exists>e. list_user_keys E u db = Err e"
proof -
  have "\<exists>e. read_keys E rs = Err e" if "r \<in> set rs" for rs
    using that assms(4) by (induction rs) (auto simp: row_to_api_key_def split: sum.split)
  then show ?thesis using assms(1-3) by (simp add: list_user_keys_def newest_first_def select_where_def)
qed

lemma large_limit_is_stored:
  "map kr_rate_limit (trows (api_keys (snd (create_api_key demo_keys demo_bytes 1 ''cli'' [Read] (Some 3000000000) demo_auth)))) = [3000000000]"
  "map_sum error_text key_id (map_sum id fst (fst (create_api_key demo_keys demo_bytes 1 ''cli'' [Read] (Some 3000000000) demo_auth)))
     = Err ''database error: out of range''"
  by code_simp+

end
