(* ===== verification/Spec2Isabelle.thy ===== *)
theory Spec2Isabelle
  imports Loom_Properties Resilience Job_Leases Chiasm_Properties Rate_Refinement Approvals Tenant_Ids Gate_Flow
    Memory_Properties Key_Properties
begin

text \<open>
  A verification library for the service core of Kleos, a memory and coordination server for software agents.
  Paths below are under \<^verbatim>\<open>src/kleos-lib/src\<close> unless they name another crate.

  \<^bold>\<open>The program.\<close> Kleos keeps the memories of agents (\<^verbatim>\<open>memory\<close>), lets agents coordinate through tasks
  (\<^verbatim>\<open>services/chiasm\<close>), runs workflows (\<^verbatim>\<open>services/loom.rs\<close>) and background jobs (\<^verbatim>\<open>jobs\<close>), and publishes what
  happens on an event bus (\<^verbatim>\<open>services/axon\<close>). Around these stand guards: the gate that decides which commands an
  agent may run (\<^verbatim>\<open>gate\<close> and \<^verbatim>\<open>kleos-server/src/routes/gate\<close>), the API keys that requests carry (\<^verbatim>\<open>auth.rs\<close> and the
  key routes of \<^verbatim>\<open>kleos-server\<close>), approvals by people (\<^verbatim>\<open>approvals\<close>), rate limits
  (\<^verbatim>\<open>ratelimit.rs\<close>), the deny lists for outgoing connections (\<^verbatim>\<open>net.rs\<close>, \<^verbatim>\<open>webhooks.rs\<close>), the mapping from users
  to tenant directories (\<^verbatim>\<open>tenant/id.rs\<close>), quotas (\<^verbatim>\<open>quota.rs\<close>), and the resilience layer for calls to other
  services (\<^verbatim>\<open>resilience\<close>). All keep their state in SQLite tables; the library models a table as a list of rows
  with the last row id ever given out, and one SQL statement as one function on it.

  \<^bold>\<open>How the model is built.\<close> A Rust struct is a record, an enum a datatype, \<^verbatim>\<open>Result\<close> a sum with the error type of
  \<^verbatim>\<open>lib.rs\<close> on the left. Functions that change the database take and return it. A \<^verbatim>\<open>str\<close> is the list of its UTF-8
  bytes. Integers keep their width where the code can leave it: words for hashes, limits and embeddings, saturation
  and clamping written out elsewhere. Where an operation makes several database calls and others may come between
  them (an update of a memory, a decision on an approval, a claim on a job, a check that waits for a person), each
  part is a definition of its own and the machine interleaves them.

  \<^bold>\<open>Theories.\<close>
  \<^item> \<open>Kleos_Prelude\<close>: the error type and its texts, integer casts, tables (\<open>insert_row\<close>, \<open>update_where\<close>,
    \<open>delete_where\<close>, \<open>select_where\<close>) with their laws, and the locale \<open>state_machine\<close> from which every invariant over
    histories is obtained. \<open>Json_Values\<close>: JSON values, dot paths, template interpolation (\<^verbatim>\<open>llm/template.rs\<close>).
    \<open>Text_Ops\<close>: searching, splitting, replacing and trimming of byte strings. \<open>Utf8\<close>: character boundaries of UTF-8
    and white space at the ends of a text.
  \<^item> \<open>Axon\<close>: the event bus; exactly-once delivery along any sequence of operations, tenant isolation, retention.
  \<^item> \<open>Loom_Graph\<close>, \<open>Loom\<close>, \<open>Loom_Engine\<close>, \<open>Loom_Runs\<close>, \<open>Loom_Properties\<close>: validation of the step graph by Kahn's
    algorithm for any iteration order of its hash map, the re-entrant engine, and what every history of calls keeps:
    steps start after their dependencies, finished work is never changed, automated runs finish, also after a crash,
    retries are bounded.
  \<^item> \<open>Resilience\<close>: circuit breaker under concurrent calls, retry loops, dead letters, the service guard.
  \<^item> \<open>Jobs\<close>, \<open>Job_Leases\<close>: the durable queue, one worker step on every branch, and several workers with leases.
  \<^item> \<open>Chiasm\<close>, \<open>Chiasm_Service\<close>, \<open>Chiasm_Properties\<close>: tasks, dependencies, path claims, heartbeats, keys and the
    handlers of \<^verbatim>\<open>kleos-server/src/routes/tasks\<close>; acyclicity, isolation of users, exactness of sweep and queue.
  \<^item> \<open>Rate_Limits\<close>, \<open>Rate_Refinement\<close>: both limiters; the in-memory one refines a specification that remembers every
    accepted request, the fixed-window one passes at most twice its limit.
  \<^item> \<open>Approvals\<close>, \<open>Tenant_Ids\<close>, \<open>Ip_Guard\<close>: decisions are final, tenant ids are safe file names, the tests on
    addresses are membership in the blocks of the deny lists.
  \<^item> \<open>Api_Keys\<close>, \<open>Key_Routes\<close>, \<open>Key_Properties\<close>: keys, users and the handlers that mint, rotate, revoke and list
    them; only minted keys authenticate, a revoked one never again, no key exceeds the scopes of the key that minted
    it, and a minted key works at once.
  \<^item> \<open>Chunking\<close>: the two text chunkers (\<^verbatim>\<open>embeddings/chunking.rs\<close>, \<^verbatim>\<open>ingestion/chunker.rs\<close>) behind one interface of
    sliding windows; every byte of a document that is not white space is in a chunk.
  \<^item> \<open>Gate_Policy\<close>, \<open>Gate\<close>, \<open>Gate_Properties\<close>, \<open>Gate_Server\<close>, \<open>Gate_Flow\<close>: static policy, request table, scrubbing
    of secrets, handlers; what an allowed command has passed, and that one decision is taken per request.
  \<^item> \<open>Simhash\<close>: fingerprints of texts. \<open>Memory_Model\<close>, \<open>Memory_Store\<close>, \<open>Memory_Edit\<close>, \<open>Memory_Queries\<close>,
    \<open>Memory_Vectors\<close>: rows, requests and every operation of \<^verbatim>\<open>memory/mod.rs\<close>, \<^verbatim>\<open>memory/vector_sync.rs\<close> and
    \<^verbatim>\<open>inbox.rs\<close> on the memories, their chunks, links and the vector index with its ledger of failed writes.
    \<open>Memory_Chains\<close>, \<open>Memory_Machine\<close>, \<open>Memory_Properties\<close>: version chains never fork, users are isolated, only the
    inbox decides a review, a restore undoes a delete. \<open>Memory_Examples\<close> holds the store the witnesses run on.

  \<^bold>\<open>Fuel and bounds.\<close> \<open>advance_run\<close> calls itself through the steps it completes, so it takes fuel, the depth of the
  recursion; \<open>Loom_Engine\<close> defines a cost of the step table that every claim, completion and retry lowers, and any
  fuel above it gives the result (\<open>advance_run_terminates\<close>). Every other loop is total: Kahn's loop, the search for
  cycles, batched deletes and the retry loops have measures. Row ids, counters and times are unbounded integers, since
  SQLite would have to count past $2^{63}$ to wrap; text lengths and search limits are bounded where the code does so.

  \<^bold>\<open>Parameters.\<close> Code outside the repository is an argument of the definitions that use it: Unicode case mapping and
  white space beyond ASCII, \<^verbatim>\<open>serde_json\<close>, \<^verbatim>\<open>chrono\<close>, SHA-256, base64, random bytes, language detection, HTTP, name
  resolution, the language model, the embedder, the vector index (any behaviour; where a theorem needs it, a failed
  call leaves the other keys alone), the clock. So is floating-point code: L2 normalisation, valence scores and the
  comparison of Julian days. Hypotheses about them are stated in the theorems and met by concrete functions in the
  witnesses.

  \<^bold>\<open>Not modelled.\<close> Ranking and fusion in \<^verbatim>\<open>memory/search.rs\<close>, \<^verbatim>\<open>fsrs\<close>, \<^verbatim>\<open>brain\<close>, the reranker and the emotion
  lexicon, because they compute with floating point; the embedding providers and the language model clients, because
  they call ONNX and HTTP; the migrations, because they are SQL text; the user profile and statistics reports and the
  in-process search cache; spaces and instance grants, PIV identities and MCP tokens, which are other ways to
  authenticate than the API keys; routing in \<^verbatim>\<open>kleos-server\<close>, the command line, the credential tool and the generated
  client, because they are I/O around the library.
\<close>

end
